(* ===== verification/Prelude.thy ===== *)
theory Prelude
  imports Main "HOL-Library.Word"
begin

text \<open>
  Shared material of the development: names for the machine integers of the C++ code, the
  collections of rewrite rules the component proofs draw on, and generic facts about words,
  lists and finite maps that several components use.
\<close>

section \<open>Machine integers\<close>

type_synonym u32 = "32 word"
type_synonym u64 = "64 word"

named_theorems u64_arith \<open>transfer of 64-bit counter arithmetic to \<open>nat\<close>\<close>

lemma unat_u64_bound: "unat (w :: u64) < 18446744073709551616"
  using unsigned_less [of w] by simp

lemma unat_u64_add_1 [u64_arith]:
  "unat (w :: u64) < 18446744073709551615 \<Longrightarrow> unat (w + 1) = Suc (unat w)"
  by (simp add: unat_word_ariths)

lemma unat_u64_of_nat [u64_arith]:
  "n < 18446744073709551616 \<Longrightarrow> unat (of_nat n :: u64) = n"
  by (simp add: unat_of_nat)

lemma u64_eq_iff_unat: "(a :: u64) = b \<longleftrightarrow> unat a = unat b"
  by (simp add: word_eq_iff_unsigned)

lemma sint_u64_eq_uint:
  assumes "uint (w :: u64) < 9223372036854775808"
  shows "sint w = uint w"
proof -
  have pow: "(2 :: int) ^ 63 = 9223372036854775808" by simp
  have "(0 :: int) \<le> uint w" by simp
  then have "- (2 ^ 63) \<le> uint w" and "uint w < 2 ^ 63"
    unfolding pow using assms by linarith+
  then show ?thesis by (simp add: sint_uint signed_take_bit_int_eq_self)
qed

section \<open>Indices modulo a window\<close>

text \<open>Two indices closer to each other than the modulus are congruent only when equal.\<close>

lemma mod_window_inj:
  fixes i j m :: nat
  assumes "i mod m = j mod m" and "i \<le> j" and "j - i < m"
  shows "i = j"
proof -
  from assms have "m dvd j - i"
    using mod_eq_dvd_iff_nat by metis
  with assms show ?thesis
    using dvd_imp_le by fastforce
qed

lemma mod_window_neq:
  fixes i j m lo :: nat
  assumes "i \<noteq> j" and "lo \<le> i" and "lo \<le> j" and "i < lo + m" and "j < lo + m"
  shows "i mod m \<noteq> j mod m"
proof
  assume eq: "i mod m = j mod m"
  show False
  proof (cases "i \<le> j")
    case True
    then show False using mod_window_inj [OF eq True] assms by linarith
  next
    case False
    then show False using mod_window_inj [OF eq [symmetric]] assms by linarith
  qed
qed

section \<open>Outcomes\<close>

text \<open>
  The outcome of an operation that may exit the process, throw an exception or have no defined
  behaviour.
\<close>

datatype failure = Exit | Exception | Undefined

type_synonym 'a outcome = "failure + 'a"

definition bind_outcome :: "'a outcome \<Rightarrow> ('a \<Rightarrow> 'b outcome) \<Rightarrow> 'b outcome" where
  "bind_outcome x f = (case x of Inl e \<Rightarrow> Inl e | Inr a \<Rightarrow> f a)"

lemma bind_outcome_simps [simp]: "bind_outcome (Inr a) f = f a" "bind_outcome (Inl e) f = Inl e"
  by (simp_all add: bind_outcome_def)

section \<open>Sequences of operations\<close>

text \<open>The outputs of a sequence of operations.\<close>

fun run_ops :: "('op \<Rightarrow> 's \<Rightarrow> 'o \<times> 's) \<Rightarrow> 'op list \<Rightarrow> 's \<Rightarrow> 'o list" where
  "run_ops step [] s = []"
| "run_ops step (x # xs) s = (case step x s of (out, s) \<Rightarrow> out # run_ops step xs s)"

text \<open>A simulation gives equal outputs; it may depend on how many operations are left.\<close>

lemma run_ops_simulation:
  assumes "rel (length xs) s t"
    and "\<And>n x s t. rel (Suc n) s t \<Longrightarrow> fst (step x s) = fst (step' x t) \<and> rel n (snd (step x s)) (snd (step' x t))"
  shows "run_ops step xs s = run_ops step' xs t"
  using assms(1)
proof (induction xs arbitrary: s t)
  case (Cons x xs)
  from Cons.prems have "rel (Suc (length xs)) s t" by simp
  then show ?case using assms(2) [of "length xs" s t x] Cons.IH by (simp add: case_prod_beta)
qed simp

end
