(* ===== verification/BoundedQueue.thy ===== *)
theory BoundedQueue
  imports Prelude
begin

text \<open>
  The lock-free ring buffer \<^verbatim>\<open>BoundedQueue\<close> of \<^verbatim>\<open>cyber/base/bounded_queue.h\<close>. Its three
  counters are 64-bit words. \<open>Enqueue\<close> and \<open>Dequeue\<close> are modelled twice: as programs of atomic
  steps (\<open>BoundedQueue_Enqueue_step\<close>, \<open>BoundedQueue_Dequeue_step\<close>) that any number of threads
  interleave, and as the function an undisturbed call computes. The wait strategy is a
  parameter: a list of what each \<open>EmptyWait\<close> call returns and what other threads did to the
  queue meanwhile. Memory is sequentially consistent; \<open>nullptr\<close> pools are empty lists.
\<close>

section \<open>The data and its operations\<close>

record 'a bounded_queue =
  bq_head :: u64
  bq_tail :: u64
  bq_commit :: u64
  bq_pool_size :: u64
  bq_pool :: "'a list"
  bq_break_all_wait :: bool

definition BoundedQueue_new :: "'a bounded_queue" where
  "BoundedQueue_new = \<lparr>bq_head = 0, bq_tail = 1, bq_commit = 1, bq_pool_size = 0,
     bq_pool = [], bq_break_all_wait = False\<rparr>"

text \<open>\<open>alloc\<close> is the outcome of \<open>calloc\<close>, \<open>dflt\<close> the default-constructed \<open>T()\<close>.\<close>

definition BoundedQueue_Init ::
  "bool \<Rightarrow> 'a \<Rightarrow> u64 \<Rightarrow> 'a bounded_queue \<Rightarrow> bool \<times> 'a bounded_queue" where
  "BoundedQueue_Init alloc dflt sz q =
     (let ps = sz + 2 in
      if \<not> alloc then (False, q\<lparr>bq_pool_size := ps, bq_pool := []\<rparr>)
      else (True, q\<lparr>bq_pool_size := ps, bq_pool := replicate (unat ps) dflt\<rparr>))"

definition BoundedQueue_GetIndex :: "'a bounded_queue \<Rightarrow> u64 \<Rightarrow> u64" where
  "BoundedQueue_GetIndex q num = num - (num div bq_pool_size q) * bq_pool_size q"

abbreviation BoundedQueue_Size :: "'a bounded_queue \<Rightarrow> u64" where
  "BoundedQueue_Size q \<equiv> bq_tail q - bq_head q - 1"

abbreviation BoundedQueue_Empty :: "'a bounded_queue \<Rightarrow> bool" where
  "BoundedQueue_Empty q \<equiv> BoundedQueue_Size q = 0"

abbreviation BoundedQueue_BreakAllWait :: "'a bounded_queue \<Rightarrow> 'a bounded_queue" where
  "BoundedQueue_BreakAllWait q \<equiv> q\<lparr>bq_break_all_wait := True\<rparr>"

text \<open>
  An undisturbed \<open>Enqueue\<close>. The commit loop spins until \<open>commit_\<close> equals the claimed index;
  with no other thread running that never happens unless it holds at once, so a differing
  \<open>commit_\<close> is the value \<^term>\<open>None\<close> (no return).
\<close>

definition BoundedQueue_Enqueue ::
  "'a bounded_queue \<Rightarrow> 'a \<Rightarrow> (bool \<times> 'a bounded_queue) option" where
  "BoundedQueue_Enqueue q x =
     (let old_tail = bq_tail q; new_tail = old_tail + 1 in
      if BoundedQueue_GetIndex q new_tail = BoundedQueue_GetIndex q (bq_head q)
      then Some (False, q)
      else if bq_commit q \<noteq> old_tail then None
      else Some (True, q\<lparr>bq_tail := new_tail,
             bq_pool := (bq_pool q)[unat (BoundedQueue_GetIndex q old_tail) := x],
             bq_commit := new_tail\<rparr>))"

definition BoundedQueue_Dequeue ::
  "'a bounded_queue \<Rightarrow> 'a option \<times> 'a bounded_queue" where
  "BoundedQueue_Dequeue q =
     (let old_head = bq_head q; new_head = old_head + 1 in
      if new_head = bq_commit q then (None, q)
      else (Some (bq_pool q ! unat (BoundedQueue_GetIndex q new_head)),
            q\<lparr>bq_head := new_head\<rparr>))"

text \<open>
  The waiting variants. An element of \<open>env\<close> is one \<open>EmptyWait\<close> call: the queue other threads
  leave behind and the returned flag. An exhausted list means the call is still waiting.
\<close>

fun BoundedQueue_WaitEnqueue ::
  "('a bounded_queue \<Rightarrow> 'a bounded_queue \<times> bool) list \<Rightarrow> 'a bounded_queue \<Rightarrow> 'a \<Rightarrow>
     (bool \<times> 'a bounded_queue) option" where
  "BoundedQueue_WaitEnqueue env q x =
     (if bq_break_all_wait q then Some (False, q)
      else case BoundedQueue_Enqueue q x of
             None \<Rightarrow> None
           | Some (True, q') \<Rightarrow> Some (True, q')
           | Some (False, q') \<Rightarrow>
               (case env of
                  [] \<Rightarrow> None
                | e # env' \<Rightarrow>
                    (case e q' of (q'', waited) \<Rightarrow>
                       if waited then BoundedQueue_WaitEnqueue env' q'' x
                       else Some (False, q''))))"

fun BoundedQueue_WaitDequeue ::
  "('a bounded_queue \<Rightarrow> 'a bounded_queue \<times> bool) list \<Rightarrow> 'a bounded_queue \<Rightarrow>
     ('a option \<times> 'a bounded_queue) option" where
  "BoundedQueue_WaitDequeue env q =
     (if bq_break_all_wait q then Some (None, q)
      else case BoundedQueue_Dequeue q of
             (Some x, q') \<Rightarrow> Some (Some x, q')
           | (None, q') \<Rightarrow>
               (case env of
                  [] \<Rightarrow> None
                | e # env' \<Rightarrow>
                    (case e q' of (q'', waited) \<Rightarrow>
                       if waited then BoundedQueue_WaitDequeue env' q''
                       else Some (None, q''))))"

declare BoundedQueue_WaitEnqueue.simps [simp del]
declare BoundedQueue_WaitDequeue.simps [simp del]

section \<open>The operations as atomic steps\<close>

text \<open>
  The program counter of a thread inside \<open>Enqueue\<close> or \<open>Dequeue\<close>, with the local variables that
  are live there (\<open>old_tail\<close>, \<open>old_head\<close>, the element). \<open>sp\<close> says that a
  \<open>compare_exchange_weak\<close> fails spuriously; a failed exchange reloads its expected value.
\<close>

datatype 'a bq_pc =
    BQ_Idle
  | BQ_EnqCheck 'a u64
  | BQ_EnqCas 'a u64
  | BQ_EnqStore 'a u64
  | BQ_EnqCommit u64
  | BQ_EnqDone bool
  | BQ_DeqCheck u64
  | BQ_DeqLoad u64
  | BQ_DeqCas u64 'a
  | BQ_DeqDone "'a option"

fun BoundedQueue_Enqueue_step ::
  "bool \<Rightarrow> 'a bounded_queue \<Rightarrow> 'a bq_pc \<Rightarrow> 'a bounded_queue \<times> 'a bq_pc" where
  "BoundedQueue_Enqueue_step sp q (BQ_EnqCheck x old_tail) =
     (if BoundedQueue_GetIndex q (old_tail + 1) = BoundedQueue_GetIndex q (bq_head q)
      then (q, BQ_EnqDone False) else (q, BQ_EnqCas x old_tail))"
| "BoundedQueue_Enqueue_step sp q (BQ_EnqCas x old_tail) =
     (if \<not> sp \<and> bq_tail q = old_tail
      then (q\<lparr>bq_tail := old_tail + 1\<rparr>, BQ_EnqStore x old_tail)
      else (q, BQ_EnqCheck x (bq_tail q)))"
| "BoundedQueue_Enqueue_step sp q (BQ_EnqStore x old_tail) =
     (q\<lparr>bq_pool := (bq_pool q)[unat (BoundedQueue_GetIndex q old_tail) := x]\<rparr>,
      BQ_EnqCommit old_tail)"
| "BoundedQueue_Enqueue_step sp q (BQ_EnqCommit old_tail) =
     (if \<not> sp \<and> bq_commit q = old_tail
      then (q\<lparr>bq_commit := old_tail + 1\<rparr>, BQ_EnqDone True)
      else (q, BQ_EnqCommit old_tail))"
| "BoundedQueue_Enqueue_step sp q pc = (q, pc)"

fun BoundedQueue_Dequeue_step ::
  "bool \<Rightarrow> 'a bounded_queue \<Rightarrow> 'a bq_pc \<Rightarrow> 'a bounded_queue \<times> 'a bq_pc" where
  "BoundedQueue_Dequeue_step sp q (BQ_DeqCheck old_head) =
     (if old_head + 1 = bq_commit q then (q, BQ_DeqDone None) else (q, BQ_DeqLoad old_head))"
| "BoundedQueue_Dequeue_step sp q (BQ_DeqLoad old_head) =
     (q, BQ_DeqCas old_head (bq_pool q ! unat (BoundedQueue_GetIndex q (old_head + 1))))"
| "BoundedQueue_Dequeue_step sp q (BQ_DeqCas old_head x) =
     (if \<not> sp \<and> bq_head q = old_head
      then (q\<lparr>bq_head := old_head + 1\<rparr>, BQ_DeqDone (Some x))
      else (q, BQ_DeqCheck (bq_head q)))"
| "BoundedQueue_Dequeue_step sp q pc = (q, pc)"

text \<open>
  The system: one queue, a program counter per thread, and two logs that no program reads:
  the elements in the order their index was claimed, and the elements handed out in the order
  of the successful exchanges of \<open>head_\<close>.
\<close>

record 'a bq_system =
  sys_queue :: "'a bounded_queue"
  sys_pcs :: "nat \<Rightarrow> 'a bq_pc"
  sys_enqs :: "'a list"
  sys_deqs :: "'a list"

fun bq_claimed :: "'a bq_pc \<Rightarrow> 'a bq_pc \<Rightarrow> 'a list" where
  "bq_claimed (BQ_EnqCas x t) (BQ_EnqStore y t') = [x]"
| "bq_claimed pc pc' = []"

fun bq_taken :: "'a bq_pc \<Rightarrow> 'a bq_pc \<Rightarrow> 'a list" where
  "bq_taken (BQ_DeqCas h x) (BQ_DeqDone (Some y)) = [y]"
| "bq_taken pc pc' = []"

inductive bq_step :: "'a bq_system \<Rightarrow> 'a bq_system \<Rightarrow> bool" where
  call_enqueue: "sys_pcs s i = BQ_Idle \<Longrightarrow>
     bq_step s (s\<lparr>sys_pcs := (sys_pcs s)(i := BQ_EnqCheck x (bq_tail (sys_queue s)))\<rparr>)"
| call_dequeue: "sys_pcs s i = BQ_Idle \<Longrightarrow>
     bq_step s (s\<lparr>sys_pcs := (sys_pcs s)(i := BQ_DeqCheck (bq_head (sys_queue s)))\<rparr>)"
| enqueue: "BoundedQueue_Enqueue_step sp (sys_queue s) (sys_pcs s i) = (q, pc) \<Longrightarrow>
     bq_step s (s\<lparr>sys_queue := q, sys_pcs := (sys_pcs s)(i := pc),
                  sys_enqs := sys_enqs s @ bq_claimed (sys_pcs s i) pc\<rparr>)"
| dequeue: "BoundedQueue_Dequeue_step sp (sys_queue s) (sys_pcs s i) = (q, pc) \<Longrightarrow>
     bq_step s (s\<lparr>sys_queue := q, sys_pcs := (sys_pcs s)(i := pc),
                  sys_deqs := sys_deqs s @ bq_taken (sys_pcs s i) pc\<rparr>)"
| return_enqueue: "sys_pcs s i = BQ_EnqDone b \<Longrightarrow>
     bq_step s (s\<lparr>sys_pcs := (sys_pcs s)(i := BQ_Idle)\<rparr>)"
| return_dequeue: "sys_pcs s i = BQ_DeqDone r \<Longrightarrow>
     bq_step s (s\<lparr>sys_pcs := (sys_pcs s)(i := BQ_Idle)\<rparr>)"

definition bq_system_init :: "'a \<Rightarrow> u64 \<Rightarrow> 'a bq_system" where
  "bq_system_init dflt sz =
     \<lparr>sys_queue = snd (BoundedQueue_Init True dflt sz BoundedQueue_new),
      sys_pcs = (\<lambda>_. BQ_Idle), sys_enqs = [], sys_deqs = []\<rparr>"

inductive bq_run :: "'a bq_system \<Rightarrow> nat \<Rightarrow> 'a bq_system \<Rightarrow> bool" for s0 where
  bq_run_start: "bq_run s0 0 s0"
| bq_run_step: "bq_run s0 n s \<Longrightarrow> bq_step s t \<Longrightarrow> bq_run s0 (Suc n) t"


inductive_cases bq_runE: "bq_run s0 n s"

section \<open>The bounded FIFO contract\<close>

primrec push_all :: "('q \<Rightarrow> 'a \<Rightarrow> (bool \<times> 'q) option) \<Rightarrow> 'a list \<Rightarrow> 'q \<Rightarrow> 'q option" where
  "push_all enq [] q = Some q"
| "push_all enq (x # xs) q = (case enq q x of Some (True, q') \<Rightarrow> push_all enq xs q' | _ \<Rightarrow> None)"

primrec pop_all :: "('q \<Rightarrow> 'a option \<times> 'q) \<Rightarrow> nat \<Rightarrow> 'q \<Rightarrow> 'a option list" where
  "pop_all deq 0 q = []"
| "pop_all deq (Suc n) q = (case deq q of (r, q') \<Rightarrow> r # pop_all deq n q')"

text \<open>
  What a client of a bounded queue relies on. \<open>invar n q\<close> says that \<open>q\<close> is well formed and that
  \<open>n\<close> more operations stay inside the range of its counters.
\<close>

locale bounded_fifo =
  fixes enq :: "'q \<Rightarrow> 'a \<Rightarrow> (bool \<times> 'q) option"
    and deq :: "'q \<Rightarrow> 'a option \<times> 'q"
    and content :: "'q \<Rightarrow> 'a list"
    and capacity :: "'q \<Rightarrow> nat"
    and invar :: "nat \<Rightarrow> 'q \<Rightarrow> bool"
  assumes content_le: "invar n q \<Longrightarrow> length (content q) \<le> capacity q"
    and enq_room: "invar (Suc n) q \<Longrightarrow> length (content q) < capacity q \<Longrightarrow>
      \<exists>q'. enq q x = Some (True, q') \<and> content q' = content q @ [x] \<and>
           capacity q' = capacity q \<and> invar n q'"
    and enq_full: "invar (Suc n) q \<Longrightarrow> length (content q) = capacity q \<Longrightarrow>
      enq q x = Some (False, q)"
    and deq_some: "invar (Suc n) q \<Longrightarrow> content q = x # xs \<Longrightarrow>
      \<exists>q'. deq q = (Some x, q') \<and> content q' = xs \<and> capacity q' = capacity q \<and> invar n q'"
    and deq_none: "invar n q \<Longrightarrow> content q = [] \<Longrightarrow> deq q = (None, q)"
    and invar_mono: "invar (Suc n) q \<Longrightarrow> invar n q"
begin

text \<open>A client that pushes a batch and drains it gets the batch back, in order.\<close>

lemma push_all_content:
  assumes "invar (length xs + n) q" and "length (content q) + length xs \<le> capacity q"
  shows "\<exists>q'. push_all enq xs q = Some q' \<and> content q' = content q @ xs \<and> invar n q'"
  using assms
proof (induction xs arbitrary: q)
  case Nil
  then show ?case by simp
next
  case (Cons x xs)
  then obtain q1 where q1: "enq q x = Some (True, q1)" "content q1 = content q @ [x]"
      "capacity q1 = capacity q" "invar (length xs + n) q1"
    using enq_room [of "length xs + n" q x] by auto
  with Cons.prems Cons.IH [of q1] show ?case by auto
qed

lemma pop_all_content:
  assumes "invar (length (content q)) q"
  shows "pop_all deq (length (content q)) q = map Some (content q)"
  using assms
proof (induction "content q" arbitrary: q)
  case Nil
  then show ?case by simp
next
  case (Cons x xs)
  then obtain q1 where "deq q = (Some x, q1)" "content q1 = xs" "invar (length xs) q1"
    using deq_some [of "length xs" q x xs] by (auto simp: Cons.hyps(2) [symmetric])
  with Cons.hyps show ?case by (auto simp: Cons.hyps(2) [symmetric])
qed

lemma push_then_pop:
  assumes "invar (length xs + length xs) q" and "content q = []" and "length xs \<le> capacity q"
  shows "\<exists>q'. push_all enq xs q = Some q' \<and> pop_all deq (length xs) q' = map Some xs"
proof -
  obtain q' where "push_all enq xs q = Some q'" "content q' = xs" "invar (length xs) q'"
    using push_all_content [of xs "length xs" q] assms by auto
  then show ?thesis using pop_all_content [of q'] by auto
qed

end

text \<open>The ring buffer between \<open>head_\<close> and \<open>commit_\<close>, read as a list.\<close>

definition bq_content :: "'a bounded_queue \<Rightarrow> 'a list" where
  "bq_content q = map (\<lambda>i. bq_pool q ! (i mod unat (bq_pool_size q)))
                    [Suc (unat (bq_head q)) ..< unat (bq_commit q)]"

definition bq_capacity :: "'a bounded_queue \<Rightarrow> nat" where
  "bq_capacity q = unat (bq_pool_size q) - 2"

definition bq_inv :: "nat \<Rightarrow> 'a bounded_queue \<Rightarrow> bool" where
  "bq_inv n q \<longleftrightarrow> length (bq_pool q) = unat (bq_pool_size q) \<and> 2 \<le> unat (bq_pool_size q) \<and>
     bq_commit q = bq_tail q \<and> unat (bq_head q) < unat (bq_tail q) \<and>
     unat (bq_tail q) < unat (bq_head q) + unat (bq_pool_size q) \<and>
     unat (bq_tail q) + n < 18446744073709551616"

lemma unat_GetIndex [simp]:
  "unat (BoundedQueue_GetIndex q n) = unat n mod unat (bq_pool_size q)"
  by (simp add: BoundedQueue_GetIndex_def minus_div_mult_eq_mod unat_mod_distrib)

lemma GetIndex_eq_iff:
  "BoundedQueue_GetIndex q i = BoundedQueue_GetIndex q j \<longleftrightarrow>
     unat i mod unat (bq_pool_size q) = unat j mod unat (bq_pool_size q)"
  by (simp add: u64_eq_iff_unat)

lemma length_bq_content: "length (bq_content q) = unat (bq_commit q) - Suc (unat (bq_head q))"
  by (simp add: bq_content_def)

text \<open>The full test of \<open>Enqueue\<close>: congruence of the two indices means a full ring.\<close>

lemma bq_full_iff:
  assumes "h < t" and "t < h + p"
  shows "Suc t mod p = h mod p \<longleftrightarrow> Suc t = h + p"
proof
  assume eq: "Suc t mod p = h mod p"
  show "Suc t = h + p"
  proof (rule ccontr)
    assume "Suc t \<noteq> h + p"
    with assms have "h = Suc t"
      using mod_window_inj [OF eq [symmetric]] by linarith
    with assms show False by simp
  qed
next
  assume "Suc t = h + p"
  then show "Suc t mod p = h mod p" by simp
qed

lemma bq_content_enqueue:
  assumes "bq_inv (Suc n) q" and "Suc (unat (bq_tail q)) < unat (bq_head q) + unat (bq_pool_size q)"
  shows "bq_content (q\<lparr>bq_tail := bq_tail q + 1,
           bq_pool := (bq_pool q)[unat (bq_tail q) mod unat (bq_pool_size q) := x],
           bq_commit := bq_tail q + 1\<rparr>) = bq_content q @ [x]"
proof -
  let ?h = "unat (bq_head q)" and ?t = "unat (bq_tail q)" and ?p = "unat (bq_pool_size q)"
  have t1: "unat (bq_tail q + 1) = Suc ?t"
    using assms by (simp add: bq_inv_def unat_u64_add_1)
  have neq: "?t mod ?p \<noteq> i mod ?p" if "i \<in> set [Suc ?h ..< ?t]" for i
    using that assms by (intro mod_window_neq [of _ _ "Suc ?h"]) (auto simp: bq_inv_def)
  have "map (\<lambda>i. ((bq_pool q)[?t mod ?p := x]) ! (i mod ?p)) [Suc ?h ..< ?t]
      = map (\<lambda>i. bq_pool q ! (i mod ?p)) [Suc ?h ..< ?t]"
    using neq by (intro map_cong refl) (simp add: nth_list_update_neq)
  then show ?thesis
    using assms t1 by (simp add: bq_content_def bq_inv_def)
qed

lemma bq_content_dequeue:
  assumes "bq_inv n q" and "bq_content q = x # xs"
  shows "bq_pool q ! (Suc (unat (bq_head q)) mod unat (bq_pool_size q)) = x"
    and "bq_content (q\<lparr>bq_head := bq_head q + 1\<rparr>) = xs"
    and "Suc (unat (bq_head q)) < unat (bq_tail q)"
proof -
  have len: "Suc (unat (bq_head q)) < unat (bq_tail q)"
    using assms length_bq_content [of q] by (simp add: bq_inv_def)
  then show "Suc (unat (bq_head q)) < unat (bq_tail q)" .
  have h1: "unat (bq_head q + 1) = Suc (unat (bq_head q))"
    using len unat_u64_bound [of "bq_tail q"] by (simp add: unat_u64_add_1)
  have "bq_content q = bq_pool q ! (Suc (unat (bq_head q)) mod unat (bq_pool_size q))
      # bq_content (q\<lparr>bq_head := bq_head q + 1\<rparr>)"
    using len assms h1 by (simp add: bq_content_def bq_inv_def upt_conv_Cons)
  with assms show "bq_pool q ! (Suc (unat (bq_head q)) mod unat (bq_pool_size q)) = x"
    and "bq_content (q\<lparr>bq_head := bq_head q + 1\<rparr>) = xs"
    by simp_all
qed

lemma bq_enqueue_room:
  assumes "bq_inv (Suc n) q" and "length (bq_content q) < bq_capacity q"
  shows "\<exists>q'. BoundedQueue_Enqueue q x = Some (True, q') \<and> bq_content q' = bq_content q @ [x] \<and>
           bq_capacity q' = bq_capacity q \<and> bq_inv n q'"
proof -
  let ?q' = "q\<lparr>bq_tail := bq_tail q + 1,
           bq_pool := (bq_pool q)[unat (bq_tail q) mod unat (bq_pool_size q) := x],
           bq_commit := bq_tail q + 1\<rparr>"
  have room: "Suc (unat (bq_tail q)) < unat (bq_head q) + unat (bq_pool_size q)"
    using assms by (auto simp: bq_inv_def bq_capacity_def length_bq_content)
  have t1: "unat (bq_tail q + 1) = Suc (unat (bq_tail q))"
    using assms by (simp add: bq_inv_def unat_u64_add_1)
  have "BoundedQueue_Enqueue q x = Some (True, ?q')"
    using assms room t1 bq_full_iff [of "unat (bq_head q)" "unat (bq_tail q)" "unat (bq_pool_size q)"]
    by (simp add: BoundedQueue_Enqueue_def Let_def GetIndex_eq_iff bq_inv_def)
  moreover have "bq_inv n ?q'"
    using assms room t1 by (simp add: bq_inv_def)
  ultimately show ?thesis
    using bq_content_enqueue [OF assms(1) room] by (simp add: bq_capacity_def)
qed

lemma bq_enqueue_full:
  assumes "bq_inv (Suc n) q" and "length (bq_content q) = bq_capacity q"
  shows "BoundedQueue_Enqueue q x = Some (False, q)"
proof -
  have full: "Suc (unat (bq_tail q)) = unat (bq_head q) + unat (bq_pool_size q)"
    using assms by (auto simp: bq_inv_def bq_capacity_def length_bq_content)
  have "unat (bq_tail q + 1) = Suc (unat (bq_tail q))"
    using assms by (simp add: bq_inv_def unat_u64_add_1)
  with full show ?thesis
    by (simp add: BoundedQueue_Enqueue_def Let_def GetIndex_eq_iff)
qed

lemma bq_dequeue_some:
  assumes "bq_inv (Suc n) q" and "bq_content q = x # xs"
  shows "\<exists>q'. BoundedQueue_Dequeue q = (Some x, q') \<and> bq_content q' = xs \<and>
           bq_capacity q' = bq_capacity q \<and> bq_inv n q'"
proof -
  note c = bq_content_dequeue [OF assms]
  have h1: "unat (bq_head q + 1) = Suc (unat (bq_head q))"
    using c(3) unat_u64_bound [of "bq_tail q"] by (simp add: unat_u64_add_1)
  have "BoundedQueue_Dequeue q = (Some x, q\<lparr>bq_head := bq_head q + 1\<rparr>)"
    using c h1 assms by (auto simp: BoundedQueue_Dequeue_def Let_def u64_eq_iff_unat bq_inv_def)
  moreover have "bq_inv n (q\<lparr>bq_head := bq_head q + 1\<rparr>)"
    using assms c(3) h1 by (simp add: bq_inv_def)
  ultimately show ?thesis
    using c(2) by (simp add: bq_capacity_def)
qed

lemma bq_dequeue_none:
  assumes "bq_inv n q" and "bq_content q = []"
  shows "BoundedQueue_Dequeue q = (None, q)"
proof -
  have "unat (bq_tail q) = Suc (unat (bq_head q))"
    using assms by (simp add: bq_inv_def bq_content_def)
  with assms have "bq_head q + 1 = bq_commit q"
    using unat_u64_bound [of "bq_tail q"] by (simp add: bq_inv_def u64_eq_iff_unat unat_u64_add_1)
  then show ?thesis by (simp add: BoundedQueue_Dequeue_def)
qed

interpretation bq: bounded_fifo BoundedQueue_Enqueue BoundedQueue_Dequeue bq_content bq_capacity bq_inv
proof
  show "length (bq_content q) \<le> bq_capacity q" if "bq_inv n q" for n and q :: "'a bounded_queue"
    using that by (auto simp: bq_inv_def bq_capacity_def length_bq_content)
  show "bq_inv n q" if "bq_inv (Suc n) q" for n and q :: "'a bounded_queue"
    using that by (simp add: bq_inv_def)
qed (fact bq_enqueue_room bq_enqueue_full bq_dequeue_some bq_dequeue_none)+

lemma bq_inv_Init:
  assumes "unat sz + 2 + n < 18446744073709551616"
  shows "bq_inv n (snd (BoundedQueue_Init True dflt sz BoundedQueue_new))"
    and "bq_content (snd (BoundedQueue_Init True dflt sz BoundedQueue_new)) = []"
    and "bq_capacity (snd (BoundedQueue_Init True dflt sz BoundedQueue_new)) = unat sz"
proof -
  have "unat (sz + 2) = unat sz + 2"
    using assms by (simp add: unat_word_ariths)
  with assms show "bq_inv n (snd (BoundedQueue_Init True dflt sz BoundedQueue_new))"
    and "bq_content (snd (BoundedQueue_Init True dflt sz BoundedQueue_new)) = []"
    and "bq_capacity (snd (BoundedQueue_Init True dflt sz BoundedQueue_new)) = unat sz"
    by (simp_all add: BoundedQueue_Init_def BoundedQueue_new_def bq_inv_def bq_content_def bq_capacity_def)
qed

lemma bq_Size_content:
  assumes "bq_inv n q"
  shows "unat (BoundedQueue_Size q) = length (bq_content q)"
proof -
  have h1: "unat (bq_head q + 1) = Suc (unat (bq_head q))"
    using assms by (simp add: bq_inv_def unat_u64_add_1)
  with assms have "bq_head q + 1 \<le> bq_tail q"
    by (simp add: word_le_nat_alt bq_inv_def)
  then have "unat (bq_tail q - (bq_head q + 1)) = unat (bq_tail q) - Suc (unat (bq_head q))"
    using h1 by (simp add: unat_sub)
  then show ?thesis
    using assms by (simp add: length_bq_content bq_inv_def algebra_simps)
qed

section \<open>Interleaved threads\<close>

text \<open>
  The invariant of the interleaved system, over the counters read as natural numbers. The
  indices below \<open>commit_\<close> hold the claimed elements; a thread that has claimed an index owns
  its slot until it commits; a thread about to exchange \<open>head_\<close> holds the right element unless
  \<open>head_\<close> has moved, in which case its exchange fails.
\<close>

fun bq_owned :: "'a bq_pc \<Rightarrow> nat set" where
  "bq_owned (BQ_EnqStore x t) = {unat t}"
| "bq_owned (BQ_EnqCommit t) = {unat t}"
| "bq_owned _ = {}"

fun bq_pc_inv :: "nat \<Rightarrow> nat \<Rightarrow> nat \<Rightarrow> nat \<Rightarrow> 'a list \<Rightarrow> 'a list \<Rightarrow> 'a bq_pc \<Rightarrow> bool" where
  "bq_pc_inv H T C P pool enqs (BQ_EnqCheck x t) \<longleftrightarrow> unat t \<le> T"
| "bq_pc_inv H T C P pool enqs (BQ_EnqCas x t) \<longleftrightarrow> unat t \<le> T \<and> (unat t = T \<longrightarrow> Suc T < H + P)"
| "bq_pc_inv H T C P pool enqs (BQ_EnqStore x t) \<longleftrightarrow>
     C \<le> unat t \<and> unat t < T \<and> enqs ! (unat t - 1) = x"
| "bq_pc_inv H T C P pool enqs (BQ_EnqCommit t) \<longleftrightarrow>
     C \<le> unat t \<and> unat t < T \<and> pool ! (unat t mod P) = enqs ! (unat t - 1)"
| "bq_pc_inv H T C P pool enqs (BQ_DeqCheck h) \<longleftrightarrow> unat h \<le> H"
| "bq_pc_inv H T C P pool enqs (BQ_DeqLoad h) \<longleftrightarrow> unat h \<le> H \<and> Suc (unat h) < C"
| "bq_pc_inv H T C P pool enqs (BQ_DeqCas h x) \<longleftrightarrow>
     unat h \<le> H \<and> (unat h = H \<longrightarrow> Suc H < C \<and> x = enqs ! H)"
| "bq_pc_inv H T C P pool enqs _ \<longleftrightarrow> True"

definition bq_pc_ok :: "'a bounded_queue \<Rightarrow> 'a list \<Rightarrow> 'a bq_pc \<Rightarrow> bool" where
  "bq_pc_ok q enqs pc \<longleftrightarrow>
     bq_pc_inv (unat (bq_head q)) (unat (bq_tail q)) (unat (bq_commit q))
       (unat (bq_pool_size q)) (bq_pool q) enqs pc"

definition bq_shared :: "nat \<Rightarrow> 'a bounded_queue \<Rightarrow> 'a list \<Rightarrow> 'a list \<Rightarrow> bool" where
  "bq_shared n q enqs deqs \<longleftrightarrow>
     (let H = unat (bq_head q); T = unat (bq_tail q); C = unat (bq_commit q);
          P = unat (bq_pool_size q) in
      length (bq_pool q) = P \<and> 2 \<le> P \<and> H = length deqs \<and> T = Suc (length enqs) \<and>
      H < C \<and> C \<le> T \<and> T < H + P \<and> T \<le> Suc n \<and> take H enqs = deqs \<and>
      (\<forall>i. H < i \<and> i < C \<longrightarrow> bq_pool q ! (i mod P) = enqs ! (i - 1)))"

definition bq_sys_inv :: "nat \<Rightarrow> 'a bq_system \<Rightarrow> bool" where
  "bq_sys_inv n s \<longleftrightarrow>
     bq_shared n (sys_queue s) (sys_enqs s) (sys_deqs s) \<and>
     (\<forall>k. bq_pc_ok (sys_queue s) (sys_enqs s) (sys_pcs s k)) \<and>
     (\<forall>k l. k \<noteq> l \<longrightarrow> bq_owned (sys_pcs s k) \<inter> bq_owned (sys_pcs s l) = {})"

lemma bq_shared_mono: "bq_shared n q enqs deqs \<Longrightarrow> bq_shared (Suc n) q enqs deqs"
  by (auto simp: bq_shared_def Let_def)

text \<open>
  The shape of every step: thread \<open>i\<close> moves to \<open>pc\<close> and may change the shared state, in a way
  that keeps what the other threads rely on.
\<close>

lemma bq_sys_inv_update:
  assumes inv: "bq_sys_inv n s"
    and shared: "bq_shared m q enqs deqs"
    and own: "bq_pc_ok q enqs pc"
    and others: "\<And>pc'. bq_pc_ok (sys_queue s) (sys_enqs s) pc' \<Longrightarrow>
          bq_owned pc' \<inter> bq_owned (sys_pcs s i) = {} \<Longrightarrow>
          bq_pc_ok q enqs pc' \<and> bq_owned pc' \<inter> bq_owned pc = {}"
  shows "bq_sys_inv m (s\<lparr>sys_queue := q, sys_pcs := (sys_pcs s)(i := pc),
           sys_enqs := enqs, sys_deqs := deqs\<rparr>)"
proof -
  have k: "bq_pc_ok q enqs (sys_pcs s k) \<and> bq_owned (sys_pcs s k) \<inter> bq_owned pc = {}"
    if "k \<noteq> i" for k
    using inv that by (intro others) (auto simp: bq_sys_inv_def)
  then have "bq_owned pc \<inter> bq_owned (sys_pcs s k) = {}" if "k \<noteq> i" for k
    using that by blast
  with k shared own inv show ?thesis
    by (auto simp: bq_sys_inv_def)
qed

lemma bq_sys_inv_D:
  assumes "bq_sys_inv n s"
  shows "bq_shared n (sys_queue s) (sys_enqs s) (sys_deqs s)"
    and "bq_pc_ok (sys_queue s) (sys_enqs s) (sys_pcs s k)"
  using assms by (auto simp: bq_sys_inv_def)

text \<open>Steps that leave the shared state alone.\<close>

lemma bq_sys_inv_move:
  assumes "bq_sys_inv n s" and "bq_owned pc \<subseteq> bq_owned (sys_pcs s i)"
    and "bq_pc_ok (sys_queue s) (sys_enqs s) pc"
  shows "bq_sys_inv (Suc n) (s\<lparr>sys_pcs := (sys_pcs s)(i := pc)\<rparr>)"
proof -
  have "bq_sys_inv (Suc n) (s\<lparr>sys_queue := sys_queue s, sys_pcs := (sys_pcs s)(i := pc),
          sys_enqs := sys_enqs s, sys_deqs := sys_deqs s\<rparr>)"
    using assms by (intro bq_sys_inv_update [OF assms(1)] bq_shared_mono bq_sys_inv_D) auto
  then show ?thesis by simp
qed

text \<open>Claiming an index: the exchange of \<open>tail_\<close>.\<close>

lemma bq_sys_inv_claim:
  assumes inv: "bq_sys_inv n s" and n: "n < 18446744073709551614"
    and pc: "sys_pcs s i = BQ_EnqCas x (bq_tail (sys_queue s))"
  shows "bq_sys_inv (Suc n) (s\<lparr>sys_queue := (sys_queue s)\<lparr>bq_tail := bq_tail (sys_queue s) + 1\<rparr>,
           sys_pcs := (sys_pcs s)(i := BQ_EnqStore x (bq_tail (sys_queue s))),
           sys_enqs := sys_enqs s @ [x], sys_deqs := sys_deqs s\<rparr>)"
proof (rule bq_sys_inv_update [OF inv])
  let ?q = "sys_queue s"
  note sh = bq_sys_inv_D(1) [OF inv, unfolded bq_shared_def Let_def]
  have t1: "unat (bq_tail ?q + 1) = Suc (unat (bq_tail ?q))"
    using sh n by (simp add: unat_u64_add_1)
  have ok: "Suc (unat (bq_tail ?q)) < unat (bq_head ?q) + unat (bq_pool_size ?q)"
    using bq_sys_inv_D(2) [OF inv, of i] pc by (simp add: bq_pc_ok_def)
  show "bq_shared (Suc n) (?q\<lparr>bq_tail := bq_tail ?q + 1\<rparr>) (sys_enqs s @ [x]) (sys_deqs s)"
    using sh t1 ok by (auto simp: bq_shared_def Let_def nth_append)
  show "bq_pc_ok (?q\<lparr>bq_tail := bq_tail ?q + 1\<rparr>) (sys_enqs s @ [x]) (BQ_EnqStore x (bq_tail ?q))"
    using sh t1 by (simp add: bq_pc_ok_def)
  fix pc' assume "bq_pc_ok ?q (sys_enqs s) pc'"
  then show "bq_pc_ok (?q\<lparr>bq_tail := bq_tail ?q + 1\<rparr>) (sys_enqs s @ [x]) pc' \<and>
      bq_owned pc' \<inter> bq_owned (BQ_EnqStore x (bq_tail ?q)) = {}"
    using sh t1 by (cases pc') (auto simp: bq_pc_ok_def nth_append)
qed

text \<open>Storing the element in the claimed slot.\<close>

lemma bq_sys_inv_store:
  assumes inv: "bq_sys_inv n s" and pc: "sys_pcs s i = BQ_EnqStore x t"
  shows "bq_sys_inv (Suc n) (s\<lparr>sys_queue := (sys_queue s)\<lparr>bq_pool :=
             (bq_pool (sys_queue s))[unat t mod unat (bq_pool_size (sys_queue s)) := x]\<rparr>,
           sys_pcs := (sys_pcs s)(i := BQ_EnqCommit t),
           sys_enqs := sys_enqs s, sys_deqs := sys_deqs s\<rparr>)"
proof (rule bq_sys_inv_update [OF inv])
  let ?q = "sys_queue s" and ?P = "unat (bq_pool_size (sys_queue s))"
  let ?q' = "?q\<lparr>bq_pool := (bq_pool ?q)[unat t mod ?P := x]\<rparr>"
  note sh = bq_sys_inv_D(1) [OF inv, unfolded bq_shared_def Let_def]
  have t: "unat (bq_commit ?q) \<le> unat t" "unat t < unat (bq_tail ?q)" "sys_enqs s ! (unat t - 1) = x"
    using bq_sys_inv_D(2) [OF inv, of i] pc by (simp_all add: bq_pc_ok_def)
  have keep: "(bq_pool ?q)[unat t mod ?P := x] ! (j mod ?P) = bq_pool ?q ! (j mod ?P)"
    if "j \<noteq> unat t" "unat (bq_head ?q) < j" "j < unat (bq_tail ?q)" for j
    using mod_window_neq [of "unat t" j "Suc (unat (bq_head ?q))" ?P] that t sh by auto
  show "bq_shared (Suc n) ?q' (sys_enqs s) (sys_deqs s)"
    using sh t keep by (auto simp: bq_shared_def Let_def)
  show "bq_pc_ok ?q' (sys_enqs s) (BQ_EnqCommit t)"
    using sh t by (simp add: bq_pc_ok_def)
  fix pc' assume "bq_pc_ok ?q (sys_enqs s) pc'" "bq_owned pc' \<inter> bq_owned (sys_pcs s i) = {}"
  then show "bq_pc_ok ?q' (sys_enqs s) pc' \<and> bq_owned pc' \<inter> bq_owned (BQ_EnqCommit t) = {}"
    using sh t keep pc by (cases pc') (auto simp: bq_pc_ok_def)
qed

text \<open>Committing: the exchange of \<open>commit_\<close>.\<close>

lemma bq_sys_inv_commit:
  assumes inv: "bq_sys_inv n s" and n: "n < 18446744073709551614"
    and pc: "sys_pcs s i = BQ_EnqCommit (bq_commit (sys_queue s))"
  shows "bq_sys_inv (Suc n) (s\<lparr>sys_queue := (sys_queue s)\<lparr>bq_commit := bq_commit (sys_queue s) + 1\<rparr>,
           sys_pcs := (sys_pcs s)(i := BQ_EnqDone True),
           sys_enqs := sys_enqs s, sys_deqs := sys_deqs s\<rparr>)"
proof (rule bq_sys_inv_update [OF inv])
  let ?q = "sys_queue s"
  let ?q' = "?q\<lparr>bq_commit := bq_commit ?q + 1\<rparr>"
  note sh = bq_sys_inv_D(1) [OF inv, unfolded bq_shared_def Let_def]
  have c1: "unat (bq_commit ?q + 1) = Suc (unat (bq_commit ?q))"
    using sh n by (simp add: unat_u64_add_1)
  have own: "unat (bq_commit ?q) < unat (bq_tail ?q)"
      "bq_pool ?q ! (unat (bq_commit ?q) mod unat (bq_pool_size ?q)) = sys_enqs s ! (unat (bq_commit ?q) - 1)"
    using bq_sys_inv_D(2) [OF inv, of i] pc by (simp_all add: bq_pc_ok_def)
  show "bq_shared (Suc n) ?q' (sys_enqs s) (sys_deqs s)"
    using sh c1 own by (auto simp: bq_shared_def Let_def less_Suc_eq)
  show "bq_pc_ok ?q' (sys_enqs s) (BQ_EnqDone True)"
    by (simp add: bq_pc_ok_def)
  fix pc' assume "bq_pc_ok ?q (sys_enqs s) pc'" "bq_owned pc' \<inter> bq_owned (sys_pcs s i) = {}"
  then show "bq_pc_ok ?q' (sys_enqs s) pc' \<and> bq_owned pc' \<inter> bq_owned (BQ_EnqDone True) = {}"
    using sh c1 pc by (cases pc') (auto simp: bq_pc_ok_def)
qed

text \<open>Taking an element: the exchange of \<open>head_\<close>.\<close>

lemma bq_sys_inv_take:
  assumes inv: "bq_sys_inv n s" and n: "n < 18446744073709551614"
    and pc: "sys_pcs s i = BQ_DeqCas (bq_head (sys_queue s)) x"
  shows "bq_sys_inv (Suc n) (s\<lparr>sys_queue := (sys_queue s)\<lparr>bq_head := bq_head (sys_queue s) + 1\<rparr>,
           sys_pcs := (sys_pcs s)(i := BQ_DeqDone (Some x)),
           sys_enqs := sys_enqs s, sys_deqs := sys_deqs s @ [x]\<rparr>)"
proof (rule bq_sys_inv_update [OF inv])
  let ?q = "sys_queue s"
  let ?q' = "?q\<lparr>bq_head := bq_head ?q + 1\<rparr>"
  note sh = bq_sys_inv_D(1) [OF inv, unfolded bq_shared_def Let_def]
  have own: "Suc (unat (bq_head ?q)) < unat (bq_commit ?q)" "x = sys_enqs s ! unat (bq_head ?q)"
    using bq_sys_inv_D(2) [OF inv, of i] pc by (simp_all add: bq_pc_ok_def)
  have h1: "unat (bq_head ?q + 1) = Suc (unat (bq_head ?q))"
    using sh n own by (simp add: unat_u64_add_1)
  show "bq_shared (Suc n) ?q' (sys_enqs s) (sys_deqs s @ [x])"
    using sh h1 own by (auto simp: bq_shared_def Let_def take_Suc_conv_app_nth)
  show "bq_pc_ok ?q' (sys_enqs s) (BQ_DeqDone (Some x))"
    by (simp add: bq_pc_ok_def)
  fix pc' assume "bq_pc_ok ?q (sys_enqs s) pc'"
  then show "bq_pc_ok ?q' (sys_enqs s) pc' \<and> bq_owned pc' \<inter> bq_owned (BQ_DeqDone (Some x)) = {}"
    using sh h1 by (cases pc') (auto simp: bq_pc_ok_def)
qed

text \<open>The check of \<open>Enqueue\<close> against a full ring is still valid when the exchange succeeds.\<close>

lemma bq_enq_check_ok:
  assumes inv: "bq_sys_inv n s" and n: "n < 18446744073709551614"
    and pc: "sys_pcs s i = BQ_EnqCheck x t"
    and idx: "BoundedQueue_GetIndex (sys_queue s) (t + 1) \<noteq>
              BoundedQueue_GetIndex (sys_queue s) (bq_head (sys_queue s))"
  shows "bq_pc_ok (sys_queue s) (sys_enqs s) (BQ_EnqCas x t)"
proof -
  let ?q = "sys_queue s"
  note sh = bq_sys_inv_D(1) [OF inv, unfolded bq_shared_def Let_def]
  have le: "unat t \<le> unat (bq_tail ?q)"
    using bq_sys_inv_D(2) [OF inv, of i] pc by (simp add: bq_pc_ok_def)
  have "Suc (unat t) < unat (bq_head ?q) + unat (bq_pool_size ?q)" if eq: "unat t = unat (bq_tail ?q)"
  proof -
    have "unat (t + 1) = Suc (unat t)"
      using sh n eq by (simp add: unat_u64_add_1)
    then have "Suc (unat t) \<noteq> unat (bq_head ?q) + unat (bq_pool_size ?q)"
      using idx sh eq bq_full_iff [of "unat (bq_head ?q)" "unat t" "unat (bq_pool_size ?q)"]
      by (auto simp: GetIndex_eq_iff)
    with sh eq show ?thesis by linarith
  qed
  with le show ?thesis by (auto simp: bq_pc_ok_def)
qed

lemma bq_deq_check_ok:
  assumes inv: "bq_sys_inv n s" and n: "n < 18446744073709551614"
    and pc: "sys_pcs s i = BQ_DeqCheck h" and ne: "h + 1 \<noteq> bq_commit (sys_queue s)"
  shows "bq_pc_ok (sys_queue s) (sys_enqs s) (BQ_DeqLoad h)"
proof -
  note sh = bq_sys_inv_D(1) [OF inv, unfolded bq_shared_def Let_def]
  have le: "unat h \<le> unat (bq_head (sys_queue s))"
    using bq_sys_inv_D(2) [OF inv, of i] pc by (simp add: bq_pc_ok_def)
  then have "unat (h + 1) = Suc (unat h)"
    using sh n by (simp add: unat_u64_add_1)
  with le ne sh show ?thesis
    by (auto simp: bq_pc_ok_def u64_eq_iff_unat)
qed

lemma bq_deq_load_ok:
  assumes inv: "bq_sys_inv n s" and n: "n < 18446744073709551614"
    and pc: "sys_pcs s i = BQ_DeqLoad h"
  shows "bq_pc_ok (sys_queue s) (sys_enqs s)
    (BQ_DeqCas h (bq_pool (sys_queue s) ! unat (BoundedQueue_GetIndex (sys_queue s) (h + 1))))"
proof -
  note sh = bq_sys_inv_D(1) [OF inv, unfolded bq_shared_def Let_def]
  have le: "unat h \<le> unat (bq_head (sys_queue s))" "Suc (unat h) < unat (bq_commit (sys_queue s))"
    using bq_sys_inv_D(2) [OF inv, of i] pc by (simp_all add: bq_pc_ok_def)
  then have "unat (h + 1) = Suc (unat h)"
    using sh n by (simp add: unat_u64_add_1)
  with le sh show ?thesis
    by (auto simp: bq_pc_ok_def)
qed

lemma bq_log_self [simp]: "bq_claimed pc pc = []" "bq_taken pc pc = []"
  by (cases pc; simp)+

text \<open>Every step keeps the invariant: the two programs case by case, then the calls.\<close>

lemma bq_sys_inv_enqueue:
  assumes inv: "bq_sys_inv n s" and n: "n < 18446744073709551614"
    and st: "BoundedQueue_Enqueue_step sp (sys_queue s) (sys_pcs s i) = (q, pc)"
  shows "bq_sys_inv (Suc n) (s\<lparr>sys_queue := q, sys_pcs := (sys_pcs s)(i := pc),
           sys_enqs := sys_enqs s @ bq_claimed (sys_pcs s i) pc\<rparr>)"
proof -
  note move = bq_sys_inv_move [OF inv, of _ i]
  have self: "bq_sys_inv (Suc n) (s\<lparr>sys_pcs := (sys_pcs s)(i := sys_pcs s i)\<rparr>)"
    by (rule move) (simp_all add: bq_sys_inv_D(2) [OF inv])
  show ?thesis
  proof (cases "sys_pcs s i")
    case (BQ_EnqCheck x t)
    then show ?thesis
      using st move [of "BQ_EnqDone False"] move [of "BQ_EnqCas x t"] bq_enq_check_ok [OF inv n BQ_EnqCheck]
      by (auto simp: bq_pc_ok_def split: if_splits)
  next
    case (BQ_EnqCas x t)
    then show ?thesis
      using st move [of "BQ_EnqCheck x (bq_tail (sys_queue s))"] bq_sys_inv_claim [OF inv n, of i x]
      by (auto simp: bq_pc_ok_def split: if_splits)
  next
    case (BQ_EnqStore x t)
    then show ?thesis
      using st bq_sys_inv_store [OF inv BQ_EnqStore] by auto
  next
    case (BQ_EnqCommit t)
    then show ?thesis
      using st self bq_sys_inv_commit [OF inv n, of i] by (auto split: if_splits)
  qed (use st self in auto)
qed

lemma bq_sys_inv_dequeue:
  assumes inv: "bq_sys_inv n s" and n: "n < 18446744073709551614"
    and st: "BoundedQueue_Dequeue_step sp (sys_queue s) (sys_pcs s i) = (q, pc)"
  shows "bq_sys_inv (Suc n) (s\<lparr>sys_queue := q, sys_pcs := (sys_pcs s)(i := pc),
           sys_deqs := sys_deqs s @ bq_taken (sys_pcs s i) pc\<rparr>)"
proof -
  note move = bq_sys_inv_move [OF inv, of _ i]
  have self: "bq_sys_inv (Suc n) (s\<lparr>sys_pcs := (sys_pcs s)(i := sys_pcs s i)\<rparr>)"
    by (rule move) (simp_all add: bq_sys_inv_D(2) [OF inv])
  show ?thesis
  proof (cases "sys_pcs s i")
    case (BQ_DeqCheck h)
    then show ?thesis
      using st move [of "BQ_DeqDone None"] move [of "BQ_DeqLoad h"] bq_deq_check_ok [OF inv n BQ_DeqCheck]
      by (auto simp: bq_pc_ok_def split: if_splits)
  next
    case (BQ_DeqLoad h)
    then show ?thesis
      using st bq_deq_load_ok [OF inv n BQ_DeqLoad] by (auto intro!: move)
  next
    case (BQ_DeqCas h x)
    then show ?thesis
      using st move [of "BQ_DeqCheck (bq_head (sys_queue s))"] bq_sys_inv_take [OF inv n, of i x]
      by (auto simp: bq_pc_ok_def split: if_splits)
  qed (use st self in auto)
qed

lemma bq_sys_inv_step:
  assumes "bq_step s t" and "bq_sys_inv n s" and "n < 18446744073709551614"
  shows "bq_sys_inv (Suc n) t"
  using assms(1)
proof cases
  case (enqueue sp i q pc)
  then show ?thesis using bq_sys_inv_enqueue assms by blast
next
  case (dequeue sp i q pc)
  then show ?thesis using bq_sys_inv_dequeue assms by blast
qed (auto intro!: bq_sys_inv_move [OF assms(2)] simp: bq_pc_ok_def)

lemma bq_sys_inv_init:
  assumes "unat sz + 2 < 18446744073709551616"
  shows "bq_sys_inv 0 (bq_system_init dflt sz)"
proof -
  have "unat (sz + 2) = unat sz + 2"
    using assms by (simp add: unat_word_ariths)
  then show ?thesis
    by (auto simp: bq_sys_inv_def bq_shared_def bq_pc_ok_def bq_system_init_def
        BoundedQueue_Init_def BoundedQueue_new_def Let_def)
qed

lemma bq_sys_inv_run:
  assumes "bq_run s0 n s" and "bq_sys_inv 0 s0" and "n < 18446744073709551615"
  shows "bq_sys_inv n s"
  using assms by (induction rule: bq_run.induct) (auto intro: bq_sys_inv_step)

lemma bq_program_pool_size:
  "BoundedQueue_Enqueue_step sp q pc = (q', pc') \<Longrightarrow> bq_pool_size q' = bq_pool_size q"
  "BoundedQueue_Dequeue_step sp q pc = (q', pc') \<Longrightarrow> bq_pool_size q' = bq_pool_size q"
  by (cases pc; auto split: if_splits)+

lemma bq_run_pool_size:
  "bq_run s0 n s \<Longrightarrow> bq_pool_size (sys_queue s) = bq_pool_size (sys_queue s0)"
  by (induction rule: bq_run.induct) (auto elim!: bq_step.cases dest: bq_program_pool_size)

section \<open>Properties\<close>

text \<open>Schedules as data, so that concrete runs can be computed.\<close>

datatype 'a bq_action =
    Call_Enqueue nat 'a | Call_Dequeue nat | Step_Enqueue nat bool | Step_Dequeue nat bool

fun bq_act :: "'a bq_action \<Rightarrow> 'a bq_system \<Rightarrow> 'a bq_system option" where
  "bq_act (Call_Enqueue i x) s = (case sys_pcs s i of
       BQ_Idle \<Rightarrow> Some (s\<lparr>sys_pcs := (sys_pcs s)(i := BQ_EnqCheck x (bq_tail (sys_queue s)))\<rparr>)
     | _ \<Rightarrow> None)"
| "bq_act (Call_Dequeue i) s = (case sys_pcs s i of
       BQ_Idle \<Rightarrow> Some (s\<lparr>sys_pcs := (sys_pcs s)(i := BQ_DeqCheck (bq_head (sys_queue s)))\<rparr>)
     | _ \<Rightarrow> None)"
| "bq_act (Step_Enqueue i sp) s =
     (case BoundedQueue_Enqueue_step sp (sys_queue s) (sys_pcs s i) of (q, pc) \<Rightarrow>
        Some (s\<lparr>sys_queue := q, sys_pcs := (sys_pcs s)(i := pc),
                sys_enqs := sys_enqs s @ bq_claimed (sys_pcs s i) pc\<rparr>))"
| "bq_act (Step_Dequeue i sp) s =
     (case BoundedQueue_Dequeue_step sp (sys_queue s) (sys_pcs s i) of (q, pc) \<Rightarrow>
        Some (s\<lparr>sys_queue := q, sys_pcs := (sys_pcs s)(i := pc),
                sys_deqs := sys_deqs s @ bq_taken (sys_pcs s i) pc\<rparr>))"

primrec bq_schedule :: "'a bq_action list \<Rightarrow> 'a bq_system \<Rightarrow> 'a bq_system option" where
  "bq_schedule [] s = Some s"
| "bq_schedule (a # as) s = Option.bind (bq_act a s) (bq_schedule as)"

lemma bq_act_step: "bq_act a s = Some t \<Longrightarrow> bq_step s t"
  by (cases a) (auto split: bq_pc.splits prod.splits intro: bq_step.intros)

lemma bq_run_Cons: "bq_step s t \<Longrightarrow> bq_run t n u \<Longrightarrow> bq_run s (Suc n) u"
  by (rotate_tac 1, induction rule: bq_run.induct) (auto intro: bq_run.intros)

lemma bq_schedule_run: "bq_schedule as s = Some t \<Longrightarrow> bq_run s (length as) t"
  by (induction as arbitrary: s)
    (auto intro: bq_run_start bq_run_Cons bq_act_step split: bind_splits)

text \<open>
  C5: However many threads interleave \<open>Enqueue\<close> and \<open>Dequeue\<close> on a queue initialised with
  capacity \<open>sz\<close>, with compare-and-swap failing spuriously or not, the elements handed out are
  exactly the first elements that were accepted, each once and in the order in which they were
  accepted, and never more than \<open>sz\<close> accepted elements are waiting.
\<close>

theorem BoundedQueue_concurrent_fifo:
  assumes "bq_run (bq_system_init dflt sz) n s"
    and "n < 18446744073709551615" and "unat sz + 2 < 18446744073709551616"
  shows "sys_deqs s = take (length (sys_deqs s)) (sys_enqs s) \<and>
         length (sys_enqs s) \<le> length (sys_deqs s) + unat sz"
proof -
  have "bq_sys_inv n s"
    using bq_sys_inv_run [OF assms(1) bq_sys_inv_init [OF assms(3)] assms(2)] .
  then have sh: "bq_shared n (sys_queue s) (sys_enqs s) (sys_deqs s)"
    by (rule bq_sys_inv_D)
  have "unat (bq_pool_size (sys_queue s)) = unat sz + 2"
    using bq_run_pool_size [OF assms(1)] assms(3)
    by (simp add: bq_system_init_def BoundedQueue_Init_def BoundedQueue_new_def unat_word_ariths)
  with sh show ?thesis
    by (auto simp: bq_shared_def Let_def)
qed

text \<open>Two producers overlap (the second claims while the first has not stored yet) and a
  consumer takes the first element.\<close>

theorem BoundedQueue_concurrent_fifo_witness:
  "\<exists>s. bq_run (bq_system_init (0::nat) 2) 14 s \<and> sys_enqs s = [7, 8] \<and> sys_deqs s = [7] \<and>
       sys_deqs s = take (length (sys_deqs s)) (sys_enqs s) \<and>
       length (sys_enqs s) \<le> length (sys_deqs s) + unat (2::u64)"
proof -
  let ?as = "[Call_Enqueue 0 7, Call_Enqueue 1 8, Step_Enqueue 0 False, Step_Enqueue 0 False,
    Step_Enqueue 1 False, Step_Enqueue 1 False, Step_Enqueue 1 False, Step_Enqueue 1 False,
    Step_Enqueue 0 False, Step_Enqueue 0 False, Call_Dequeue 2, Step_Dequeue 2 False,
    Step_Dequeue 2 False, Step_Dequeue 2 False]"
  obtain s where s: "bq_schedule ?as (bq_system_init (0::nat) 2) = Some s"
      "sys_enqs s = [7, 8]" "sys_deqs s = [7]"
    by (simp add: bq_system_init_def BoundedQueue_Init_def BoundedQueue_new_def BoundedQueue_GetIndex_def)
  from bq_schedule_run [OF s(1)] have r: "bq_run (bq_system_init (0::nat) 2) 14 s"
    by (simp add: numeral_eq_Suc)
  show ?thesis
    using r s(2,3) BoundedQueue_concurrent_fifo [OF r] by auto
qed

text \<open>
  Run alone, the compare-and-swap program of \<open>Enqueue\<close> ends after finitely many of its
  atomic steps, in the queue and with the result that the one-shot function computes.
\<close>

theorem BoundedQueue_Enqueue_steps:
  assumes "BoundedQueue_Enqueue q x = Some (b, q')"
  shows "\<exists>k. ((\<lambda>(q, pc). BoundedQueue_Enqueue_step False q pc) ^^ k)
             (q, BQ_EnqCheck x (bq_tail q)) = (q', BQ_EnqDone b)"
proof (cases "BoundedQueue_GetIndex q (bq_tail q + 1) = BoundedQueue_GetIndex q (bq_head q)")
  case True
  then show ?thesis
    using assms by (intro exI [of _ 1]) (simp add: BoundedQueue_Enqueue_def)
next
  case False
  then show ?thesis
    using assms
    by (intro exI [of _ 4])
      (auto simp: BoundedQueue_Enqueue_def BoundedQueue_GetIndex_def Let_def numeral_eq_Suc split: if_splits)
qed

theorem BoundedQueue_Enqueue_steps_witness:
  "\<exists>k. ((\<lambda>(q, pc). BoundedQueue_Enqueue_step False q pc) ^^ k)
     (snd (BoundedQueue_Init True (0::nat) 1 BoundedQueue_new), BQ_EnqCheck 5 1) =
     (\<lparr>bq_head = 0, bq_tail = 2, bq_commit = 2, bq_pool_size = 3, bq_pool = [0, 5, 0],
       bq_break_all_wait = False\<rparr>, BQ_EnqDone True)"
proof -
  let ?q = "snd (BoundedQueue_Init True (0::nat) 1 BoundedQueue_new)"
  have "BoundedQueue_Enqueue ?q 5 = Some (True,
      \<lparr>bq_head = 0, bq_tail = 2, bq_commit = 2, bq_pool_size = 3, bq_pool = [0, 5, 0],
       bq_break_all_wait = False\<rparr>)"
    by code_simp
  from BoundedQueue_Enqueue_steps [OF this] show ?thesis
    by (simp add: BoundedQueue_Init_def BoundedQueue_new_def)
qed

text \<open>
  A freshly initialised queue of capacity \<open>sz\<close> accepts any batch of at most \<open>sz\<close> elements,
  and dequeuing as many returns exactly that batch in order.
\<close>

theorem BoundedQueue_batch_roundtrip:
  assumes "length xs \<le> unat sz" and "unat sz + 2 + 2 * length xs < 18446744073709551616"
  shows "\<exists>q'. push_all BoundedQueue_Enqueue xs (snd (BoundedQueue_Init True dflt sz BoundedQueue_new)) = Some q'
           \<and> pop_all BoundedQueue_Dequeue (length xs) q' = map Some xs"
  using assms bq_inv_Init [of sz "length xs + length xs" dflt] by (intro bq.push_then_pop) auto

theorem BoundedQueue_batch_roundtrip_witness:
  "\<exists>q'. push_all BoundedQueue_Enqueue [3, 1, 4::nat]
          (snd (BoundedQueue_Init True 0 5 BoundedQueue_new)) = Some q'
      \<and> pop_all BoundedQueue_Dequeue 3 q' = [Some 3, Some 1, Some 4]"
  using BoundedQueue_batch_roundtrip [of "[3, 1, 4::nat]" 5 0] by (simp add: numeral_3_eq_3)

end
