(* ===== verification/RWLock.thy ===== *)
theory RWLock
  imports Prelude
begin

text \<open>
  The spinning reader-writer locks \<^verbatim>\<open>AtomicRWLock\<close> (\<^verbatim>\<open>cyber/base/atomic_rw_lock.h\<close>) and
  \<^verbatim>\<open>ReentrantRWLock\<close> (\<^verbatim>\<open>cyber/base/reentrant_rw_lock.h\<close>). Each lock function is a program of
  atomic steps over the shared lock word, interleaved by any number of threads; \<open>lock_num_\<close> is
  a signed 32-bit word and \<open>write_lock_wait_num_\<close> an unsigned one. Yielding the processor has
  no effect on the state; the retry counter that triggers it is kept.
\<close>

section \<open>AtomicRWLock\<close>

abbreviation (input) RW_LOCK_FREE :: u32 where "RW_LOCK_FREE \<equiv> 0"
abbreviation (input) WRITE_EXCLUSIVE :: u32 where "WRITE_EXCLUSIVE \<equiv> - 1"
abbreviation (input) MAX_RETRY_TIMES :: u32 where "MAX_RETRY_TIMES \<equiv> 5"

record rw_lock =
  write_lock_wait_num :: u32
  lock_num :: u32
  write_first :: bool

definition AtomicRWLock_new :: "bool \<Rightarrow> rw_lock" where
  "AtomicRWLock_new wfirst = \<lparr>write_lock_wait_num = 0, lock_num = 0, write_first = wfirst\<rparr>"

text \<open>
  Where a thread stands: the head of the inner waiting loop with the locals \<open>lock_num\<close> and
  \<open>retry_times\<close>, the exchange, or the critical section.
\<close>

datatype rw_pc =
    RW_Idle
  | RW_ReadWait u32 u32
  | RW_ReadCas u32 u32
  | RW_Reading
  | RW_WriteAnnounce
  | RW_WriteCas u32
  | RW_WriteRetire
  | RW_Writing

definition rw_retry :: "u32 \<Rightarrow> u32" where
  "rw_retry n = (if n + 1 = MAX_RETRY_TIMES then 0 else n + 1)"

fun AtomicRWLock_ReadLock_step :: "bool \<Rightarrow> rw_lock \<Rightarrow> rw_pc \<Rightarrow> rw_lock \<times> rw_pc" where
  "AtomicRWLock_ReadLock_step sp l (RW_ReadWait n r) =
     (if write_first l
      then if sint n < 0 \<or> write_lock_wait_num l > 0
           then (l, RW_ReadWait (lock_num l) (rw_retry r)) else (l, RW_ReadCas n r)
      else if sint n < 0
           then (l, RW_ReadWait (lock_num l) (rw_retry r)) else (l, RW_ReadCas n r))"
| "AtomicRWLock_ReadLock_step sp l (RW_ReadCas n r) =
     (if \<not> sp \<and> lock_num l = n then (l\<lparr>lock_num := n + 1\<rparr>, RW_Reading)
      else (l, RW_ReadWait (lock_num l) r))"
| "AtomicRWLock_ReadLock_step sp l pc = (l, pc)"

fun AtomicRWLock_WriteLock_step :: "bool \<Rightarrow> rw_lock \<Rightarrow> rw_pc \<Rightarrow> rw_lock \<times> rw_pc" where
  "AtomicRWLock_WriteLock_step sp l RW_WriteAnnounce =
     (l\<lparr>write_lock_wait_num := write_lock_wait_num l + 1\<rparr>, RW_WriteCas 0)"
| "AtomicRWLock_WriteLock_step sp l (RW_WriteCas r) =
     (if \<not> sp \<and> lock_num l = RW_LOCK_FREE then (l\<lparr>lock_num := WRITE_EXCLUSIVE\<rparr>, RW_WriteRetire)
      else (l, RW_WriteCas (rw_retry r)))"
| "AtomicRWLock_WriteLock_step sp l RW_WriteRetire =
     (l\<lparr>write_lock_wait_num := write_lock_wait_num l - 1\<rparr>, RW_Writing)"
| "AtomicRWLock_WriteLock_step sp l pc = (l, pc)"

definition AtomicRWLock_ReadUnlock :: "rw_lock \<Rightarrow> rw_lock" where
  "AtomicRWLock_ReadUnlock l = l\<lparr>lock_num := lock_num l - 1\<rparr>"

definition AtomicRWLock_WriteUnlock :: "rw_lock \<Rightarrow> rw_lock" where
  "AtomicRWLock_WriteUnlock l = l\<lparr>lock_num := lock_num l + 1\<rparr>"

text \<open>\<open>N\<close> threads, numbered from 0, each using the lock through the two guards.\<close>

inductive rw_step :: "nat \<Rightarrow> rw_lock \<times> (nat \<Rightarrow> rw_pc) \<Rightarrow> rw_lock \<times> (nat \<Rightarrow> rw_pc) \<Rightarrow> bool"
  for N where
  call_read: "i < N \<Longrightarrow> pcs i = RW_Idle \<Longrightarrow>
     rw_step N (l, pcs) (l, pcs(i := RW_ReadWait (lock_num l) 0))"
| call_write: "i < N \<Longrightarrow> pcs i = RW_Idle \<Longrightarrow> rw_step N (l, pcs) (l, pcs(i := RW_WriteAnnounce))"
| read_lock: "i < N \<Longrightarrow> AtomicRWLock_ReadLock_step sp l (pcs i) = (l', pc) \<Longrightarrow>
     rw_step N (l, pcs) (l', pcs(i := pc))"
| write_lock: "i < N \<Longrightarrow> AtomicRWLock_WriteLock_step sp l (pcs i) = (l', pc) \<Longrightarrow>
     rw_step N (l, pcs) (l', pcs(i := pc))"
| read_unlock: "i < N \<Longrightarrow> pcs i = RW_Reading \<Longrightarrow>
     rw_step N (l, pcs) (AtomicRWLock_ReadUnlock l, pcs(i := RW_Idle))"
| write_unlock: "i < N \<Longrightarrow> pcs i = RW_Writing \<Longrightarrow>
     rw_step N (l, pcs) (AtomicRWLock_WriteUnlock l, pcs(i := RW_Idle))"

inductive rw_reachable :: "nat \<Rightarrow> bool \<Rightarrow> rw_lock \<times> (nat \<Rightarrow> rw_pc) \<Rightarrow> bool" for N wfirst where
  rw_start: "rw_reachable N wfirst (AtomicRWLock_new wfirst, \<lambda>_. RW_Idle)"
| rw_next: "rw_reachable N wfirst s \<Longrightarrow> rw_step N s t \<Longrightarrow> rw_reachable N wfirst t"

subsection \<open>Mutual exclusion\<close>

definition rw_readers :: "nat \<Rightarrow> (nat \<Rightarrow> rw_pc) \<Rightarrow> nat set" where
  "rw_readers N pcs = {i. i < N \<and> pcs i = RW_Reading}"

definition rw_writers :: "nat \<Rightarrow> (nat \<Rightarrow> rw_pc) \<Rightarrow> nat set" where
  "rw_writers N pcs = {i. i < N \<and> (pcs i = RW_WriteRetire \<or> pcs i = RW_Writing)}"

text \<open>The lock word counts the readers, or is \<open>-1\<close> while the one writer holds the lock.\<close>

definition rw_inv :: "nat \<Rightarrow> rw_lock \<times> (nat \<Rightarrow> rw_pc) \<Rightarrow> bool" where
  "rw_inv N s \<longleftrightarrow> (case s of (l, pcs) \<Rightarrow>
     (rw_writers N pcs = {} \<and> lock_num l = of_nat (card (rw_readers N pcs))) \<or>
     ((\<exists>w. rw_writers N pcs = {w}) \<and> rw_readers N pcs = {} \<and> lock_num l = - 1))"

definition rw_cas_ok :: "(nat \<Rightarrow> rw_pc) \<Rightarrow> bool" where
  "rw_cas_ok pcs \<longleftrightarrow> (\<forall>i n r. pcs i = RW_ReadCas n r \<longrightarrow> 0 \<le> sint n)"

lemma finite_rw [simp]: "finite (rw_readers N pcs)" "finite (rw_writers N pcs)"
  by (simp_all add: rw_readers_def rw_writers_def)

lemma rw_readers_upd:
  "i < N \<Longrightarrow> rw_readers N (pcs(i := pc)) =
     (if pc = RW_Reading then insert i (rw_readers N pcs) else rw_readers N pcs - {i})"
  by (auto simp: rw_readers_def)

lemma rw_writers_upd:
  "i < N \<Longrightarrow> rw_writers N (pcs(i := pc)) =
     (if pc = RW_WriteRetire \<or> pc = RW_Writing then insert i (rw_writers N pcs)
      else rw_writers N pcs - {i})"
  by (auto simp: rw_writers_def)

lemma card_rw_readers: "card (rw_readers N pcs) \<le> N"
proof -
  have "card (rw_readers N pcs) \<le> card {..<N}"
    by (intro card_mono) (auto simp: rw_readers_def)
  then show ?thesis by simp
qed

lemma u32_of_nat_neq_minus1:
  assumes "n < 2147483648" shows "(of_nat n :: u32) \<noteq> - 1"
proof
  assume "(of_nat n :: u32) = - 1"
  then have "unat (of_nat n :: u32) = unat (- 1 :: u32)" by simp
  with assms show False
    by (simp add: unat_of_nat unsigned_minus_1_eq_mask mask_eq_exp_minus_1)
qed

lemma u32_of_nat_eq_0:
  assumes "n < 2147483648" shows "(of_nat n :: u32) = 0 \<longleftrightarrow> n = 0"
proof -
  have "unat (of_nat n :: u32) = n" using assms by (simp add: unat_of_nat)
  then show ?thesis by auto
qed

lemma rw_pc_not_member:
  assumes "i < N" and "pcs i \<noteq> RW_Reading" and "pcs i \<noteq> RW_WriteRetire" and "pcs i \<noteq> RW_Writing"
  shows "i \<notin> rw_readers N pcs" and "i \<notin> rw_writers N pcs"
  using assms by (auto simp: rw_readers_def rw_writers_def)

lemma rw_inv_keep:
  assumes "rw_inv N (l, pcs)" and "i < N"
    and "pcs i \<noteq> RW_Reading" and "pcs i \<noteq> RW_WriteRetire" and "pcs i \<noteq> RW_Writing"
    and "pc \<noteq> RW_Reading" and "pc \<noteq> RW_WriteRetire" and "pc \<noteq> RW_Writing"
    and "lock_num l' = lock_num l"
  shows "rw_inv N (l', pcs(i := pc))"
  using assms rw_pc_not_member [of i N pcs]
  by (auto simp: rw_inv_def rw_readers_upd rw_writers_upd)

lemma rw_inv_read_cas:
  assumes "rw_inv N (l, pcs)" and "i < N" and "pcs i = RW_ReadCas (lock_num l) r"
    and "0 \<le> sint (lock_num l)"
  shows "rw_inv N (l\<lparr>lock_num := lock_num l + 1\<rparr>, pcs(i := RW_Reading))"
  using assms rw_pc_not_member [of i N pcs]
  by (auto simp: rw_inv_def rw_readers_upd rw_writers_upd)

lemma rw_inv_write_cas:
  assumes "rw_inv N (l, pcs)" and "i < N" and "N < 2147483648"
    and "pcs i = RW_WriteCas r" and "lock_num l = 0"
  shows "rw_inv N (l\<lparr>lock_num := - 1\<rparr>, pcs(i := RW_WriteRetire))"
proof -
  have "card (rw_readers N pcs) < 2147483648"
    using card_rw_readers [of N pcs] assms(3) by linarith
  then have "rw_readers N pcs = {} \<and> rw_writers N pcs = {}"
    using assms u32_of_nat_eq_0 [of "card (rw_readers N pcs)"] by (auto simp: rw_inv_def)
  then show ?thesis
    using assms by (auto simp: rw_inv_def rw_readers_upd rw_writers_upd)
qed

lemma rw_inv_writer_moves:
  assumes "rw_inv N (l, pcs)" and "i < N" and "pcs i = RW_WriteRetire" and "lock_num l' = lock_num l"
  shows "rw_inv N (l', pcs(i := RW_Writing))"
proof -
  have "i \<in> rw_writers N pcs" using assms by (simp add: rw_writers_def)
  with assms show ?thesis
    by (auto simp: rw_inv_def rw_readers_upd rw_writers_upd)
qed

lemma rw_inv_read_unlock:
  assumes "rw_inv N (l, pcs)" and "i < N" and "pcs i = RW_Reading"
  shows "rw_inv N (AtomicRWLock_ReadUnlock l, pcs(i := RW_Idle))"
proof -
  have i: "i \<in> rw_readers N pcs" using assms by (simp add: rw_readers_def)
  with assms have w: "rw_writers N pcs = {}" "lock_num l = of_nat (card (rw_readers N pcs))"
    by (auto simp: rw_inv_def)
  have "card (rw_readers N pcs) = Suc (card (rw_readers N pcs - {i}))"
    using i by (simp add: card_Suc_Diff1 del: card_Diff_insert)
  with w assms show ?thesis
    by (simp add: rw_inv_def AtomicRWLock_ReadUnlock_def rw_readers_upd rw_writers_upd)
qed

lemma rw_inv_write_unlock:
  assumes "rw_inv N (l, pcs)" and "i < N" and "pcs i = RW_Writing"
  shows "rw_inv N (AtomicRWLock_WriteUnlock l, pcs(i := RW_Idle))"
proof -
  have "i \<in> rw_writers N pcs" using assms by (simp add: rw_writers_def)
  with assms show ?thesis
    by (auto simp: rw_inv_def AtomicRWLock_WriteUnlock_def rw_readers_upd rw_writers_upd)
qed

lemma rw_inv_read_lock:
  assumes "rw_inv N (l, pcs)" and "rw_cas_ok pcs" and "i < N"
    and st: "AtomicRWLock_ReadLock_step sp l (pcs i) = (l', pc)"
  shows "rw_inv N (l', pcs(i := pc)) \<and> rw_cas_ok (pcs(i := pc))"
proof (cases "pcs i")
  case (RW_ReadWait n r)
  then show ?thesis
    using assms rw_inv_keep [OF assms(1,3)] by (auto simp: rw_cas_ok_def split: if_splits)
next
  case (RW_ReadCas n r)
  with assms have "0 \<le> sint n" by (auto simp: rw_cas_ok_def)
  then show ?thesis
    using RW_ReadCas assms rw_inv_keep [OF assms(1,3)] rw_inv_read_cas [OF assms(1,3)]
    by (auto simp: rw_cas_ok_def split: if_splits)
qed (use assms in \<open>auto simp: fun_upd_idem\<close>)

lemma rw_inv_write_lock:
  assumes "rw_inv N (l, pcs)" and "rw_cas_ok pcs" and "i < N" and "N < 2147483648"
    and st: "AtomicRWLock_WriteLock_step sp l (pcs i) = (l', pc)"
  shows "rw_inv N (l', pcs(i := pc)) \<and> rw_cas_ok (pcs(i := pc))"
proof (cases "pcs i")
  case RW_WriteAnnounce
  then show ?thesis
    using assms rw_inv_keep [OF assms(1,3)] by (auto simp: rw_cas_ok_def)
next
  case (RW_WriteCas r)
  then show ?thesis
    using assms rw_inv_keep [OF assms(1,3)] rw_inv_write_cas [OF assms(1,3,4)]
    by (auto simp: rw_cas_ok_def split: if_splits)
next
  case RW_WriteRetire
  then show ?thesis
    using assms rw_inv_writer_moves [OF assms(1,3)] by (auto simp: rw_cas_ok_def)
qed (use assms in \<open>auto simp: fun_upd_idem\<close>)

lemma rw_inv_step:
  assumes "rw_step N s t" and "N < 2147483648" and "rw_inv N s" and "rw_cas_ok (snd s)"
  shows "rw_inv N t \<and> rw_cas_ok (snd t)"
  using assms(1)
proof cases
  case (read_lock i sp l pcs l' pc)
  then show ?thesis using assms rw_inv_read_lock by simp
next
  case (write_lock i sp l pcs l' pc)
  then show ?thesis using assms rw_inv_write_lock by simp
next
  case (read_unlock i pcs l)
  then show ?thesis using assms rw_inv_read_unlock by (auto simp: rw_cas_ok_def)
next
  case (write_unlock i pcs l)
  then show ?thesis using assms rw_inv_write_unlock by (auto simp: rw_cas_ok_def)
qed (use assms in \<open>auto simp: rw_cas_ok_def intro: rw_inv_keep\<close>)

lemma rw_inv_reachable:
  "rw_reachable N wfirst s \<Longrightarrow> N < 2147483648 \<Longrightarrow> rw_inv N s \<and> rw_cas_ok (snd s)"
proof (induction rule: rw_reachable.induct)
  case rw_start
  show ?case
    by (auto simp: rw_inv_def rw_cas_ok_def rw_readers_def rw_writers_def AtomicRWLock_new_def)
next
  case (rw_next s t)
  then show ?case using rw_inv_step by blast
qed

text \<open>
  C21: With fewer than \<open>2^31\<close> threads using the lock through its guards, whenever a thread is in
  its write section no other thread is in a read or write section, and \<open>lock_num_\<close> is \<open>-1\<close>;
  when nobody writes, \<open>lock_num_\<close> is the number of threads in their read sections.
\<close>

theorem AtomicRWLock_mutual_exclusion:
  assumes "rw_reachable N wfirst (l, pcs)" and "N < 2147483648"
  shows "(\<forall>i j. i < N \<and> j < N \<and> pcs i = RW_Writing \<and> (pcs j = RW_Writing \<or> pcs j = RW_Reading) \<longrightarrow> i = j) \<and>
    (\<forall>i. i < N \<and> pcs i = RW_Writing \<longrightarrow> lock_num l = - 1) \<and>
    ((\<forall>k. k < N \<longrightarrow> pcs k \<noteq> RW_Writing \<and> pcs k \<noteq> RW_WriteRetire) \<longrightarrow>
       unat (lock_num l) = card {k. k < N \<and> pcs k = RW_Reading})"
proof -
  have inv: "rw_inv N (l, pcs)"
    using rw_inv_reachable [OF assms] by simp
  have writer: "i \<in> rw_writers N pcs" if "i < N" "pcs i = RW_Writing" for i
    using that by (simp add: rw_writers_def)
  have reader: "j \<in> rw_readers N pcs" if "j < N" "pcs j = RW_Reading" for j
    using that by (simp add: rw_readers_def)
  have "unat (lock_num l) = card {k. k < N \<and> pcs k = RW_Reading}"
    if no: "\<forall>k. k < N \<longrightarrow> pcs k \<noteq> RW_Writing \<and> pcs k \<noteq> RW_WriteRetire"
  proof -
    have "rw_writers N pcs = {}" using no by (auto simp: rw_writers_def)
    with inv have "lock_num l = of_nat (card (rw_readers N pcs))" by (auto simp: rw_inv_def)
    then show ?thesis
      using card_rw_readers [of N pcs] assms(2) by (simp add: unat_of_nat rw_readers_def)
  qed
  moreover have "lock_num l = - 1 \<and> (pcs j = RW_Writing \<or> pcs j = RW_Reading \<longrightarrow> i = j)"
    if "i < N" "pcs i = RW_Writing" "j < N" for i j
    using inv writer [OF that(1,2)] writer [OF that(3)] reader [OF that(3)]
    by (auto simp: rw_inv_def)
  ultimately show ?thesis by blast
qed

text \<open>Two threads: the first takes the write lock while the second waits to read.\<close>

theorem AtomicRWLock_mutual_exclusion_witness:
  "\<exists>l pcs. rw_reachable 2 True (l, pcs) \<and> pcs 0 = RW_Writing \<and> pcs 1 = RW_ReadWait (- 1) 1 \<and>
     lock_num l = - 1"
proof -
  let ?l = "\<lparr>write_lock_wait_num = 0, lock_num = - 1, write_first = True\<rparr>"
  note nxt = rw_next [of 2 True]
  have "rw_reachable 2 True (AtomicRWLock_new True, (\<lambda>_. RW_Idle)(0 := RW_WriteAnnounce))"
    by (rule nxt, rule rw_start, rule rw_step.call_write) auto
  then have "rw_reachable 2 True
     (\<lparr>write_lock_wait_num = 1, lock_num = 0, write_first = True\<rparr>, (\<lambda>_. RW_Idle)(0 := RW_WriteCas 0))"
    by (rule nxt) (use rw_step.write_lock [of 0 2 False "AtomicRWLock_new True" "(\<lambda>_. RW_Idle)(0 := RW_WriteAnnounce)"]
        in \<open>simp add: AtomicRWLock_new_def\<close>)
  then have "rw_reachable 2 True
     (\<lparr>write_lock_wait_num = 1, lock_num = - 1, write_first = True\<rparr>, (\<lambda>_. RW_Idle)(0 := RW_WriteRetire))"
    by (rule nxt) (use rw_step.write_lock [of 0 2 False
          "\<lparr>write_lock_wait_num = 1, lock_num = 0, write_first = True\<rparr>" "(\<lambda>_. RW_Idle)(0 := RW_WriteCas 0)"] in simp)
  then have "rw_reachable 2 True (?l, (\<lambda>_. RW_Idle)(0 := RW_Writing))"
    by (rule nxt) (use rw_step.write_lock [of 0 2 False
          "\<lparr>write_lock_wait_num = 1, lock_num = - 1, write_first = True\<rparr>" "(\<lambda>_. RW_Idle)(0 := RW_WriteRetire)"] in simp)
  then have "rw_reachable 2 True (?l, (\<lambda>_. RW_Idle)(0 := RW_Writing, 1 := RW_ReadWait (- 1) 0))"
    by (rule nxt) (use rw_step.call_read [of 1 2 "(\<lambda>_. RW_Idle)(0 := RW_Writing)" ?l] in simp)
  then have r: "rw_reachable 2 True (?l, (\<lambda>_. RW_Idle)(0 := RW_Writing, 1 := RW_ReadWait (- 1) 1))"
    by (rule nxt) (use rw_step.read_lock [of 1 2 False ?l "(\<lambda>_. RW_Idle)(0 := RW_Writing, 1 := RW_ReadWait (- 1) 0)"]
        in \<open>simp add: rw_retry_def\<close>)
  have "lock_num ?l = - 1"
    using AtomicRWLock_mutual_exclusion [OF r] by auto
  with r show ?thesis
    by (intro exI [of _ ?l] exI [of _ "(\<lambda>_. RW_Idle)(0 := RW_Writing, 1 := RW_ReadWait (- 1) 1)"]) simp
qed

end
