(* ===== verification/ReentrantLock.thy ===== *)
theory ReentrantLock
  imports RWLock
begin

text \<open>
  \<^verbatim>\<open>ReentrantRWLock\<close> of \<^verbatim>\<open>cyber/base/reentrant_rw_lock.h\<close>: the lock of \<open>RWLock\<close> with the
  identity of the writing thread, so that the writer may lock again. The functions are
  modelled as undisturbed calls (\<^term>\<open>None\<close>: the call spins for ever) and as programs of atomic
  steps; \<open>write_thread_id_\<close> is a plain field that is read and written in steps of its own.
\<close>

record reentrant_lock = rw_lock +
  write_thread_id :: "nat option"

definition ReentrantRWLock_new :: "bool \<Rightarrow> reentrant_lock" where
  "ReentrantRWLock_new wfirst = \<lparr>write_lock_wait_num = 0, lock_num = 0, write_first = wfirst,
     write_thread_id = None\<rparr>"

section \<open>Undisturbed calls\<close>

definition ReentrantRWLock_ReadLock :: "nat \<Rightarrow> reentrant_lock \<Rightarrow> reentrant_lock option" where
  "ReentrantRWLock_ReadLock i l =
     (if write_thread_id l = Some i then Some l
      else if write_first l
      then if sint (lock_num l) < 0 \<or> write_lock_wait_num l > 0 then None
           else Some (l\<lparr>lock_num := lock_num l + 1\<rparr>)
      else if sint (lock_num l) < 0 then None else Some (l\<lparr>lock_num := lock_num l + 1\<rparr>))"

definition ReentrantRWLock_WriteLock :: "nat \<Rightarrow> reentrant_lock \<Rightarrow> reentrant_lock option" where
  "ReentrantRWLock_WriteLock i l =
     (if write_thread_id l = Some i then Some (l\<lparr>lock_num := lock_num l - 1\<rparr>)
      else let l1 = l\<lparr>write_lock_wait_num := write_lock_wait_num l + 1\<rparr> in
           if lock_num l1 \<noteq> RW_LOCK_FREE then None
           else let l2 = l1\<lparr>lock_num := WRITE_EXCLUSIVE, write_thread_id := Some i\<rparr> in
                Some (l2\<lparr>write_lock_wait_num := write_lock_wait_num l2 - 1\<rparr>))"

definition ReentrantRWLock_ReadUnlock :: "nat \<Rightarrow> reentrant_lock \<Rightarrow> reentrant_lock" where
  "ReentrantRWLock_ReadUnlock i l =
     (if write_thread_id l = Some i then l else l\<lparr>lock_num := lock_num l - 1\<rparr>)"

definition ReentrantRWLock_WriteUnlock :: "reentrant_lock \<Rightarrow> reentrant_lock" where
  "ReentrantRWLock_WriteUnlock l =
     (let l' = l\<lparr>lock_num := lock_num l + 1\<rparr> in
      if lock_num l = WRITE_EXCLUSIVE then l'\<lparr>write_thread_id := None\<rparr> else l')"

text \<open>The lock scopes a thread opens with the two guards, nested as blocks.\<close>

datatype scope = ReadScope "scope list" | WriteScope "scope list"

fun run_scope :: "nat \<Rightarrow> scope \<Rightarrow> reentrant_lock \<Rightarrow> reentrant_lock option"
  and run_scopes :: "nat \<Rightarrow> scope list \<Rightarrow> reentrant_lock \<Rightarrow> reentrant_lock option" where
  "run_scope i (ReadScope ss) l =
     Option.bind (ReentrantRWLock_ReadLock i l) (\<lambda>l1.
       map_option (ReentrantRWLock_ReadUnlock i) (run_scopes i ss l1))"
| "run_scope i (WriteScope ss) l =
     Option.bind (ReentrantRWLock_WriteLock i l) (\<lambda>l1.
       map_option ReentrantRWLock_WriteUnlock (run_scopes i ss l1))"
| "run_scopes i [] l = Some l"
| "run_scopes i (s # ss) l = Option.bind (run_scope i s l) (run_scopes i ss)"

fun scope_depth :: "scope \<Rightarrow> nat" and scopes_depth :: "scope list \<Rightarrow> nat" where
  "scope_depth (ReadScope ss) = scopes_depth ss"
| "scope_depth (WriteScope ss) = Suc (scopes_depth ss)"
| "scopes_depth [] = 0"
| "scopes_depth (s # ss) = max (scope_depth s) (scopes_depth ss)"

lemma u32_minus_neq_minus1:
  assumes "1 \<le> d" and "d < 2147483648" shows "- of_nat (Suc d) \<noteq> (- 1 :: u32)"
proof
  assume "- of_nat (Suc d) = (- 1 :: u32)"
  then have "(of_nat d :: u32) = 0" by simp
  with assms show False by (simp add: u32_of_nat_eq_0 del: of_nat_Suc)
qed

lemma nested_scopes:
  "write_thread_id l = Some i \<Longrightarrow> lock_num l = - of_nat d \<Longrightarrow> 1 \<le> d \<Longrightarrow>
     d + scope_depth s < 2147483648 \<Longrightarrow> run_scope i s l = Some l"
  "write_thread_id l = Some i \<Longrightarrow> lock_num l = - of_nat d \<Longrightarrow> 1 \<le> d \<Longrightarrow>
     d + scopes_depth ss < 2147483648 \<Longrightarrow> run_scopes i ss l = Some l"
proof (induction i s l and i ss l arbitrary: d and d rule: run_scope_run_scopes.induct)
  case (1 i ss l)
  then show ?case
    by (simp add: ReentrantRWLock_ReadLock_def ReentrantRWLock_ReadUnlock_def)
next
  case (2 i ss l)
  let ?l1 = "l\<lparr>lock_num := - of_nat (Suc d)\<rparr>"
  have lock: "ReentrantRWLock_WriteLock i l = Some ?l1"
    using "2" by (simp add: ReentrantRWLock_WriteLock_def)
  moreover have "run_scopes i ss ?l1 = Some ?l1"
    using "2" lock by (intro "2.IH" [OF lock, of "Suc d"]) auto
  moreover have "lock_num ?l1 \<noteq> - 1"
    using "2" u32_minus_neq_minus1 [of d] by simp
  ultimately show ?case
    using "2" by (simp add: ReentrantRWLock_WriteUnlock_def)
qed auto

text \<open>
  A thread that finds the lock free can open a write scope and, inside it, nest read and
  write scopes in any way (up to the range of the 32-bit counter) without ever blocking on its
  own lock, and closing the scopes leaves the lock exactly as it was found, free.
\<close>

theorem ReentrantRWLock_nesting:
  assumes "write_thread_id l = None" and "lock_num l = 0" and "scopes_depth ss < 2147483647"
  shows "run_scope i (WriteScope ss) l = Some l"
proof -
  let ?l1 = "l\<lparr>lock_num := - 1, write_thread_id := Some i\<rparr>"
  have "ReentrantRWLock_WriteLock i l = Some ?l1"
    using assms by (simp add: ReentrantRWLock_WriteLock_def Let_def)
  moreover have "run_scopes i ss ?l1 = Some ?l1"
    using assms by (intro nested_scopes(2) [of _ _ 1]) auto
  ultimately show ?thesis
    using assms by (simp add: ReentrantRWLock_WriteUnlock_def Let_def)
qed

theorem ReentrantRWLock_nesting_witness:
  "run_scope 7 (WriteScope [ReadScope [WriteScope []], WriteScope [ReadScope []]])
     (ReentrantRWLock_new True) = Some (ReentrantRWLock_new True)"
  by (rule ReentrantRWLock_nesting) (simp_all add: ReentrantRWLock_new_def)

section \<open>Interleaved threads\<close>

datatype rr_pc =
    RR_Idle
  | RR_ReadEnter | RR_ReadWait u32 u32 | RR_ReadCas u32 u32
  | RR_WriteEnter | RR_WriteAnnounce | RR_WriteCas u32 | RR_WriteOwn | RR_WriteRetire
  | RR_ReadExit | RR_WriteExit | RR_WriteDisown

datatype guard = ReadGuard | WriteGuard

text \<open>One atomic step of thread \<open>i\<close>; the last component pushes or pops its open guards.\<close>

fun ReentrantRWLock_step ::
  "bool \<Rightarrow> nat \<Rightarrow> reentrant_lock \<Rightarrow> rr_pc \<Rightarrow> guard list \<Rightarrow> reentrant_lock \<times> rr_pc \<times> guard list" where
  "ReentrantRWLock_step sp i l RR_ReadEnter gs =
     (if write_thread_id l = Some i then (l, RR_Idle, ReadGuard # gs)
      else (l, RR_ReadWait (lock_num l) 0, gs))"
| "ReentrantRWLock_step sp i l (RR_ReadWait n r) gs =
     (if sint n < 0 \<or> (write_first l \<and> write_lock_wait_num l > 0)
      then (l, RR_ReadWait (lock_num l) (rw_retry r), gs) else (l, RR_ReadCas n r, gs))"
| "ReentrantRWLock_step sp i l (RR_ReadCas n r) gs =
     (if \<not> sp \<and> lock_num l = n then (l\<lparr>lock_num := n + 1\<rparr>, RR_Idle, ReadGuard # gs)
      else (l, RR_ReadWait (lock_num l) r, gs))"
| "ReentrantRWLock_step sp i l RR_WriteEnter gs =
     (if write_thread_id l = Some i
      then (l\<lparr>lock_num := lock_num l - 1\<rparr>, RR_Idle, WriteGuard # gs)
      else (l, RR_WriteAnnounce, gs))"
| "ReentrantRWLock_step sp i l RR_WriteAnnounce gs =
     (l\<lparr>write_lock_wait_num := write_lock_wait_num l + 1\<rparr>, RR_WriteCas 0, gs)"
| "ReentrantRWLock_step sp i l (RR_WriteCas r) gs =
     (if \<not> sp \<and> lock_num l = RW_LOCK_FREE
      then (l\<lparr>lock_num := WRITE_EXCLUSIVE\<rparr>, RR_WriteOwn, gs) else (l, RR_WriteCas (rw_retry r), gs))"
| "ReentrantRWLock_step sp i l RR_WriteOwn gs =
     (l\<lparr>write_thread_id := Some i\<rparr>, RR_WriteRetire, gs)"
| "ReentrantRWLock_step sp i l RR_WriteRetire gs =
     (l\<lparr>write_lock_wait_num := write_lock_wait_num l - 1\<rparr>, RR_Idle, WriteGuard # gs)"
| "ReentrantRWLock_step sp i l RR_ReadExit gs =
     (if write_thread_id l = Some i then (l, RR_Idle, tl gs)
      else (l\<lparr>lock_num := lock_num l - 1\<rparr>, RR_Idle, tl gs))"
| "ReentrantRWLock_step sp i l RR_WriteExit gs =
     (l\<lparr>lock_num := lock_num l + 1\<rparr>,
      (if lock_num l = WRITE_EXCLUSIVE then RR_WriteDisown else RR_Idle), tl gs)"
| "ReentrantRWLock_step sp i l RR_WriteDisown gs = (l\<lparr>write_thread_id := None\<rparr>, RR_Idle, gs)"
| "ReentrantRWLock_step sp i l RR_Idle gs = (l, RR_Idle, gs)"

record rr_system =
  rr_lock :: reentrant_lock
  rr_pcs :: "nat \<Rightarrow> rr_pc"
  rr_guards :: "nat \<Rightarrow> guard list"

datatype rr_action = RR_LockRead nat | RR_LockWrite nat | RR_Unlock nat | RR_Step nat bool

text \<open>Guards are released innermost first: \<open>RR_Unlock\<close> starts the unlock of the newest one.\<close>

fun rr_act :: "rr_action \<Rightarrow> rr_system \<Rightarrow> rr_system option" where
  "rr_act (RR_LockRead i) s =
     (if rr_pcs s i = RR_Idle then Some (s\<lparr>rr_pcs := (rr_pcs s)(i := RR_ReadEnter)\<rparr>) else None)"
| "rr_act (RR_LockWrite i) s =
     (if rr_pcs s i = RR_Idle then Some (s\<lparr>rr_pcs := (rr_pcs s)(i := RR_WriteEnter)\<rparr>) else None)"
| "rr_act (RR_Unlock i) s =
     (if rr_pcs s i = RR_Idle
      then case rr_guards s i of
             [] \<Rightarrow> None
           | ReadGuard # gs \<Rightarrow> Some (s\<lparr>rr_pcs := (rr_pcs s)(i := RR_ReadExit)\<rparr>)
           | WriteGuard # gs \<Rightarrow> Some (s\<lparr>rr_pcs := (rr_pcs s)(i := RR_WriteExit)\<rparr>)
      else None)"
| "rr_act (RR_Step i sp) s =
     (case ReentrantRWLock_step sp i (rr_lock s) (rr_pcs s i) (rr_guards s i) of (l, pc, gs) \<Rightarrow>
        Some (s\<lparr>rr_lock := l, rr_pcs := (rr_pcs s)(i := pc), rr_guards := (rr_guards s)(i := gs)\<rparr>))"

fun rr_schedule :: "rr_action list \<Rightarrow> rr_system \<Rightarrow> rr_system option" where
  "rr_schedule [] s = Some s"
| "rr_schedule (a # as) s = (case rr_act a s of None \<Rightarrow> None | Some t \<Rightarrow> rr_schedule as t)"

definition rr_init :: "bool \<Rightarrow> rr_system" where
  "rr_init wfirst = \<lparr>rr_lock = ReentrantRWLock_new wfirst, rr_pcs = (\<lambda>_. RR_Idle),
     rr_guards = (\<lambda>_. [])\<rparr>"

text \<open>
  A dead lock word: nobody holds a guard and nobody is on the way out of a lock function that
  would still change the word, yet \<open>lock_num_\<close> says that a writer is inside.
\<close>

definition rr_waiting :: "rr_pc \<Rightarrow> bool" where
  "rr_waiting pc \<longleftrightarrow> (case pc of RR_Idle \<Rightarrow> True | RR_ReadEnter \<Rightarrow> True | RR_ReadWait n r \<Rightarrow> True
     | RR_ReadCas n r \<Rightarrow> n \<noteq> - 1 | RR_WriteEnter \<Rightarrow> True | RR_WriteAnnounce \<Rightarrow> True
     | RR_WriteCas r \<Rightarrow> True | _ \<Rightarrow> False)"

definition rr_dead :: "rr_system \<Rightarrow> bool" where
  "rr_dead s \<longleftrightarrow> lock_num (rr_lock s) = - 1 \<and> write_thread_id (rr_lock s) = None \<and>
     (\<forall>i. rr_guards s i = [] \<and> rr_waiting (rr_pcs s i))"

lemma rr_dead_act:
  assumes "rr_dead s" and "rr_act a s = Some t" shows "rr_dead t"
proof (cases a)
  case (RR_Step i sp)
  have "rr_waiting (rr_pcs s i)"
    using assms by (simp add: rr_dead_def)
  then show ?thesis
    using assms RR_Step
    by (cases "rr_pcs s i") (auto simp: rr_dead_def rr_waiting_def split: if_splits)
qed (use assms in \<open>auto simp: rr_dead_def rr_waiting_def split: if_splits\<close>)

lemma rr_dead_schedule: "rr_dead s \<Longrightarrow> rr_schedule as s = Some t \<Longrightarrow> rr_dead t"
  by (induction as arbitrary: s) (auto split: option.splits dest: rr_dead_act)

text \<open>
  The race: thread 0 releases the word in \<open>WriteUnlock\<close> but clears \<open>write_thread_id_\<close> only after
  thread 1 has taken the lock, entered its name and opened a nested read guard. Thread 1 then
  no longer recognises itself, subtracts in \<open>ReadUnlock\<close>, and its own \<open>WriteUnlock\<close> leaves
  \<open>lock_num_\<close> at \<open>-1\<close>.
\<close>

definition rr_race :: "rr_action list" where
  "rr_race =
     [RR_LockWrite 0, RR_Step 0 False, RR_Step 0 False, RR_Step 0 False, RR_Step 0 False, RR_Step 0 False,
      RR_Unlock 0, RR_Step 0 False,
      RR_LockWrite 1, RR_Step 1 False, RR_Step 1 False, RR_Step 1 False, RR_Step 1 False, RR_Step 1 False,
      RR_LockRead 1, RR_Step 1 False,
      RR_Step 0 False,
      RR_Unlock 1, RR_Step 1 False, RR_Unlock 1, RR_Step 1 False]"

lemma rr_race_dead: "\<exists>s. rr_schedule rr_race (rr_init wfirst) = Some s \<and> rr_dead s"
  by (simp add: rr_race_def rr_init_def ReentrantRWLock_new_def rr_dead_def rr_waiting_def)

text \<open>
  C25: Two threads that use the lock only through properly nested guards can reach a state in
  which no thread holds a guard and yet, whatever any number of threads do from then on, no
  thread ever obtains a guard again.
\<close>

theorem ReentrantRWLock_race_deadlock:
  "\<exists>as s. rr_schedule as (rr_init wfirst) = Some s \<and> (\<forall>i. rr_guards s i = []) \<and>
     (\<nexists>bs t i. rr_schedule bs s = Some t \<and> rr_guards t i \<noteq> [])"
proof -
  obtain s where s: "rr_schedule rr_race (rr_init wfirst) = Some s" "rr_dead s"
    using rr_race_dead by blast
  have "\<forall>i. rr_guards t i = []" if "rr_schedule bs s = Some t" for bs t
    using rr_dead_schedule [OF s(2) that] by (simp add: rr_dead_def)
  with s show ?thesis
    by (intro exI [of _ rr_race] exI [of _ s]) (auto simp: rr_dead_def)
qed

end
