(* ===== verification/AtomicHashMap.thy ===== *)
theory AtomicHashMap
  imports Prelude
begin

text \<open>
  The fixed-size hash map of \<^verbatim>\<open>cyber/base/atomic_hash_map.h\<close> with 64-bit keys: an array of
  buckets, each a chain of entries in ascending key order behind a dummy head. A bucket is the
  list of its entries after the dummy; a position in the chain stands for the pair of pointers
  \<open>prev\<close>, \<open>target\<close> that \<open>Find\<close> returns. Calls are undisturbed, so the retry loops of \<open>Insert\<close>
  end in their first round.
\<close>

unbundle bit_operations_syntax

section \<open>Buckets\<close>

type_synonym 'v bucket = "(u64 \<times> 'v) list"

fun Bucket_Has :: "u64 \<Rightarrow> 'v bucket \<Rightarrow> bool" where
  "Bucket_Has key [] = False"
| "Bucket_Has key ((k, v) # es) = (if k < key then Bucket_Has key es else k = key)"

text \<open>The number of entries before \<open>target\<close>; the length of the chain when \<open>target\<close> is null.\<close>

fun Bucket_Find :: "u64 \<Rightarrow> 'v bucket \<Rightarrow> bool \<times> nat" where
  "Bucket_Find key [] = (False, 0)"
| "Bucket_Find key ((k, v) # es) =
     (if k = key then (True, 0)
      else if k > key then (False, 0)
      else case Bucket_Find key es of (found, n) \<Rightarrow> (found, Suc n))"

definition Bucket_Insert :: "u64 \<Rightarrow> 'v \<Rightarrow> 'v bucket \<Rightarrow> 'v bucket" where
  "Bucket_Insert key v es =
     (case Bucket_Find key es of
        (True, n) \<Rightarrow> es[n := (fst (es ! n), v)]
      | (False, n) \<Rightarrow> take n es @ (key, v) # drop n es)"

definition Bucket_Get :: "u64 \<Rightarrow> 'v bucket \<Rightarrow> 'v option" where
  "Bucket_Get key es =
     (case Bucket_Find key es of (True, n) \<Rightarrow> Some (snd (es ! n)) | (False, n) \<Rightarrow> None)"

section \<open>The table\<close>

record 'v atomic_hash_map =
  ahm_table :: "'v bucket list"
  ahm_capacity :: u64
  ahm_mode_num :: u64

definition AtomicHashMap_new :: "u64 \<Rightarrow> 'v atomic_hash_map" where
  "AtomicHashMap_new table_size =
     \<lparr>ahm_table = replicate (unat table_size) [], ahm_capacity = table_size,
      ahm_mode_num = table_size - 1\<rparr>"

definition AtomicHashMap_index :: "'v atomic_hash_map \<Rightarrow> u64 \<Rightarrow> nat" where
  "AtomicHashMap_index m key = unat (key AND ahm_mode_num m)"

definition AtomicHashMap_Has :: "'v atomic_hash_map \<Rightarrow> u64 \<Rightarrow> bool" where
  "AtomicHashMap_Has m key = Bucket_Has key (ahm_table m ! AtomicHashMap_index m key)"

definition AtomicHashMap_Get :: "'v atomic_hash_map \<Rightarrow> u64 \<Rightarrow> 'v option" where
  "AtomicHashMap_Get m key = Bucket_Get key (ahm_table m ! AtomicHashMap_index m key)"

definition AtomicHashMap_Set :: "'v atomic_hash_map \<Rightarrow> u64 \<Rightarrow> 'v \<Rightarrow> 'v atomic_hash_map" where
  "AtomicHashMap_Set m key v =
     (let i = AtomicHashMap_index m key in
      m\<lparr>ahm_table := (ahm_table m)[i := Bucket_Insert key v (ahm_table m ! i)]\<rparr>)"

section \<open>Correctness of a bucket\<close>

definition bucket_ok :: "'v bucket \<Rightarrow> bool" where
  "bucket_ok es \<longleftrightarrow> sorted_wrt (<) (map fst es)"

lemma bucket_ok_Cons:
  "bucket_ok ((k, v) # es) \<longleftrightarrow> (\<forall>p \<in> set es. k < fst p) \<and> bucket_ok es"
  by (auto simp: bucket_ok_def)

lemma Bucket_Get_Nil [simp]: "Bucket_Get key [] = None"
  by (simp add: Bucket_Get_def)

lemma Bucket_Get_Cons:
  "Bucket_Get key ((k, v) # es) =
     (if k = key then Some v else if k > key then None else Bucket_Get key es)"
  by (auto simp: Bucket_Get_def split: prod.splits bool.splits)

lemma Bucket_Insert_Nil [simp]: "Bucket_Insert key v [] = [(key, v)]"
  by (simp add: Bucket_Insert_def)

lemma Bucket_Insert_Cons:
  "Bucket_Insert key v ((k, w) # es) =
     (if k = key then (key, v) # es
      else if k > key then (key, v) # (k, w) # es
      else (k, w) # Bucket_Insert key v es)"
  by (auto simp: Bucket_Insert_def split: prod.splits bool.splits)

lemma Bucket_Get_map_of: "bucket_ok es \<Longrightarrow> Bucket_Get key es = map_of es key"
proof (induction es)
  case Nil
  then show ?case by simp
next
  case (Cons p es)
  obtain k v where p: "p = (k, v)" by (cases p)
  have "map_of es key = None" if "key < k"
    using Cons.prems that p by (auto simp: bucket_ok_Cons map_of_eq_None_iff)
  with Cons p show ?case by (auto simp: Bucket_Get_Cons bucket_ok_Cons)
qed

lemma fst_set_Insert: "fst ` set (Bucket_Insert key v es) = insert key (fst ` set es)"
proof (induction es)
  case (Cons p es)
  then show ?case by (cases p) (simp add: Bucket_Insert_Cons insert_commute)
qed simp

lemma bucket_ok_Insert: "bucket_ok es \<Longrightarrow> bucket_ok (Bucket_Insert key v es)"
proof (induction es)
  case Nil
  then show ?case by (simp add: bucket_ok_def)
next
  case (Cons p es)
  obtain k w where p: "p = (k, w)" by (cases p)
  have "key < fst q" if "k > key" "q \<in> set es" for q
    using Cons.prems that p by (auto simp: bucket_ok_Cons intro: less_trans)
  moreover have "k < fst q" if "k < key" "q \<in> set (Bucket_Insert key v es)" for q
  proof -
    have "fst q \<in> insert key (fst ` set es)"
      using that(2) fst_set_Insert [of key v es] by blast
    with Cons.prems that(1) p show ?thesis by (auto simp: bucket_ok_Cons)
  qed
  ultimately show ?case
    using Cons p by (auto simp: Bucket_Insert_Cons bucket_ok_Cons not_less_iff_gr_or_eq)
qed

lemma map_of_Insert: "bucket_ok es \<Longrightarrow> map_of (Bucket_Insert key v es) = (map_of es)(key \<mapsto> v)"
proof (induction es)
  case Nil
  then show ?case by simp
next
  case (Cons p es)
  then show ?case
    by (cases p) (auto simp: Bucket_Insert_Cons bucket_ok_Cons fun_eq_iff)
qed

lemma Bucket_Get_Insert:
  "bucket_ok es \<Longrightarrow> Bucket_Get k (Bucket_Insert key v es) = (if k = key then Some v else Bucket_Get k es)"
  by (simp add: Bucket_Get_map_of bucket_ok_Insert map_of_Insert)

lemma Bucket_Has_iff: "bucket_ok es \<Longrightarrow> Bucket_Has key es \<longleftrightarrow> Bucket_Get key es \<noteq> None"
proof (induction es)
  case (Cons p es)
  then show ?case
    by (cases p) (auto simp: Bucket_Get_Cons bucket_ok_Cons)
qed simp

section \<open>The map contract\<close>

text \<open>What the dispatcher and the notifier rely on.\<close>

locale keyed_map =
  fixes lookup :: "'m \<Rightarrow> 'k \<Rightarrow> 'v option"
    and store :: "'m \<Rightarrow> 'k \<Rightarrow> 'v \<Rightarrow> 'm"
    and invar :: "'m \<Rightarrow> bool"
  assumes lookup_store: "invar m \<Longrightarrow> lookup (store m k v) k' = (if k' = k then Some v else lookup m k')"
    and invar_store: "invar m \<Longrightarrow> invar (store m k v)"

text \<open>
  The idiom of \<open>AddBuffer\<close> and \<open>AddNotifier\<close>: append to the vector stored under a key, or store a
  new one-element vector. Appending through the pointer that \<open>Get\<close> returns changes the entry
  in place.
\<close>

definition append_to ::
  "('m \<Rightarrow> 'k \<Rightarrow> 'x list option) \<Rightarrow> ('m \<Rightarrow> 'k \<Rightarrow> 'x list \<Rightarrow> 'm) \<Rightarrow> 'm \<Rightarrow> 'k \<Rightarrow> 'x \<Rightarrow> 'm" where
  "append_to get put m k x =
     (case get m k of Some xs \<Rightarrow> put m k (xs @ [x]) | None \<Rightarrow> put m k [x])"

definition entries :: "('m \<Rightarrow> 'k \<Rightarrow> 'x list option) \<Rightarrow> 'm \<Rightarrow> 'k \<Rightarrow> 'x list" where
  "entries get m k = (case get m k of Some xs \<Rightarrow> xs | None \<Rightarrow> [])"

locale keyed_multimap = keyed_map lookup store invar
  for lookup :: "'m \<Rightarrow> 'k \<Rightarrow> 'x list option" and store and invar
begin

lemma invar_append_to: "invar m \<Longrightarrow> invar (append_to lookup store m k x)"
  by (simp add: append_to_def invar_store split: option.split)

lemma lookup_append_to:
  "invar m \<Longrightarrow> lookup (append_to lookup store m k x) k' =
     (if k' = k then Some (entries lookup m k @ [x]) else lookup m k')"
  by (auto simp: append_to_def entries_def lookup_store split: option.split)

text \<open>Registering a sequence of entries: each key keeps its own entries, in order.\<close>

lemma entries_fold:
  assumes "invar m"
  shows "invar (fold (\<lambda>(k, x) m. append_to lookup store m k x) kxs m) \<and>
    entries lookup (fold (\<lambda>(k, x) m. append_to lookup store m k x) kxs m) k' =
      entries lookup m k' @ map snd (filter (\<lambda>p. fst p = k') kxs)"
  using assms
proof (induction kxs arbitrary: m)
  case Nil
  then show ?case by simp
next
  case (Cons p kxs)
  obtain k x where p: "p = (k, x)" by (cases p)
  have "entries lookup (append_to lookup store m k x) k' =
      (if k' = k then entries lookup m k @ [x] else entries lookup m k')"
    using Cons.prems by (simp add: entries_def lookup_append_to)
  then show ?case
    using Cons.IH [of "append_to lookup store m k x"] Cons.prems p by (auto simp: invar_append_to)
qed

end

definition ahm_inv :: "'v atomic_hash_map \<Rightarrow> bool" where
  "ahm_inv m \<longleftrightarrow> length (ahm_table m) = Suc (unat (ahm_mode_num m)) \<and>
     (\<forall>es \<in> set (ahm_table m). bucket_ok es)"

lemma ahm_index_less: "ahm_inv m \<Longrightarrow> AtomicHashMap_index m key < length (ahm_table m)"
proof -
  assume "ahm_inv m"
  have "key AND ahm_mode_num m \<le> ahm_mode_num m"
    by (rule word_and_le1)
  with \<open>ahm_inv m\<close> show ?thesis
    by (simp add: ahm_inv_def AtomicHashMap_index_def word_le_nat_alt)
qed

lemma ahm_bucket_ok: "ahm_inv m \<Longrightarrow> bucket_ok (ahm_table m ! AtomicHashMap_index m key)"
  using ahm_index_less [of m key] by (simp add: ahm_inv_def)

lemma ahm_inv_Set: "ahm_inv m \<Longrightarrow> ahm_inv (AtomicHashMap_Set m key v)"
  using ahm_bucket_ok [of m key]
  by (auto simp: ahm_inv_def AtomicHashMap_Set_def Let_def bucket_ok_Insert dest!: set_update_subset_insert [THEN subsetD])

lemma ahm_Get_Set:
  assumes "ahm_inv m"
  shows "AtomicHashMap_Get (AtomicHashMap_Set m key v) k =
    (if k = key then Some v else AtomicHashMap_Get m k)"
proof -
  have idx: "AtomicHashMap_index (AtomicHashMap_Set m key v) k = AtomicHashMap_index m k"
    by (simp add: AtomicHashMap_index_def AtomicHashMap_Set_def Let_def)
  show ?thesis
    using ahm_index_less [OF assms, of key] ahm_bucket_ok [OF assms, of key] idx
    by (auto simp: AtomicHashMap_Get_def AtomicHashMap_Set_def Let_def nth_list_update
        Bucket_Get_Insert)
qed

interpretation ahm: keyed_map AtomicHashMap_Get AtomicHashMap_Set ahm_inv
  by unfold_locales (simp_all add: ahm_Get_Set ahm_inv_Set)

interpretation ahm_multi: keyed_multimap AtomicHashMap_Get AtomicHashMap_Set ahm_inv
  by unfold_locales

lemma ahm_inv_new:
  assumes "0 < n" shows "ahm_inv (AtomicHashMap_new n)"
proof -
  have "0 < unat n" and "n \<noteq> 0"
    using assms by (simp_all add: word_gt_0 unat_gt_0)
  then have "Suc (unat (n - 1)) = unat n"
    by (simp add: unat_minus_one)
  then show ?thesis
    by (auto simp: ahm_inv_def AtomicHashMap_new_def bucket_ok_def)
qed

lemma ahm_Get_new: "0 < n \<Longrightarrow> AtomicHashMap_Get (AtomicHashMap_new n) k = (None :: 'a option)"
proof -
  assume "0 < n"
  then have "AtomicHashMap_index (AtomicHashMap_new n :: 'a atomic_hash_map) k < unat n"
    using ahm_index_less [OF ahm_inv_new [of n], of k, where 'a = 'a] by (simp add: AtomicHashMap_new_def)
  then have "ahm_table (AtomicHashMap_new n :: 'a atomic_hash_map) !
      AtomicHashMap_index (AtomicHashMap_new n :: 'a atomic_hash_map) k = []"
    by (simp add: AtomicHashMap_new_def)
  then show "AtomicHashMap_Get (AtomicHashMap_new n) k = (None :: 'a option)"
    by (simp add: AtomicHashMap_Get_def)
qed

lemma ahm_Has_iff: "ahm_inv m \<Longrightarrow> AtomicHashMap_Has m k \<longleftrightarrow> AtomicHashMap_Get m k \<noteq> None"
  by (simp add: AtomicHashMap_Has_def AtomicHashMap_Get_def Bucket_Has_iff ahm_bucket_ok)

text \<open>
  C23: A hash map of any table size, filled by any sequence of \<open>Set\<close> calls, answers \<open>Get\<close> with
  the value of the last \<open>Set\<close> of that key (nothing when there was none), and \<open>Has\<close> exactly
  when there was one; collisions in a bucket never mix keys up.
\<close>

theorem AtomicHashMap_last_write:
  assumes "0 < n"
  shows "let m = fold (\<lambda>(k, v) m. AtomicHashMap_Set m k v) kvs (AtomicHashMap_new n) in
    AtomicHashMap_Get m key = map_of (rev kvs) key \<and>
    AtomicHashMap_Has m key = (key \<in> fst ` set kvs)"
proof -
  let ?run = "\<lambda>kvs. fold (\<lambda>(k, v) m. AtomicHashMap_Set m k v) kvs (AtomicHashMap_new n)"
  have inv: "ahm_inv (?run kvs)" for kvs
    by (induction kvs rule: rev_induct) (auto simp: ahm_inv_new [OF assms] ahm_inv_Set)
  have get: "AtomicHashMap_Get (?run kvs) key = map_of (rev kvs) key"
    by (induction kvs rule: rev_induct) (auto simp: ahm_Get_new [OF assms] ahm_Get_Set [OF inv])
  have "map_of (rev kvs) key = None \<longleftrightarrow> key \<notin> fst ` set kvs"
    by (simp add: map_of_eq_None_iff)
  with get inv show ?thesis
    by (simp add: Let_def ahm_Has_iff [OF inv])
qed

theorem AtomicHashMap_last_write_witness:
  "let m = fold (\<lambda>(k, v) m. AtomicHashMap_Set m k v) [(3, 10), (131, 11), (3, 12::nat)]
             (AtomicHashMap_new 128) in
     AtomicHashMap_Get m 3 = Some 12 \<and> AtomicHashMap_Has m 3"
  using AtomicHashMap_last_write [of 128 "[(3, 10), (131, 11), (3, 12::nat)]" 3]
  by (simp add: Let_def)

end
