(* ===== verification/DataBuffers.thy ===== *)
theory DataBuffers
  imports AtomicHashMap
begin

text \<open>
  The message buffers of \<^verbatim>\<open>cyber/data\<close>: \<open>CacheBuffer\<close> (a ring that keeps the newest messages),
  \<open>ChannelBuffer\<close> (reading it by index), \<open>DataVisitor\<close> (a reader that remembers its place),
  \<open>AllLatest\<close> (fusing a trigger message with the newest messages of other channels) and
  \<open>DataDispatcher\<close>/\<open>DataNotifier\<close> (fan-out to registered buffers and callbacks). Each operation
  runs under the buffer's mutex, so calls are atomic. Counters are 64-bit words. A buffer is
  related to the list of all messages it was ever filled with.
\<close>

section \<open>CacheBuffer\<close>

record 'a cache_buffer =
  cb_head :: u64
  cb_tail :: u64
  cb_capacity :: u64
  cb_buffer :: "'a list"
  cb_fusion_callback :: bool

text \<open>\<open>dflt\<close> is the default-constructed element that \<open>resize\<close> fills the vector with.\<close>

definition CacheBuffer_new :: "'a \<Rightarrow> u64 \<Rightarrow> 'a cache_buffer" where
  "CacheBuffer_new dflt sz = \<lparr>cb_head = 0, cb_tail = 0, cb_capacity = sz + 1,
     cb_buffer = replicate (unat (sz + 1)) dflt, cb_fusion_callback = False\<rparr>"

definition CacheBuffer_GetIndex :: "'a cache_buffer \<Rightarrow> u64 \<Rightarrow> u64" where
  "CacheBuffer_GetIndex b pos = pos mod cb_capacity b"

definition CacheBuffer_at :: "'a cache_buffer \<Rightarrow> u64 \<Rightarrow> 'a" where
  "CacheBuffer_at b pos = cb_buffer b ! unat (CacheBuffer_GetIndex b pos)"

abbreviation CacheBuffer_Head :: "'a cache_buffer \<Rightarrow> u64" where
  "CacheBuffer_Head b \<equiv> cb_head b + 1"

abbreviation CacheBuffer_Tail :: "'a cache_buffer \<Rightarrow> u64" where
  "CacheBuffer_Tail b \<equiv> cb_tail b"

abbreviation CacheBuffer_Size :: "'a cache_buffer \<Rightarrow> u64" where
  "CacheBuffer_Size b \<equiv> cb_tail b - cb_head b"

abbreviation CacheBuffer_Front :: "'a cache_buffer \<Rightarrow> 'a" where
  "CacheBuffer_Front b \<equiv> CacheBuffer_at b (cb_head b + 1)"

abbreviation CacheBuffer_Back :: "'a cache_buffer \<Rightarrow> 'a" where
  "CacheBuffer_Back b \<equiv> CacheBuffer_at b (cb_tail b)"

abbreviation CacheBuffer_Empty :: "'a cache_buffer \<Rightarrow> bool" where
  "CacheBuffer_Empty b \<equiv> cb_tail b = 0"

abbreviation CacheBuffer_Full :: "'a cache_buffer \<Rightarrow> bool" where
  "CacheBuffer_Full b \<equiv> cb_capacity b - 1 = cb_tail b - cb_head b"

abbreviation CacheBuffer_Capacity :: "'a cache_buffer \<Rightarrow> u64" where
  "CacheBuffer_Capacity b \<equiv> cb_capacity b"

abbreviation CacheBuffer_SetFusionCallback :: "'a cache_buffer \<Rightarrow> 'a cache_buffer" where
  "CacheBuffer_SetFusionCallback b \<equiv> b\<lparr>cb_fusion_callback := True\<rparr>"

text \<open>\<open>Fill\<close> hands the value to the fusion callback when one is set (\<^term>\<open>Inl\<close>) and stores it
  otherwise (\<^term>\<open>Inr\<close>).\<close>

definition CacheBuffer_Fill :: "'a cache_buffer \<Rightarrow> 'a \<Rightarrow> 'a + 'a cache_buffer" where
  "CacheBuffer_Fill b x =
     (if cb_fusion_callback b then Inl x
      else if CacheBuffer_Full b
      then Inr (b\<lparr>cb_buffer := (cb_buffer b)[unat (CacheBuffer_GetIndex b (cb_head b)) := x],
                  cb_head := cb_head b + 1, cb_tail := cb_tail b + 1\<rparr>)
      else Inr (b\<lparr>cb_buffer := (cb_buffer b)[unat (CacheBuffer_GetIndex b (cb_tail b + 1)) := x],
                  cb_tail := cb_tail b + 1\<rparr>))"

section \<open>ChannelBuffer\<close>

text \<open>\<open>Fetch\<close>: \<^term>\<open>None\<close> is a false return (the index is left alone).\<close>

definition ChannelBuffer_Fetch :: "'a cache_buffer \<Rightarrow> u64 \<Rightarrow> (u64 \<times> 'a) option" where
  "ChannelBuffer_Fetch b index =
     (if CacheBuffer_Empty b then None
      else if index = 0 then
        (let index' = CacheBuffer_Tail b in Some (index', CacheBuffer_at b index'))
      else if index = CacheBuffer_Tail b + 1 then None
      else if index < CacheBuffer_Head b then
        (let index' = CacheBuffer_Tail b in Some (index', CacheBuffer_at b index'))
      else Some (index, CacheBuffer_at b index))"

definition ChannelBuffer_Latest :: "'a cache_buffer \<Rightarrow> 'a option" where
  "ChannelBuffer_Latest b = (if CacheBuffer_Empty b then None else Some (CacheBuffer_Back b))"

definition ChannelBuffer_FetchMulti :: "'a cache_buffer \<Rightarrow> u64 \<Rightarrow> 'a list option" where
  "ChannelBuffer_FetchMulti b fetch_size =
     (if CacheBuffer_Empty b then None
      else let num = min (CacheBuffer_Size b) fetch_size in
           Some (map (\<lambda>index. CacheBuffer_at b (of_nat index))
                  [unat (CacheBuffer_Tail b - num + 1) ..< Suc (unat (CacheBuffer_Tail b))]))"

section \<open>DataVisitor on one channel\<close>

record 'a data_visitor =
  dv_next_msg_index :: u64
  dv_buffer :: "'a cache_buffer"

definition DataVisitor_new :: "'a \<Rightarrow> u32 \<Rightarrow> 'a data_visitor" where
  "DataVisitor_new dflt queue_size =
     \<lparr>dv_next_msg_index = 0, dv_buffer = CacheBuffer_new dflt (ucast queue_size)\<rparr>"

definition DataVisitor_TryFetch :: "'a data_visitor \<Rightarrow> (u64 \<times> 'a) option \<times> 'a data_visitor" where
  "DataVisitor_TryFetch v =
     (case ChannelBuffer_Fetch (dv_buffer v) (dv_next_msg_index v) of
        Some (index, m) \<Rightarrow> (Some (index, m), v\<lparr>dv_next_msg_index := index + 1\<rparr>)
      | None \<Rightarrow> (None, v))"

section \<open>AllLatest\<close>

text \<open>
  The state behind a fusion of four channels: the buffers of the three other channels and the
  buffer of fused tuples; the buffer of the trigger channel only forwards to the callback.
\<close>

record ('a, 'b, 'c, 'd) all_latest4 =
  al4_m1 :: "'b cache_buffer"
  al4_m2 :: "'c cache_buffer"
  al4_m3 :: "'d cache_buffer"
  al4_fusion :: "('a \<times> 'b \<times> 'c \<times> 'd) cache_buffer"

definition fill_plain :: "'a cache_buffer \<Rightarrow> 'a \<Rightarrow> 'a cache_buffer" where
  "fill_plain b x = (case CacheBuffer_Fill b x of Inl _ \<Rightarrow> b | Inr b' \<Rightarrow> b')"

definition AllLatest4_new ::
  "('a \<times> 'b \<times> 'c \<times> 'd) \<Rightarrow> 'a cache_buffer \<Rightarrow> 'b cache_buffer \<Rightarrow> 'c cache_buffer \<Rightarrow> 'd cache_buffer \<Rightarrow>
     'a cache_buffer \<times> ('a, 'b, 'c, 'd) all_latest4" where
  "AllLatest4_new dflt b0 b1 b2 b3 =
     (CacheBuffer_SetFusionCallback b0,
      \<lparr>al4_m1 = b1, al4_m2 = b2, al4_m3 = b3,
       al4_fusion = CacheBuffer_new dflt (CacheBuffer_Capacity b0 - 1)\<rparr>)"

definition AllLatest4_callback ::
  "('a, 'b, 'c, 'd) all_latest4 \<Rightarrow> 'a \<Rightarrow> ('a, 'b, 'c, 'd) all_latest4" where
  "AllLatest4_callback s m0 =
     (case (ChannelBuffer_Latest (al4_m1 s), ChannelBuffer_Latest (al4_m2 s), ChannelBuffer_Latest (al4_m3 s)) of
        (Some m1, Some m2, Some m3) \<Rightarrow> s\<lparr>al4_fusion := fill_plain (al4_fusion s) (m0, m1, m2, m3)\<rparr>
      | _ \<Rightarrow> s)"

definition AllLatest4_Fusion ::
  "('a, 'b, 'c, 'd) all_latest4 \<Rightarrow> u64 \<Rightarrow> (u64 \<times> 'a \<times> 'b \<times> 'c \<times> 'd) option" where
  "AllLatest4_Fusion s index = ChannelBuffer_Fetch (al4_fusion s) index"

record ('a, 'b, 'c) all_latest3 =
  al3_m1 :: "'b cache_buffer"
  al3_m2 :: "'c cache_buffer"
  al3_fusion :: "('a \<times> 'b \<times> 'c) cache_buffer"

definition AllLatest3_callback :: "('a, 'b, 'c) all_latest3 \<Rightarrow> 'a \<Rightarrow> ('a, 'b, 'c) all_latest3" where
  "AllLatest3_callback s m0 =
     (case (ChannelBuffer_Latest (al3_m1 s), ChannelBuffer_Latest (al3_m2 s)) of
        (Some m1, Some m2) \<Rightarrow> s\<lparr>al3_fusion := fill_plain (al3_fusion s) (m0, m1, m2)\<rparr>
      | _ \<Rightarrow> s)"

definition AllLatest3_Fusion :: "('a, 'b, 'c) all_latest3 \<Rightarrow> u64 \<Rightarrow> (u64 \<times> 'a \<times> 'b \<times> 'c) option" where
  "AllLatest3_Fusion s index = ChannelBuffer_Fetch (al3_fusion s) index"

record ('a, 'b) all_latest2 =
  al2_m1 :: "'b cache_buffer"
  al2_fusion :: "('a \<times> 'b) cache_buffer"

definition AllLatest2_callback :: "('a, 'b) all_latest2 \<Rightarrow> 'a \<Rightarrow> ('a, 'b) all_latest2" where
  "AllLatest2_callback s m0 =
     (case ChannelBuffer_Latest (al2_m1 s) of
        Some m1 \<Rightarrow> s\<lparr>al2_fusion := fill_plain (al2_fusion s) (m0, m1)\<rparr>
      | None \<Rightarrow> s)"

definition AllLatest2_Fusion :: "('a, 'b) all_latest2 \<Rightarrow> u64 \<Rightarrow> (u64 \<times> 'a \<times> 'b) option" where
  "AllLatest2_Fusion s index = ChannelBuffer_Fetch (al2_fusion s) index"

section \<open>DataNotifier and DataDispatcher\<close>

text \<open>
  Notifiers are identified by number; a notifier may be null or have no callback, which the
  predicate \<open>armed\<close> tells. \<open>Notify\<close> returns the callbacks it invoked, in order.
\<close>

type_synonym notifies_map = "nat list atomic_hash_map"

definition DataNotifier_AddNotifier :: "notifies_map \<Rightarrow> u64 \<Rightarrow> nat \<Rightarrow> notifies_map" where
  "DataNotifier_AddNotifier m channel_id notifier =
     append_to AtomicHashMap_Get AtomicHashMap_Set m channel_id notifier"

definition DataNotifier_Notify :: "(nat \<Rightarrow> bool) \<Rightarrow> notifies_map \<Rightarrow> u64 \<Rightarrow> bool \<times> nat list" where
  "DataNotifier_Notify armed m channel_id =
     (case AtomicHashMap_Get m channel_id of
        Some notifies \<Rightarrow> (True, filter armed notifies)
      | None \<Rightarrow> (False, []))"

text \<open>
  Buffers live in a heap; the dispatcher holds weak pointers, so a number without a buffer is
  an expired one. \<open>fuse\<close> is the effect of a buffer's fusion callback on the heap.
\<close>

type_synonym 'a buffers = "nat \<rightharpoonup> 'a cache_buffer"
type_synonym buffers_map = "nat list atomic_hash_map"

definition DataDispatcher_AddBuffer :: "buffers_map \<Rightarrow> u64 \<Rightarrow> nat \<Rightarrow> buffers_map" where
  "DataDispatcher_AddBuffer m channel_id buffer =
     append_to AtomicHashMap_Get AtomicHashMap_Set m channel_id buffer"

primrec dispatch_fill ::
  "(nat \<Rightarrow> 'a \<Rightarrow> 'a buffers \<Rightarrow> 'a buffers) \<Rightarrow> 'a \<Rightarrow> nat list \<Rightarrow> 'a buffers \<Rightarrow> 'a buffers" where
  "dispatch_fill fuse msg [] heap = heap"
| "dispatch_fill fuse msg (p # ps) heap =
     dispatch_fill fuse msg ps
       (case heap p of
          None \<Rightarrow> heap
        | Some b \<Rightarrow> (case CacheBuffer_Fill b msg of
                        Inl x \<Rightarrow> fuse p x heap
                      | Inr b' \<Rightarrow> heap(p \<mapsto> b')))"

definition DataDispatcher_Dispatch ::
  "bool \<Rightarrow> (nat \<Rightarrow> bool) \<Rightarrow> (nat \<Rightarrow> 'a \<Rightarrow> 'a buffers \<Rightarrow> 'a buffers) \<Rightarrow> buffers_map \<Rightarrow> notifies_map \<Rightarrow>
     'a buffers \<Rightarrow> u64 \<Rightarrow> 'a \<Rightarrow> bool \<times> nat list \<times> 'a buffers" where
  "DataDispatcher_Dispatch is_shutdown armed fuse bm nm heap channel_id msg =
     (if is_shutdown then (False, [], heap)
      else case AtomicHashMap_Get bm channel_id of
             None \<Rightarrow> (False, [], heap)
           | Some ps \<Rightarrow>
               (let heap' = dispatch_fill fuse msg ps heap in
                case DataNotifier_Notify armed nm channel_id of (r, called) \<Rightarrow> (r, called, heap')))"


section \<open>A buffer and the messages it was filled with\<close>

text \<open>
  The buffer of queue size \<open>sz\<close> after the messages \<open>hist\<close>: \<open>tail_\<close> counts them, \<open>head_\<close> lags by
  at most \<open>sz\<close>, and the slots of the newest \<open>sz + 1\<close> indices hold the messages of those numbers.
\<close>

definition cb_rel :: "nat \<Rightarrow> 'a list \<Rightarrow> 'a cache_buffer \<Rightarrow> bool" where
  "cb_rel sz hist b \<longleftrightarrow> \<not> cb_fusion_callback b \<and> length (cb_buffer b) = Suc sz \<and>
     unat (cb_capacity b) = Suc sz \<and> unat (cb_tail b) = length hist \<and>
     unat (cb_head b) = length hist - sz \<and>
     (\<forall>i. 1 \<le> i \<and> length hist - sz \<le> i \<and> i \<le> length hist \<longrightarrow>
        cb_buffer b ! (i mod Suc sz) = hist ! (i - 1))"

lemma unat_u64_add_1_bound: "n < 18446744073709551615 \<Longrightarrow> unat (w :: u64) = n \<Longrightarrow> unat (w + 1) = Suc n"
  by (simp add: unat_u64_add_1)

lemma cb_rel_new:
  assumes "unat sz < 18446744073709551615"
  shows "cb_rel (unat sz) [] (CacheBuffer_new dflt sz)"
  using assms by (simp add: cb_rel_def CacheBuffer_new_def unat_u64_add_1)

lemma cb_Full_iff:
  assumes "cb_rel sz hist b"
  shows "CacheBuffer_Full b \<longleftrightarrow> sz \<le> length hist"
proof -
  have "unat (cb_capacity b) = Suc sz" using assms by (simp add: cb_rel_def)
  moreover from this have "cb_capacity b \<noteq> 0" by auto
  ultimately have cap: "unat (cb_capacity b - 1) = sz"
    by (simp add: unat_minus_one)
  have "cb_head b \<le> cb_tail b"
    using assms by (simp add: cb_rel_def word_le_nat_alt)
  then have "unat (cb_tail b - cb_head b) = length hist - (length hist - sz)"
    using assms by (simp add: unat_sub cb_rel_def)
  with cap show ?thesis
    by (auto simp: u64_eq_iff_unat)
qed

lemma cb_slots_keep:
  assumes "\<forall>i. 1 \<le> i \<and> n - sz \<le> i \<and> i \<le> n \<longrightarrow> buf ! (i mod Suc sz) = hist ! (i - 1)"
    and "length buf = Suc sz" and "length hist = n"
    and "1 \<le> i" and "Suc n - sz \<le> i" and "i \<le> Suc n"
  shows "buf[Suc n mod Suc sz := x] ! (i mod Suc sz) = (hist @ [x]) ! (i - 1)"
proof (cases "i = Suc n")
  case True
  then show ?thesis using assms by (auto simp: nth_append)
next
  case False
  have "Suc n mod Suc sz \<noteq> i mod Suc sz"
    using assms False by (intro mod_window_neq [of _ _ "Suc n - sz"]) auto
  moreover have "i - 1 < n" using assms False by linarith
  ultimately show ?thesis using assms False by (simp add: nth_append)
qed

lemma cb_rel_fill:
  assumes "cb_rel sz hist b" and "length hist < 18446744073709551615"
  shows "\<exists>b'. CacheBuffer_Fill b x = Inr b' \<and> cb_rel sz (hist @ [x]) b'"
proof -
  note r = assms(1) [unfolded cb_rel_def]
  have t1: "unat (cb_tail b + 1) = Suc (length hist)"
    using r assms(2) by (intro unat_u64_add_1_bound) simp_all
  note keep = cb_slots_keep [of "length hist" sz "cb_buffer b" hist]
  show ?thesis
  proof (cases "sz \<le> length hist")
    case True
    have h1: "unat (cb_head b + 1) = Suc (length hist) - sz"
      using r assms(2) True by (simp add: unat_u64_add_1 Suc_diff_le)
    have idx: "(length hist - sz) mod Suc sz = Suc (length hist) mod Suc sz"
    proof -
      have "Suc (length hist) = (length hist - sz) + Suc sz" using True by simp
      then show ?thesis by (metis mod_add_self2)
    qed
    let ?b = "b\<lparr>cb_buffer := (cb_buffer b)[Suc (length hist) mod Suc sz := x],
                  cb_head := cb_head b + 1, cb_tail := cb_tail b + 1\<rparr>"
    have "CacheBuffer_Fill b x = Inr ?b"
      using r True cb_Full_iff [OF assms(1)] idx
      by (simp add: CacheBuffer_Fill_def CacheBuffer_GetIndex_def unat_mod_distrib)
    moreover have "cb_rel sz (hist @ [x]) ?b"
      using r t1 h1 keep by (simp add: cb_rel_def)
    ultimately show ?thesis by blast
  next
    case False
    let ?b = "b\<lparr>cb_buffer := (cb_buffer b)[Suc (length hist) mod Suc sz := x], cb_tail := cb_tail b + 1\<rparr>"
    have "CacheBuffer_Fill b x = Inr ?b"
      using r False cb_Full_iff [OF assms(1)] t1
      by (simp add: CacheBuffer_Fill_def CacheBuffer_GetIndex_def unat_mod_distrib)
    moreover have "cb_rel sz (hist @ [x]) ?b"
      using r t1 keep False by (simp add: cb_rel_def)
    ultimately show ?thesis by blast
  qed
qed

lemma cb_rel_fill_plain:
  "cb_rel sz hist b \<Longrightarrow> length hist < 18446744073709551615 \<Longrightarrow> cb_rel sz (hist @ [x]) (fill_plain b x)"
  using cb_rel_fill [of sz hist b x] by (auto simp: fill_plain_def)

lemma cb_at:
  assumes "cb_rel sz hist b" and "1 \<le> unat i" and "length hist - sz \<le> unat i" and "unat i \<le> length hist"
  shows "CacheBuffer_at b i = hist ! (unat i - 1)"
  using assms by (simp add: CacheBuffer_at_def CacheBuffer_GetIndex_def unat_mod_distrib cb_rel_def)

lemma cb_Empty_iff: "cb_rel sz hist b \<Longrightarrow> CacheBuffer_Empty b \<longleftrightarrow> hist = []"
  by (auto simp: cb_rel_def u64_eq_iff_unat)

lemma cb_at_tail:
  "cb_rel sz hist b \<Longrightarrow> hist \<noteq> [] \<Longrightarrow> CacheBuffer_at b (cb_tail b) = last hist"
  using cb_at [of sz hist b "cb_tail b"] by (cases hist) (auto simp: cb_rel_def last_conv_nth)

lemma cb_Latest:
  "cb_rel sz hist b \<Longrightarrow> ChannelBuffer_Latest b = (if hist = [] then None else Some (last hist))"
  by (simp add: ChannelBuffer_Latest_def cb_Empty_iff cb_at_tail)

text \<open>What \<open>Fetch\<close> returns, in terms of the messages.\<close>

lemma cb_Fetch:
  assumes rel: "cb_rel sz hist b" and len: "length hist < 18446744073709551615"
    and idx: "unat i \<le> Suc (length hist)"
  shows "ChannelBuffer_Fetch b i =
    (if hist = [] \<or> unat i = Suc (length hist) then None
     else if unat i = 0 \<or> unat i \<le> length hist - sz then Some (cb_tail b, last hist)
     else Some (i, hist ! (unat i - 1)))"
proof -
  have t1: "unat (cb_tail b + 1) = Suc (length hist)"
    using rel len by (intro unat_u64_add_1_bound) (simp_all add: cb_rel_def)
  have h1: "unat (cb_head b + 1) = Suc (length hist - sz)"
    using rel len by (intro unat_u64_add_1_bound) (simp_all add: cb_rel_def)
  have "i = cb_tail b + 1 \<longleftrightarrow> unat i = Suc (length hist)"
    using t1 by (simp add: u64_eq_iff_unat)
  moreover have "i = 0 \<longleftrightarrow> unat i = 0"
    by (simp add: unat_eq_zero)
  moreover have "i < CacheBuffer_Head b \<longleftrightarrow> unat i \<le> length hist - sz"
    using h1 by (simp add: word_less_nat_alt less_Suc_eq_le)
  moreover have "CacheBuffer_at b i = hist ! (unat i - 1)"
    if "unat i \<noteq> 0" "\<not> unat i \<le> length hist - sz" "unat i \<noteq> Suc (length hist)"
    using that idx by (intro cb_at [OF rel]) auto
  ultimately show ?thesis
    using cb_Empty_iff [OF rel] cb_at_tail [OF rel]
    by (auto simp: ChannelBuffer_Fetch_def Let_def)
qed

section \<open>Properties\<close>

subsection \<open>A visitor sees each message at most once, in order\<close>

datatype 'a dv_event = Publish 'a | Fetch_next

text \<open>Run a visitor against a sequence of publications and fetches; collect what it received.\<close>

primrec dv_run :: "'a dv_event list \<Rightarrow> 'a data_visitor \<Rightarrow> (u64 \<times> 'a) list" where
  "dv_run [] v = []"
| "dv_run (e # es) v =
     (case e of
        Publish x \<Rightarrow> dv_run es (v\<lparr>dv_buffer := fill_plain (dv_buffer v) x\<rparr>)
      | Fetch_next \<Rightarrow> (case DataVisitor_TryFetch v of
            (Some r, v') \<Rightarrow> r # dv_run es v'
          | (None, v') \<Rightarrow> dv_run es v'))"

primrec published :: "'a dv_event list \<Rightarrow> 'a list" where
  "published [] = []"
| "published (e # es) = (case e of Publish x \<Rightarrow> x # published es | Fetch_next \<Rightarrow> published es)"

lemma TryFetch_spec:
  assumes rel: "cb_rel sz hist (dv_buffer v)" and len: "length hist < 18446744073709551615"
    and idx: "unat (dv_next_msg_index v) \<le> Suc (length hist)"
  shows "case DataVisitor_TryFetch v of
      (None, v') \<Rightarrow> v' = v
    | (Some (i, m), v') \<Rightarrow> 1 \<le> unat i \<and> unat i \<le> length hist \<and> m = hist ! (unat i - 1) \<and>
        unat (dv_next_msg_index v) \<le> unat i \<and> unat (dv_next_msg_index v') = Suc (unat i) \<and>
        dv_buffer v' = dv_buffer v"
proof (cases "ChannelBuffer_Fetch (dv_buffer v) (dv_next_msg_index v)")
  case None
  then show ?thesis by (simp add: DataVisitor_TryFetch_def)
next
  case (Some r)
  obtain i m where r: "r = (i, m)" by (cases r)
  have t: "unat (cb_tail (dv_buffer v)) = length hist"
    using rel by (simp add: cb_rel_def)
  have im: "1 \<le> unat i" "unat i \<le> length hist" "m = hist ! (unat i - 1)"
      "unat (dv_next_msg_index v) \<le> unat i"
    using Some r cb_Fetch [OF rel len idx] idx t
    by (auto simp: last_conv_nth Suc_le_eq split: if_splits)
  then have "unat (i + 1) = Suc (unat i)"
    using len by (simp add: unat_u64_add_1)
  with Some r im show ?thesis by (simp add: DataVisitor_TryFetch_def)
qed

lemma dv_run_spec:
  assumes "cb_rel sz hist (dv_buffer v)" and "length hist + length es < 18446744073709551615"
    and "unat (dv_next_msg_index v) \<le> Suc (length hist)"
  shows "sorted_wrt (<) (map (\<lambda>r. unat (fst r)) (dv_run es v)) \<and>
    (\<forall>(i, m) \<in> set (dv_run es v). 1 \<le> unat i \<and> unat (dv_next_msg_index v) \<le> unat i \<and>
        unat i \<le> length (hist @ published es) \<and> m = (hist @ published es) ! (unat i - 1))"
  using assms
proof (induction es arbitrary: hist v)
  case Nil
  then show ?case by simp
next
  case (Cons e es)
  show ?case
  proof (cases e)
    case (Publish x)
    have "cb_rel sz (hist @ [x]) (dv_buffer (v\<lparr>dv_buffer := fill_plain (dv_buffer v) x\<rparr>))"
      using Cons.prems by (auto intro: cb_rel_fill_plain)
    then show ?thesis
      using Cons.IH [of "hist @ [x]" "v\<lparr>dv_buffer := fill_plain (dv_buffer v) x\<rparr>"] Cons.prems Publish
      by simp
  next
    case Fetch_next
    obtain r v' where f: "DataVisitor_TryFetch v = (r, v')" by (cases "DataVisitor_TryFetch v")
    note spec = TryFetch_spec [OF Cons.prems(1) _ Cons.prems(3), unfolded f]
    show ?thesis
    proof (cases r)
      case None
      then show ?thesis using spec Cons f Fetch_next by simp
    next
      case (Some p)
      obtain i m where p: "p = (i, m)" by (cases p)
      have s: "1 \<le> unat i" "unat i \<le> length hist" "m = hist ! (unat i - 1)"
          "unat (dv_next_msg_index v) \<le> unat i" "unat (dv_next_msg_index v') = Suc (unat i)"
          "dv_buffer v' = dv_buffer v"
        using spec Some p Cons.prems by simp_all
      have IH: "sorted_wrt (<) (map (\<lambda>r. unat (fst r)) (dv_run es v'))"
        and mem: "\<And>j n. (j, n) \<in> set (dv_run es v') \<Longrightarrow> Suc (unat i) \<le> unat j \<and>
            unat j \<le> length (hist @ published es) \<and> n = (hist @ published es) ! (unat j - 1)"
        using Cons.IH [of hist v'] Cons.prems s by auto
      have run: "dv_run (e # es) v = (i, m) # dv_run es v'" "published (e # es) = published es"
        using f Fetch_next Some p by simp_all
      have "m = (hist @ published es) ! (unat i - 1)"
        using s by (cases "unat i") (auto simp: nth_append)
      moreover have "\<forall>y \<in> set (dv_run es v'). unat i < unat (fst y)"
        using mem by (auto simp: Suc_le_eq)
      moreover have "\<forall>(j, n) \<in> set (dv_run es v'). 1 \<le> unat j \<and> unat (dv_next_msg_index v) \<le> unat j \<and>
          unat j \<le> length (hist @ published es) \<and> n = (hist @ published es) ! (unat j - 1)"
        using mem s(4) by fastforce
      ultimately show ?thesis
        using IH s(1,2,4) unfolding run by simp
    qed
  qed
qed



subsection \<open>Fusion uses the newest messages\<close>

datatype ('a, 'b, 'c, 'd) al_event = Msg0 'a | Msg1 'b | Msg2 'c | Msg3 'd

fun AllLatest4_event :: "('a, 'b, 'c, 'd) all_latest4 \<Rightarrow> ('a, 'b, 'c, 'd) al_event \<Rightarrow> ('a, 'b, 'c, 'd) all_latest4" where
  "AllLatest4_event s (Msg0 m) = AllLatest4_callback s m"
| "AllLatest4_event s (Msg1 m) = s\<lparr>al4_m1 := fill_plain (al4_m1 s) m\<rparr>"
| "AllLatest4_event s (Msg2 m) = s\<lparr>al4_m2 := fill_plain (al4_m2 s) m\<rparr>"
| "AllLatest4_event s (Msg3 m) = s\<lparr>al4_m3 := fill_plain (al4_m3 s) m\<rparr>"

text \<open>
  The intended meaning: scan the arrivals, remember the newest message of each other channel,
  and emit a tuple for each trigger message once every channel has one.
\<close>

fun fuse_spec ::
  "'b option \<Rightarrow> 'c option \<Rightarrow> 'd option \<Rightarrow> ('a, 'b, 'c, 'd) al_event list \<Rightarrow> ('a \<times> 'b \<times> 'c \<times> 'd) list" where
  "fuse_spec l1 l2 l3 [] = []"
| "fuse_spec l1 l2 l3 (Msg0 m # es) =
     (case (l1, l2, l3) of
        (Some m1, Some m2, Some m3) \<Rightarrow> (m, m1, m2, m3) # fuse_spec l1 l2 l3 es
      | _ \<Rightarrow> fuse_spec l1 l2 l3 es)"
| "fuse_spec l1 l2 l3 (Msg1 m # es) = fuse_spec (Some m) l2 l3 es"
| "fuse_spec l1 l2 l3 (Msg2 m # es) = fuse_spec l1 (Some m) l3 es"
| "fuse_spec l1 l2 l3 (Msg3 m # es) = fuse_spec l1 l2 (Some m) es"

definition newest :: "'x list \<Rightarrow> 'x option" where
  "newest xs = (if xs = [] then None else Some (last xs))"

lemma newest_snoc [simp]: "newest (xs @ [x]) = Some x"
  by (simp add: newest_def)

lemma AllLatest4_run:
  assumes "cb_rel z1 h1 (al4_m1 s)" and "cb_rel z2 h2 (al4_m2 s)" and "cb_rel z3 h3 (al4_m3 s)"
    and "cb_rel z h (al4_fusion s)"
    and "length h1 + length es < 18446744073709551615" and "length h2 + length es < 18446744073709551615"
    and "length h3 + length es < 18446744073709551615" and "length h + length es < 18446744073709551615"
  shows "cb_rel z (h @ fuse_spec (newest h1) (newest h2) (newest h3) es)
           (al4_fusion (foldl AllLatest4_event s es))"
  using assms
proof (induction es arbitrary: s h h1 h2 h3)
  case Nil
  then show ?case by simp
next
  case (Cons e es)
  show ?case
  proof (cases e)
    case (Msg0 m)
    show ?thesis
    proof (cases "h1 = [] \<or> h2 = [] \<or> h3 = []")
      case True
      then have "AllLatest4_callback s m = s"
        using Cons.prems by (auto simp: AllLatest4_callback_def cb_Latest split: option.splits)
      with True Msg0 Cons.IH [of h1 s h2 h3 h] Cons.prems show ?thesis
        by (auto simp: newest_def split: option.splits)
    next
      case False
      let ?d = "(m, last h1, last h2, last h3)"
      let ?s = "s\<lparr>al4_fusion := fill_plain (al4_fusion s) ?d\<rparr>"
      have "AllLatest4_callback s m = ?s"
        using Cons.prems False by (simp add: AllLatest4_callback_def cb_Latest)
      moreover have "cb_rel z (h @ [?d]) (al4_fusion ?s)"
        using Cons.prems by (simp add: cb_rel_fill_plain)
      ultimately show ?thesis
        using False Msg0 Cons.IH [of h1 ?s h2 h3 "h @ [?d]"] Cons.prems by (simp add: newest_def)
    qed
  next
    case (Msg1 m)
    then show ?thesis
      using Cons.IH [of "h1 @ [m]" "AllLatest4_event s e" h2 h3 h] Cons.prems by (simp add: cb_rel_fill_plain)
  next
    case (Msg2 m)
    then show ?thesis
      using Cons.IH [of h1 "AllLatest4_event s e" "h2 @ [m]" h3 h] Cons.prems by (simp add: cb_rel_fill_plain)
  next
    case (Msg3 m)
    then show ?thesis
      using Cons.IH [of h1 "AllLatest4_event s e" h2 "h3 @ [m]" h] Cons.prems by (simp add: cb_rel_fill_plain)
  qed
qed

text \<open>
  For any interleaving of arrivals on four channels, the fusion buffer of \<open>AllLatest\<close> holds
  exactly the tuples that pair each trigger message with the newest message of every other
  channel at that moment, starting with the first trigger for which all channels had one, and a
  first \<open>Fusion\<close> call returns the last such tuple.
\<close>

theorem AllLatest4_fuses_newest:
  fixes es :: "('a, 'b, 'c, 'd) al_event list"
  assumes "unat (cb_capacity b0 - 1) < 18446744073709551615" and "length es < 18446744073709551615"
    and "unat z1 < 18446744073709551615" and "unat z2 < 18446744073709551615" and "unat z3 < 18446744073709551615"
  shows "let s = foldl AllLatest4_event
                   (snd (AllLatest4_new dflt b0 (CacheBuffer_new d1 z1) (CacheBuffer_new d2 z2) (CacheBuffer_new d3 z3))) es;
             fused = fuse_spec None None None es in
    cb_rel (unat (cb_capacity b0 - 1)) fused (al4_fusion s) \<and>
    map_option snd (AllLatest4_Fusion s 0) = newest fused"
proof -
  let ?s0 = "snd (AllLatest4_new dflt b0 (CacheBuffer_new d1 z1) (CacheBuffer_new d2 z2) (CacheBuffer_new d3 z3))"
  let ?s = "foldl AllLatest4_event ?s0 es"
  have "cb_rel (unat (cb_capacity b0 - 1))
          ([] @ fuse_spec (newest []) (newest []) (newest []) es) (al4_fusion ?s)"
    using assms
    by (intro AllLatest4_run [of "unat z1" _ _ "unat z2" _ "unat z3"])
      (simp_all add: AllLatest4_new_def cb_rel_new)
  then have rel: "cb_rel (unat (cb_capacity b0 - 1)) (fuse_spec None None None es) (al4_fusion ?s)"
    by (simp add: newest_def)
  have "length (fuse_spec l1 l2 l3 es) \<le> length es" for l1 l2 l3 and es :: "('a, 'b, 'c, 'd) al_event list"
    by (induction l1 l2 l3 es rule: fuse_spec.induct) (auto split: option.splits simp: le_SucI)
  then have "length (fuse_spec None None None es) < 18446744073709551615"
    using assms(2) le_less_trans by blast
  from cb_Fetch [OF rel this, of 0] rel show ?thesis
    by (auto simp: Let_def AllLatest4_Fusion_def newest_def)
qed

theorem AllLatest4_fuses_newest_witness:
  "let s = foldl AllLatest4_event
             (snd (AllLatest4_new (0, 0, 0, 0) (CacheBuffer_new (0::nat) 2) (CacheBuffer_new (0::nat) 1)
                (CacheBuffer_new (0::nat) 1) (CacheBuffer_new (0::nat) 1)))
             [Msg0 1, Msg1 2, Msg2 3, Msg3 4, Msg0 5, Msg1 6, Msg0 7] in
   map_option snd (AllLatest4_Fusion s 0) = Some (7, 6, 3, 4)"
  using AllLatest4_fuses_newest [of "CacheBuffer_new (0::nat) 2" "[Msg0 1, Msg1 2, Msg2 3, Msg3 4, Msg0 5, Msg1 6, Msg0 7]"
      1 1 1 "(0::nat, 0::nat, 0::nat, 0::nat)" 0 0 0]
  by (simp add: Let_def CacheBuffer_new_def newest_def)

subsection \<open>Dispatch reaches the registered buffers\<close>

lemma dispatch_fill_plain:
  assumes "distinct ps" and "\<forall>p \<in> set ps. \<forall>b. heap p = Some b \<longrightarrow> \<not> cb_fusion_callback b"
  shows "dispatch_fill fuse msg ps heap p =
    (if p \<in> set ps then map_option (\<lambda>b. fill_plain b msg) (heap p) else heap p)"
  using assms
proof (induction ps arbitrary: heap)
  case Nil
  then show ?case by simp
next
  case (Cons q ps)
  let ?heap = "case heap q of None \<Rightarrow> heap
     | Some b \<Rightarrow> (case CacheBuffer_Fill b msg of Inl x \<Rightarrow> fuse q x heap | Inr b' \<Rightarrow> heap(q \<mapsto> b'))"
  have h: "?heap = (case heap q of None \<Rightarrow> heap | Some b \<Rightarrow> heap(q \<mapsto> fill_plain b msg))"
    using Cons.prems by (auto simp: fill_plain_def CacheBuffer_Fill_def split: option.splits)
  have "\<forall>p \<in> set ps. \<forall>b. ?heap p = Some b \<longrightarrow> \<not> cb_fusion_callback b"
    using Cons.prems by (auto simp: h split: option.splits)
  then show ?case
    using Cons.IH [of ?heap] Cons.prems by (auto simp: h split: option.splits)
qed

definition register_buffers :: "(u64 \<times> nat) list \<Rightarrow> buffers_map" where
  "register_buffers regs = fold (\<lambda>(c, p) m. DataDispatcher_AddBuffer m c p) regs (AtomicHashMap_new 128)"

definition register_notifiers :: "(u64 \<times> nat) list \<Rightarrow> notifies_map" where
  "register_notifiers regs = fold (\<lambda>(c, p) m. DataNotifier_AddNotifier m c p) regs (AtomicHashMap_new 128)"

lemma registered_entries:
  "entries AtomicHashMap_Get (register_buffers regs) c = map snd (filter (\<lambda>r. fst r = c) regs)"
  "entries AtomicHashMap_Get (register_notifiers regs) c = map snd (filter (\<lambda>r. fst r = c) regs)"
  using ahm_multi.entries_fold [OF ahm_inv_new [of 128], of regs c]
  by (simp_all add: register_buffers_def register_notifiers_def DataDispatcher_AddBuffer_def
      DataNotifier_AddNotifier_def entries_def ahm_Get_new)

lemma Get_entries:
  "entries AtomicHashMap_Get m c \<noteq> [] \<Longrightarrow> AtomicHashMap_Get m c = Some (entries AtomicHashMap_Get m c)"
  by (auto simp: entries_def split: option.splits)

text \<open>
  After buffers and notifiers were registered for channels, dispatching a message on a
  channel that has both stores it in every live buffer registered for that channel, leaves
  every other buffer alone, runs exactly the callbacks registered for the channel in
  registration order, and reports success.
\<close>

theorem DataDispatcher_delivers:
  assumes "distinct (map snd regs)"
    and "\<And>p b. heap p = Some b \<Longrightarrow> \<not> cb_fusion_callback b"
    and "c \<in> fst ` set regs" and "c \<in> fst ` set nregs"
  shows "DataDispatcher_Dispatch False armed fuse (register_buffers regs) (register_notifiers nregs) heap c msg
    = (True, filter armed (map snd (filter (\<lambda>r. fst r = c) nregs)),
       \<lambda>p. if (c, p) \<in> set regs then map_option (\<lambda>b. fill_plain b msg) (heap p) else heap p)"
proof -
  let ?ps = "map snd (filter (\<lambda>r. fst r = c) regs)" and ?ns = "map snd (filter (\<lambda>r. fst r = c) nregs)"
  have ne: "?ps \<noteq> []" "?ns \<noteq> []"
    using assms(3,4) by (force simp: filter_empty_conv)+
  have get: "AtomicHashMap_Get (register_buffers regs) c = Some ?ps"
      "AtomicHashMap_Get (register_notifiers nregs) c = Some ?ns"
    using Get_entries [of "register_buffers regs" c, unfolded registered_entries, OF ne(1)]
      Get_entries [of "register_notifiers nregs" c, unfolded registered_entries, OF ne(2)]
    by blast+
  have "distinct ?ps"
    using assms(1) by (rule distinct_map_filter)
  then have "dispatch_fill fuse msg ?ps heap =
      (\<lambda>p. if (c, p) \<in> set regs then map_option (\<lambda>b. fill_plain b msg) (heap p) else heap p)"
    using assms(2) by (intro ext) (subst dispatch_fill_plain, auto simp: image_iff)
  with get show ?thesis
    by (simp add: DataDispatcher_Dispatch_def DataNotifier_Notify_def)
qed

theorem DataDispatcher_delivers_witness:
  "DataDispatcher_Dispatch False (\<lambda>_. True) (\<lambda>_ _ h. h) (register_buffers [(7, 0), (9, 1), (7, 2)])
     (register_notifiers [(7, 5)]) [0 \<mapsto> CacheBuffer_new (0::nat) 3] 7 42
   = (True, [5], \<lambda>p. if (7, p) \<in> set [(7, 0), (9, 1), (7::u64, 2)]
        then map_option (\<lambda>b. fill_plain b 42) ([0 \<mapsto> CacheBuffer_new (0::nat) 3] p)
        else [0 \<mapsto> CacheBuffer_new (0::nat) 3] p)"
  by (subst DataDispatcher_delivers) (auto simp: CacheBuffer_new_def split: if_splits)

end
