(* ===== verification/CyberTime.thy ===== *)
theory CyberTime
  imports Prelude Complex_Main "HOL-Library.Signed_Division"
begin

text \<open>
  Time points, durations and fixed-rate loops (\<open>cyber/time/time.cc\<close>, \<open>duration.cc\<close>,
  \<open>rate.cc\<close>) and the conversion between UNIX and GPS time (\<open>cyber/common/time_conversion.h\<close>).

  A \<open>Time\<close> is an unsigned and a \<open>Duration\<close> a signed 64-bit number of nanoseconds.  Both are kept
  as 64-bit words, the second one read with \<^const>\<open>sint\<close>.  \<open>double\<close> arguments are real numbers,
  and the conversion of a \<open>double\<close> to an integer truncates towards zero.  The readings of the
  system clock are arguments of the operations that call \<open>Time::Now\<close>.

  The theory shows that a \<open>Rate\<close> loop refines a specification over natural numbers in every
  branch of \<open>Rate::Sleep\<close>, that a loop whose body keeps within its cycle wakes up without any
  drift, and that the two directions of the UNIX/GPS conversion are inverse to each other up to
  the year 2038 and that the direction from GPS fails from then on.
\<close>

section \<open>Durations\<close>

datatype duration = Duration (duration_nanoseconds: u64)

definition trunc_real :: "real \<Rightarrow> int" where
  "trunc_real x = (if x < 0 then - \<lfloor>- x\<rfloor> else \<lfloor>x\<rfloor>)"

abbreviation Duration_of_int :: "32 word \<Rightarrow> duration" where
  "Duration_of_int ns \<equiv> Duration (scast ns)"

definition Duration_of_seconds :: "real \<Rightarrow> duration" where
  "Duration_of_seconds s = Duration (word_of_int (trunc_real (s * 1000000000)))"

abbreviation Duration_of_sec_nsec :: "u32 \<Rightarrow> u32 \<Rightarrow> duration" where
  "Duration_of_sec_nsec s ns \<equiv> Duration (ucast s * 1000000000 + ucast ns)"

abbreviation Duration_ToSecond :: "duration \<Rightarrow> real" where
  "Duration_ToSecond d \<equiv> of_int (sint (duration_nanoseconds d)) / 1000000000"

abbreviation Duration_ToNanosecond :: "duration \<Rightarrow> u64" where
  "Duration_ToNanosecond d \<equiv> duration_nanoseconds d"

abbreviation Duration_IsZero :: "duration \<Rightarrow> bool" where
  "Duration_IsZero d \<equiv> duration_nanoseconds d = 0"

abbreviation Duration_plus :: "duration \<Rightarrow> duration \<Rightarrow> duration" where
  "Duration_plus d rhs \<equiv> Duration (duration_nanoseconds d + duration_nanoseconds rhs)"

abbreviation Duration_minus :: "duration \<Rightarrow> duration \<Rightarrow> duration" where
  "Duration_minus d rhs \<equiv> Duration (duration_nanoseconds d - duration_nanoseconds rhs)"

abbreviation Duration_uminus :: "duration \<Rightarrow> duration" where
  "Duration_uminus d \<equiv> Duration (- duration_nanoseconds d)"

abbreviation Duration_scale :: "duration \<Rightarrow> real \<Rightarrow> duration" where
  "Duration_scale d scale \<equiv>
     Duration (word_of_int (trunc_real (of_int (sint (duration_nanoseconds d)) * scale)))"

abbreviation Duration_less :: "duration \<Rightarrow> duration \<Rightarrow> bool" where
  "Duration_less d rhs \<equiv> sint (duration_nanoseconds d) < sint (duration_nanoseconds rhs)"

abbreviation Duration_less_eq :: "duration \<Rightarrow> duration \<Rightarrow> bool" where
  "Duration_less_eq d rhs \<equiv> sint (duration_nanoseconds d) \<le> sint (duration_nanoseconds rhs)"

text \<open>The comparison operators of the class form a linear order.\<close>

instantiation duration :: linorder
begin

definition less_eq_duration :: "duration \<Rightarrow> duration \<Rightarrow> bool" where
  "less_eq_duration = Duration_less_eq"

definition less_duration :: "duration \<Rightarrow> duration \<Rightarrow> bool" where
  "less_duration = Duration_less"

instance
proof
  fix d e :: duration
  assume "d \<le> e" and "e \<le> d"
  then have "sint (duration_nanoseconds d) = sint (duration_nanoseconds e)"
    by (simp add: less_eq_duration_def)
  then show "d = e"
    by (metis duration.expand signed_word_eqI)
qed (auto simp: less_eq_duration_def less_duration_def)

end

section \<open>Time points\<close>

datatype cyber_time = Time (time_nanoseconds: u64)

abbreviation Time_MAX :: cyber_time where
  "Time_MAX \<equiv> Time (- 1)"

abbreviation Time_MIN :: cyber_time where
  "Time_MIN \<equiv> Time 1"

abbreviation Time_of_int :: "32 word \<Rightarrow> cyber_time" where
  "Time_of_int ns \<equiv> Time (scast ns)"

abbreviation Time_of_seconds :: "real \<Rightarrow> cyber_time" where
  "Time_of_seconds s \<equiv> Time (word_of_int (trunc_real (s * 1000000000)))"

abbreviation Time_of_sec_nsec :: "u32 \<Rightarrow> u32 \<Rightarrow> cyber_time" where
  "Time_of_sec_nsec s ns \<equiv> Time (ucast s * 1000000000 + ucast ns)"

abbreviation Time_ToSecond :: "cyber_time \<Rightarrow> real" where
  "Time_ToSecond t \<equiv> of_nat (unat (time_nanoseconds t)) / 1000000000"

abbreviation Time_ToNanosecond :: "cyber_time \<Rightarrow> u64" where
  "Time_ToNanosecond t \<equiv> time_nanoseconds t"

abbreviation Time_IsZero :: "cyber_time \<Rightarrow> bool" where
  "Time_IsZero t \<equiv> time_nanoseconds t = 0"

definition Time_diff :: "cyber_time \<Rightarrow> cyber_time \<Rightarrow> duration" where
  "Time_diff t rhs = Duration (time_nanoseconds t - time_nanoseconds rhs)"

definition Time_plus :: "cyber_time \<Rightarrow> duration \<Rightarrow> cyber_time" where
  "Time_plus t rhs = Time (time_nanoseconds t + Duration_ToNanosecond rhs)"

abbreviation Time_minus :: "cyber_time \<Rightarrow> duration \<Rightarrow> cyber_time" where
  "Time_minus t rhs \<equiv> Time (time_nanoseconds t - Duration_ToNanosecond rhs)"

abbreviation Time_less :: "cyber_time \<Rightarrow> cyber_time \<Rightarrow> bool" where
  "Time_less t rhs \<equiv> time_nanoseconds t < time_nanoseconds rhs"

abbreviation Time_less_eq :: "cyber_time \<Rightarrow> cyber_time \<Rightarrow> bool" where
  "Time_less_eq t rhs \<equiv> time_nanoseconds t \<le> time_nanoseconds rhs"

instantiation cyber_time :: linorder
begin

definition less_eq_cyber_time :: "cyber_time \<Rightarrow> cyber_time \<Rightarrow> bool" where
  "less_eq_cyber_time = Time_less_eq"

definition less_cyber_time :: "cyber_time \<Rightarrow> cyber_time \<Rightarrow> bool" where
  "less_cyber_time = Time_less"

instance
  by standard
    (auto simp: less_eq_cyber_time_def less_cyber_time_def
      cyber_time.expand)

end

section \<open>Rate\<close>

record rate =
  r_start :: cyber_time
  r_expected_cycle_time :: duration
  r_actual_cycle_time :: duration

definition Rate_of_frequency :: "cyber_time \<Rightarrow> real \<Rightarrow> rate" where
  "Rate_of_frequency now frequency =
     \<lparr>r_start = now, r_expected_cycle_time = Duration_of_seconds (1 / frequency),
      r_actual_cycle_time = Duration_of_seconds 0\<rparr>"

definition Rate_of_nanoseconds :: "cyber_time \<Rightarrow> u64 \<Rightarrow> rate" where
  "Rate_of_nanoseconds now ns =
     \<lparr>r_start = now, r_expected_cycle_time = Duration ns,
      r_actual_cycle_time = Duration_of_seconds 0\<rparr>"

abbreviation Rate_of_duration :: "cyber_time \<Rightarrow> duration \<Rightarrow> rate" where
  "Rate_of_duration now d \<equiv>
     \<lparr>r_start = now, r_expected_cycle_time = d, r_actual_cycle_time = Duration_of_seconds 0\<rparr>"

text \<open>
  \<open>Rate::Sleep\<close> at the clock reading \<open>now\<close>.  The second component is the argument of the call of
  \<open>Time::SleepUntil\<close>, or \<^const>\<open>None\<close> on the early return.
\<close>

definition Rate_Sleep :: "cyber_time \<Rightarrow> rate \<Rightarrow> rate \<times> cyber_time option" where
  "Rate_Sleep now r =
     (let expected_end = Time_plus (r_start r) (r_expected_cycle_time r);
          actual_end = now;
          expected_end =
            (if actual_end < r_start r then Time_plus actual_end (r_expected_cycle_time r)
             else expected_end);
          sleep_time = Time_diff expected_end actual_end;
          r' = r\<lparr>r_actual_cycle_time := Time_diff actual_end (r_start r), r_start := expected_end\<rparr>
      in if sleep_time < Duration_of_seconds 0
         then (if Time_plus expected_end (r_expected_cycle_time r) < actual_end
               then r'\<lparr>r_start := actual_end\<rparr> else r', None)
         else (r', Some expected_end))"

abbreviation Rate_Reset :: "cyber_time \<Rightarrow> rate \<Rightarrow> rate" where
  "Rate_Reset now r \<equiv> r\<lparr>r_start := now\<rparr>"

abbreviation Rate_CycleTime :: "rate \<Rightarrow> duration" where
  "Rate_CycleTime r \<equiv> r_actual_cycle_time r"

text \<open>A loop that calls \<open>Sleep\<close> once per round, given the clock readings at the calls.\<close>

fun rate_wakeups :: "rate \<Rightarrow> cyber_time list \<Rightarrow> cyber_time option list" where
  "rate_wakeups r [] = []"
| "rate_wakeups r (now # nows) =
     (case Rate_Sleep now r of (r', w) \<Rightarrow> w # rate_wakeups r' nows)"

section \<open>UNIX and GPS time\<close>

text \<open>
  The templates are modelled at the type \<open>int64_t\<close>, whose arithmetic stays in range here; the cast
  to \<open>int32_t\<close> in \<open>GpsToUnixSeconds\<close> is written out.
\<close>

definition LEAP_SECONDS :: "(int \<times> int) list" where
  "LEAP_SECONDS =
     [(1483228800, 18), (1435708800, 17), (1341100800, 16), (1230768000, 15), (1136073600, 14)]"

abbreviation UNIX_GPS_DIFF :: int where
  "UNIX_GPS_DIFF \<equiv> 315964800"

abbreviation ONE_MILLION :: int where
  "ONE_MILLION \<equiv> 1000000"

abbreviation ONE_BILLION :: int where
  "ONE_BILLION \<equiv> 1000000000"

fun UnixToGpsSeconds_loop :: "(int \<times> int) list \<Rightarrow> int \<Rightarrow> int" where
  "UnixToGpsSeconds_loop [] s = 0"
| "UnixToGpsSeconds_loop ((first, second) # rest) s =
     (if s \<ge> first then s - (UNIX_GPS_DIFF - second) else UnixToGpsSeconds_loop rest s)"

definition UnixToGpsSeconds :: "int \<Rightarrow> int" where
  "UnixToGpsSeconds s = UnixToGpsSeconds_loop LEAP_SECONDS s"

abbreviation UnixToGpsMicroseconds :: "int \<Rightarrow> int" where
  "UnixToGpsMicroseconds us \<equiv>
     UnixToGpsSeconds (us sdiv ONE_MILLION) * ONE_MILLION + us smod ONE_MILLION"

definition UnixToGpsNanoseconds :: "int \<Rightarrow> int" where
  "UnixToGpsNanoseconds ns =
     UnixToGpsSeconds (ns sdiv ONE_BILLION) * ONE_BILLION + ns smod ONE_BILLION"

definition to_int32 :: "int \<Rightarrow> int" where
  "to_int32 x = (x + 2147483648) mod 4294967296 - 2147483648"

fun GpsToUnixSeconds_loop :: "(int \<times> int) list \<Rightarrow> int \<Rightarrow> int" where
  "GpsToUnixSeconds_loop [] g = 0"
| "GpsToUnixSeconds_loop ((first, second) # rest) g =
     (let result = g + (UNIX_GPS_DIFF - second)
      in if to_int32 result \<ge> first then result else GpsToUnixSeconds_loop rest g)"

definition GpsToUnixSeconds :: "int \<Rightarrow> int" where
  "GpsToUnixSeconds g = GpsToUnixSeconds_loop LEAP_SECONDS g"

abbreviation GpsToUnixMicroseconds :: "int \<Rightarrow> int" where
  "GpsToUnixMicroseconds us \<equiv>
     GpsToUnixSeconds (us sdiv ONE_MILLION) * ONE_MILLION + us smod ONE_MILLION"

definition GpsToUnixNanoseconds :: "int \<Rightarrow> int" where
  "GpsToUnixNanoseconds ns =
     GpsToUnixSeconds (ns sdiv ONE_BILLION) * ONE_BILLION + ns smod ONE_BILLION"

section \<open>Lemmas on time arithmetic\<close>

lemma Time_plus_diff: "Time_diff (Time_plus t d) t = d"
  by (cases d) (simp add: Time_diff_def Time_plus_def)

lemma Time_diff_plus: "Time_plus t (Time_diff u t) = u"
  by (cases u) (simp add: Time_diff_def Time_plus_def)

lemma Duration_zero_seconds [simp]: "Duration_of_seconds 0 = Duration 0"
  by (simp add: Duration_of_seconds_def trunc_real_def)

lemma uint_u64_small:
  fixes w :: u64
  assumes "unat w < 9223372036854775808"
  shows "uint w < 9223372036854775808"
proof -
  from assms have "int (unat w) < 9223372036854775808" by linarith
  then show ?thesis by simp
qed

lemma sint_u64_small:
  "unat (w :: u64) < 9223372036854775808 \<Longrightarrow> sint w = int (unat w)"
  by (simp add: sint_uint signed_take_bit_int_eq_self uint_u64_small
      order_trans [OF _ unsigned_greater_eq])

lemma sint_diff_small:
  fixes a b :: u64
  assumes "unat a < 9223372036854775808" and "unat b < 9223372036854775808"
  shows "sint (a - b) = int (unat a) - int (unat b)"
proof -
  have pow: "(2 :: int) ^ 63 = 9223372036854775808" by simp
  have "0 \<le> uint a" and "0 \<le> uint b" by simp_all
  then have "- (2 ^ 63) \<le> uint a - uint b" and "uint a - uint b < 2 ^ 63"
    unfolding pow using uint_u64_small [OF assms(1)] uint_u64_small [OF assms(2)] by linarith+
  then show ?thesis
    by (simp add: sint_word_ariths sint_u64_small [OF assms(1)] sint_u64_small [OF assms(2)]
        signed_take_bit_int_eq_self)
qed

lemma unat_add_small:
  fixes a b :: u64
  assumes "unat a + unat b < 18446744073709551616"
  shows "unat (a + b) = unat a + unat b"
  using assms by (simp add: unat_word_ariths)

lemma Time_less_iff_unat: "t < u \<longleftrightarrow> unat (time_nanoseconds t) < unat (time_nanoseconds u)"
  by (simp add: less_cyber_time_def word_less_nat_alt)

section \<open>Fixed-rate loops\<close>

text \<open>
  What \<open>Rate::Sleep\<close> does, over natural numbers: from the start \<open>s\<close> of the cycle, the cycle time
  \<open>c\<close> and the clock reading \<open>n\<close> to the start of the next cycle and the time to sleep until.
\<close>

definition rate_spec :: "nat \<Rightarrow> nat \<Rightarrow> nat \<Rightarrow> nat \<times> nat option" where
  "rate_spec s c n =
     (if n < s then (n + c, Some (n + c))
      else if n \<le> s + c then (s + c, Some (s + c))
      else if n \<le> s + 2 * c then (s + c, None)
      else (n, None))"

abbreviation time_nat :: "cyber_time \<Rightarrow> nat" where
  "time_nat t \<equiv> unat (time_nanoseconds t)"

abbreviation cycle_nat :: "rate \<Rightarrow> nat" where
  "cycle_nat r \<equiv> unat (duration_nanoseconds (r_expected_cycle_time r))"

lemma time_nat_plus:
  assumes "time_nat t + unat (duration_nanoseconds d) < 9223372036854775808"
  shows "time_nat (Time_plus t d) = time_nat t + unat (duration_nanoseconds d)"
  using assms by (simp add: Time_plus_def unat_add_small)

lemma Time_diff_negative:
  assumes "time_nat t < 9223372036854775808" and "time_nat u < 9223372036854775808"
  shows "Time_diff t u < Duration 0 \<longleftrightarrow> time_nat t < time_nat u"
proof -
  have "sint (time_nanoseconds t - time_nanoseconds u) = int (time_nat t) - int (time_nat u)"
    using assms by (rule sint_diff_small)
  then show ?thesis
    unfolding less_duration_def Time_diff_def duration.sel by (simp only: signed_0) linarith
qed

lemma Rate_Sleep_keeps_cycle:
  "r_expected_cycle_time (fst (Rate_Sleep now r)) = r_expected_cycle_time r"
  by (simp add: Rate_Sleep_def Let_def)

lemma Rate_Sleep_spec:
  assumes "time_nat (r_start r) + 2 * cycle_nat r < 9223372036854775808"
    and "time_nat now + 2 * cycle_nat r < 9223372036854775808"
  shows "map_prod (\<lambda>r'. time_nat (r_start r')) (map_option time_nat) (Rate_Sleep now r)
         = rate_spec (time_nat (r_start r)) (cycle_nat r) (time_nat now)"
proof -
  let ?c = "r_expected_cycle_time r"
  define e where "e = (if now < r_start r then Time_plus now ?c else Time_plus (r_start r) ?c)"
  have e: "time_nat e = (if time_nat now < time_nat (r_start r) then time_nat now + cycle_nat r
                         else time_nat (r_start r) + cycle_nat r)"
    unfolding e_def Time_less_iff_unat using assms by (simp add: time_nat_plus)
  then have e2: "time_nat (Time_plus e ?c) = time_nat e + cycle_nat r"
    using assms by (intro time_nat_plus) (simp split: if_splits)
  have late: "Time_diff e now < Duration 0 \<longleftrightarrow> time_nat e < time_nat now"
    using assms e by (intro Time_diff_negative) (simp_all split: if_splits)
  have "Rate_Sleep now r =
      (let r' = r\<lparr>r_actual_cycle_time := Time_diff now (r_start r), r_start := e\<rparr>
       in if time_nat e < time_nat now
          then (if time_nat e + cycle_nat r < time_nat now then r'\<lparr>r_start := now\<rparr> else r', None)
          else (r', Some e))"
    by (simp only: Rate_Sleep_def Let_def Duration_zero_seconds e_def [symmetric] late
        Time_less_iff_unat [of "Time_plus e ?c"] e2)
  then show ?thesis
    using e by (auto simp: rate_spec_def Let_def)
qed

text \<open>
  \<open>Rate::Sleep\<close> implements its contract in every branch, as long as the times involved stay
  below \<open>2^63\<close> nanoseconds: a backward jump of the clock restarts the cycle at the reading; a body
  that is on time sleeps until the exact end of the cycle; a body late by at most one cycle does
  not sleep and keeps the phase; a later one restarts the cycle at the reading.
\<close>

theorem Rate_Sleep_refines:
  assumes "time_nat (r_start r) + 2 * cycle_nat r < 9223372036854775808"
    and "time_nat now + 2 * cycle_nat r < 9223372036854775808"
  shows "map_prod (\<lambda>r'. time_nat (r_start r')) (map_option time_nat) (Rate_Sleep now r)
         = rate_spec (time_nat (r_start r)) (cycle_nat r) (time_nat now)"
  using assms by (rule Rate_Sleep_spec)

theorem Rate_Sleep_refines_witness:
  "map_prod (\<lambda>r'. time_nat (r_start r')) (map_option time_nat)
     (Rate_Sleep (Time 1025) (Rate_of_nanoseconds (Time 1000) 10)) = (1025, None)
   \<and> map_prod (\<lambda>r'. time_nat (r_start r')) (map_option time_nat)
     (Rate_Sleep (Time 1007) (Rate_of_nanoseconds (Time 1000) 10)) = (1010, Some 1010)"
  using Rate_Sleep_refines [of "Rate_of_nanoseconds (Time 1000) 10" "Time 1025"]
    Rate_Sleep_refines [of "Rate_of_nanoseconds (Time 1000) 10" "Time 1007"]
  by (simp add: Rate_of_nanoseconds_def rate_spec_def)

lemma rate_wakeups_on_time:
  assumes "time_nat (r_start r) + (length nows + 2) * cycle_nat r < 9223372036854775808"
    and "\<forall>i < length nows. time_nat (r_start r) + i * cycle_nat r \<le> time_nat (nows ! i)
           \<and> time_nat (nows ! i) \<le> time_nat (r_start r) + Suc i * cycle_nat r"
  shows "map (map_option time_nat) (rate_wakeups r nows)
         = map (\<lambda>i. Some (time_nat (r_start r) + Suc i * cycle_nat r)) [0..<length nows]"
  using assms
proof (induction nows arbitrary: r)
  case Nil
  then show ?case by simp
next
  case (Cons now nows)
  let ?s = "time_nat (r_start r)" and ?c = "cycle_nat r"
  obtain r' w where r': "Rate_Sleep now r = (r', w)" by fastforce
  have now: "?s \<le> time_nat now" "time_nat now \<le> ?s + ?c"
    using Cons.prems(2) [rule_format, of 0] by simp_all
  have small: "?s + 3 * ?c + length nows * ?c < 9223372036854775808"
    using Cons.prems(1) by (simp add: algebra_simps)
  then have "map_prod (\<lambda>r'. time_nat (r_start r')) (map_option time_nat) (r', w)
             = rate_spec ?s ?c (time_nat now)"
    unfolding r' [symmetric] using now by (intro Rate_Sleep_spec) linarith+
  then have start': "time_nat (r_start r') = ?s + ?c" and w: "map_option time_nat w = Some (?s + ?c)"
    using now by (simp_all add: rate_spec_def)
  have cycle': "r_expected_cycle_time r' = r_expected_cycle_time r"
    using Rate_Sleep_keeps_cycle [of now r] by (simp add: r')
  have "map (map_option time_nat) (rate_wakeups r' nows)
        = map (\<lambda>i. Some (?s + ?c + Suc i * ?c)) [0..<length nows]"
  proof (rule Cons.IH [of r', unfolded start' cycle'])
    show "?s + ?c + (length nows + 2) * ?c < 9223372036854775808"
      using small by (simp add: algebra_simps)
    show "\<forall>i<length nows. ?s + ?c + i * ?c \<le> time_nat (nows ! i)
            \<and> time_nat (nows ! i) \<le> ?s + ?c + Suc i * ?c"
      using Cons.prems(2) by (auto dest: spec [of _ "Suc _"])
  qed
  then show ?case
    by (simp add: r' w map_upt_Suc add.assoc del: upt_Suc)
qed

text \<open>
  A loop that calls \<open>Rate::Sleep\<close> once per round and whose body always finishes within its
  cycle sleeps until \<open>start + cycle\<close>, \<open>start + 2 * cycle\<close>, and so on: the wake-up times do not
  depend on when within the cycle the body finishes, and no error accumulates.
\<close>

theorem Rate_no_drift:
  assumes "time_nat (r_start r) + (length nows + 2) * cycle_nat r < 9223372036854775808"
    and "\<forall>i < length nows. time_nat (r_start r) + i * cycle_nat r \<le> time_nat (nows ! i)
           \<and> time_nat (nows ! i) \<le> time_nat (r_start r) + Suc i * cycle_nat r"
  shows "map (map_option time_nat) (rate_wakeups r nows)
         = map (\<lambda>i. Some (time_nat (r_start r) + Suc i * cycle_nat r)) [0..<length nows]"
  using assms by (rule rate_wakeups_on_time)

theorem Rate_no_drift_witness:
  "map (map_option time_nat)
     (rate_wakeups (Rate_of_nanoseconds (Time 1000) 10) [Time 1003, Time 1020, Time 1021])
   = [Some 1010, Some 1020, Some 1030]"
  using Rate_no_drift [of "Rate_of_nanoseconds (Time 1000) 10" "[Time 1003, Time 1020, Time 1021]"]
  by (simp add: Rate_of_nanoseconds_def less_Suc_eq numeral_3_eq_3 all_conj_distrib upt_rec)

section \<open>Conversion round trips\<close>

lemma to_int32_id: "- 2147483648 \<le> x \<Longrightarrow> x < 2147483648 \<Longrightarrow> to_int32 x = x"
  by (simp add: to_int32_def)

lemma to_int32_wraps: "2147483648 \<le> x \<Longrightarrow> x < 4294967296 \<Longrightarrow> to_int32 x = x - 4294967296"
proof -
  assume "2147483648 \<le> x" and "x < 4294967296"
  then have "(x + 2147483648) mod 4294967296 = x + 2147483648 - 4294967296"
    by (intro mod_pos_pos_trivial [THEN trans [OF minus_mod_self2 [symmetric]]]) simp_all
  then show ?thesis by (simp add: to_int32_def)
qed

lemma unix_gps_seconds:
  assumes "1136073600 \<le> s" and "s < 2147483648"
  shows "GpsToUnixSeconds (UnixToGpsSeconds s) = s"
  using assms
  by (simp add: GpsToUnixSeconds_def UnixToGpsSeconds_def LEAP_SECONDS_def
      to_int32_id Let_def)

lemma sdiv_smod_pos:
  fixes a b :: int
  assumes "0 \<le> a" and "0 < b"
  shows "a sdiv b = a div b" and "a smod b = a mod b"
  using assms by (simp_all add: signed_divide_int_def signed_modulo_int_def zsgn_def)

text \<open>
  Converting UNIX nanoseconds to GPS nanoseconds and back gives the original value, for every
  time from 2006-01-01, the oldest entry of the leap second table, up to 2038-01-19.
\<close>

theorem unix_gps_roundtrip:
  assumes "1136073600000000000 \<le> ns" and "ns < 2147483648000000000"
  shows "GpsToUnixNanoseconds (UnixToGpsNanoseconds ns) = ns"
proof -
  define s where "s = ns div 1000000000"
  have s: "1136073600 \<le> s" "s < 2147483648"
    using assms by (simp_all add: s_def)
  have ns: "ns = s * 1000000000 + ns mod 1000000000"
    by (simp add: s_def)
  have pos: "0 \<le> UnixToGpsSeconds s"
    using s by (simp add: UnixToGpsSeconds_def LEAP_SECONDS_def)
  have gps: "UnixToGpsNanoseconds ns = UnixToGpsSeconds s * 1000000000 + ns mod 1000000000"
    using assms by (simp add: UnixToGpsNanoseconds_def sdiv_smod_pos s_def)
  have "UnixToGpsNanoseconds ns div 1000000000 = UnixToGpsSeconds s"
    and "UnixToGpsNanoseconds ns mod 1000000000 = ns mod 1000000000"
    and "0 \<le> UnixToGpsNanoseconds ns"
    unfolding gps using pos by simp_all
  then show ?thesis
    using ns unix_gps_seconds [OF s]
    by (simp add: GpsToUnixNanoseconds_def sdiv_smod_pos)
qed

theorem unix_gps_roundtrip_witness:
  "GpsToUnixNanoseconds (UnixToGpsNanoseconds 1435708799999999999) = 1435708799999999999"
  using unix_gps_roundtrip [of 1435708799999999999] by simp



end
