(* ===== verification/TimingWheel.thy ===== *)
theory TimingWheel
  imports Prelude
begin

text \<open>
  Timers (\<open>cyber/timer/timer.cc\<close>, \<open>timing_wheel.cc\<close>, \<open>timing_wheel.h\<close>, \<open>timer_bucket.h\<close>,
  \<open>timer_task.h\<close>).

  A two-level timing wheel: 512 buckets of one millisecond each and 64 buckets of one revolution
  of the first wheel each.  The buckets hold weak pointers; a pointer is a key of the heap of tasks
  and locking it looks the key up.  A callback is kept as data, the closure that the constructor
  of the task stores: the user's callback alone for a one-shot timer, the re-arming wrapper around
  it for a periodic one.  \<open>Async\<close> hands the callback to the task pool; the model returns the
  callbacks handed over.

  The theory shows when a task fires, in an arbitrary interleaving of the tick thread with other
  threads that add and cancel other tasks: after exactly the requested number of ticks, except for
  one range of durations in which the wheel fires a whole revolution early.  It also shows that
  re-arming always asks for at least one tick, and what the accumulated error of a periodic timer is.
\<close>

unbundle bit_operations_syntax

section \<open>Tasks and the wheel\<close>

datatype 'cb timer_callback = Oneshot 'cb | Periodic 'cb

record 'cb timer_task =
  tt_timer_id :: u64
  tt_callback :: "'cb timer_callback"
  tt_interval_ms :: u64
  tt_remainder_interval_ms :: u64
  tt_next_fire_duration_ms :: u64
  tt_accumulated_error_ns :: u64
  tt_last_execute_time_ns :: u64

text \<open>Pointers to tasks are natural numbers.\<close>

record 'cb timing_wheel =
  tw_running :: bool
  tw_work_wheel :: "nat list list"
  tw_assistant_wheel :: "nat list list"
  tw_current_work_wheel_index :: u64
  tw_current_assistant_wheel_index :: u64
  tw_tasks :: "nat \<rightharpoonup> 'cb timer_task"

definition WORK_WHEEL_SIZE :: u64 where
  "WORK_WHEEL_SIZE = 512"

definition ASSISTANT_WHEEL_SIZE :: u64 where
  "ASSISTANT_WHEEL_SIZE = 64"

abbreviation TIMER_RESOLUTION_MS :: u64 where
  "TIMER_RESOLUTION_MS \<equiv> 1"

abbreviation TIMER_MAX_INTERVAL_MS :: u64 where
  "TIMER_MAX_INTERVAL_MS \<equiv> WORK_WHEEL_SIZE * ASSISTANT_WHEEL_SIZE"

definition TimingWheel_new :: "(nat \<rightharpoonup> 'cb timer_task) \<Rightarrow> 'cb timing_wheel" where
  "TimingWheel_new tasks =
     \<lparr>tw_running = False,
      tw_work_wheel = replicate (unat WORK_WHEEL_SIZE) [],
      tw_assistant_wheel = replicate (unat ASSISTANT_WHEEL_SIZE) [],
      tw_current_work_wheel_index = 0, tw_current_assistant_wheel_index = 0,
      tw_tasks = tasks\<rparr>"

definition GetWorkWheelIndex :: "u64 \<Rightarrow> u64" where
  "GetWorkWheelIndex index = index AND (WORK_WHEEL_SIZE - 1)"

definition GetAssistantWheelIndex :: "u64 \<Rightarrow> u64" where
  "GetAssistantWheelIndex index = index AND (ASSISTANT_WHEEL_SIZE - 1)"

definition TimingWheel_Start :: "'cb timing_wheel \<Rightarrow> 'cb timing_wheel" where
  "TimingWheel_Start w = (if \<not> tw_running w then w\<lparr>tw_running := True\<rparr> else w)"

definition TimingWheel_Shutdown :: "'cb timing_wheel \<Rightarrow> 'cb timing_wheel" where
  "TimingWheel_Shutdown w = (if tw_running w then w\<lparr>tw_running := False\<rparr> else w)"

text \<open>\<open>TimerBucket::AddTask\<close> on the bucket at an index of a wheel.\<close>

definition TimerBucket_AddTask :: "nat list list \<Rightarrow> u64 \<Rightarrow> nat \<Rightarrow> nat list list" where
  "TimerBucket_AddTask wheel i p = wheel[unat i := wheel ! unat i @ [p]]"

text \<open>
  \<open>Tick\<close>: every task of the current bucket that is still alive is handed over, and the bucket is
  emptied.
\<close>

fun tick_bucket :: "(nat \<rightharpoonup> 'cb timer_task) \<Rightarrow> nat list \<Rightarrow> (nat \<times> 'cb timer_callback) list" where
  "tick_bucket tasks [] = []"
| "tick_bucket tasks (p # ps) =
     (case tasks p of
        Some task \<Rightarrow> (p, tt_callback task) # tick_bucket tasks ps
      | None \<Rightarrow> tick_bucket tasks ps)"

definition TimingWheel_Tick ::
  "'cb timing_wheel \<Rightarrow> 'cb timing_wheel \<times> (nat \<times> 'cb timer_callback) list" where
  "TimingWheel_Tick w =
     (let i = unat (tw_current_work_wheel_index w)
      in (w\<lparr>tw_work_wheel := (tw_work_wheel w)[i := []]\<rparr>,
          tick_bucket (tw_tasks w) (tw_work_wheel w ! i)))"

text \<open>
  \<open>AddTask\<close>, with the task read through the shared pointer.  The callers own the task, so the
  pointer is never null; a null pointer is mapped to no effect.
\<close>

definition TimingWheel_AddTask_at :: "nat \<Rightarrow> u64 \<Rightarrow> 'cb timing_wheel \<Rightarrow> 'cb timing_wheel" where
  "TimingWheel_AddTask_at p current_work_wheel_index w =
     (case tw_tasks w p of
        None \<Rightarrow> w
      | Some task \<Rightarrow>
          let w = (if \<not> tw_running w then TimingWheel_Start w else w);
              work_wheel_index = current_work_wheel_index + tt_next_fire_duration_ms task
          in if work_wheel_index \<ge> WORK_WHEEL_SIZE
             then
               let real_work_wheel_index = GetWorkWheelIndex work_wheel_index;
                   w = w\<lparr>tw_tasks := (tw_tasks w)
                         (p \<mapsto> task\<lparr>tt_remainder_interval_ms := real_work_wheel_index\<rparr>)\<rparr>;
                   assistant_ticks = work_wheel_index div WORK_WHEEL_SIZE
               in if assistant_ticks = 1 \<and> real_work_wheel_index \<noteq> tw_current_work_wheel_index w
                  then w\<lparr>tw_work_wheel :=
                           TimerBucket_AddTask (tw_work_wheel w) real_work_wheel_index p\<rparr>
                  else w\<lparr>tw_assistant_wheel :=
                           TimerBucket_AddTask (tw_assistant_wheel w)
                             (GetAssistantWheelIndex
                               (tw_current_assistant_wheel_index w + assistant_ticks)) p\<rparr>
             else w\<lparr>tw_work_wheel := TimerBucket_AddTask (tw_work_wheel w) work_wheel_index p\<rparr>)"

definition TimingWheel_AddTask :: "nat \<Rightarrow> 'cb timing_wheel \<Rightarrow> 'cb timing_wheel" where
  "TimingWheel_AddTask p w = TimingWheel_AddTask_at p (tw_current_work_wheel_index w) w"

fun cascade_bucket ::
  "(nat \<rightharpoonup> 'cb timer_task) \<Rightarrow> nat list \<Rightarrow> nat list list \<Rightarrow> nat list list" where
  "cascade_bucket tasks [] work = work"
| "cascade_bucket tasks (p # ps) work =
     cascade_bucket tasks ps
       (case tasks p of
          Some task \<Rightarrow> TimerBucket_AddTask work (tt_remainder_interval_ms task) p
        | None \<Rightarrow> work)"

definition TimingWheel_Cascade :: "u64 \<Rightarrow> 'cb timing_wheel \<Rightarrow> 'cb timing_wheel" where
  "TimingWheel_Cascade i w =
     w\<lparr>tw_work_wheel :=
         cascade_bucket (tw_tasks w) (tw_assistant_wheel w ! unat i) (tw_work_wheel w),
       tw_assistant_wheel := (tw_assistant_wheel w)[unat i := []]\<rparr>"

text \<open>
  One round of the loop of \<open>TickFunc\<close>: the tick, and after the sleep the advance of the indices.
  Other threads can run between the two halves.
\<close>

definition TickFunc_advance :: "'cb timing_wheel \<Rightarrow> 'cb timing_wheel" where
  "TickFunc_advance w =
     (let w = w\<lparr>tw_current_work_wheel_index :=
                  GetWorkWheelIndex (tw_current_work_wheel_index w + 1)\<rparr>
      in if tw_current_work_wheel_index w = 0
         then
           let w = w\<lparr>tw_current_assistant_wheel_index :=
                       GetAssistantWheelIndex (tw_current_assistant_wheel_index w + 1)\<rparr>
           in TimingWheel_Cascade (tw_current_assistant_wheel_index w) w
         else w)"

section \<open>Timers\<close>

record 'cb timer_option =
  to_period :: u32
  to_callback :: 'cb
  to_oneshot :: bool

record 'cb timer =
  tm_timer_id :: u64
  tm_timer_opt :: "'cb timer_option"
  tm_task :: "nat option"
  tm_started :: bool

text \<open>\<open>GenerateTimerId\<close> returns the counter and increments it.\<close>

abbreviation GenerateTimerId :: "u64 \<Rightarrow> u64 \<times> u64" where
  "GenerateTimerId global_timer_id \<equiv> (global_timer_id, global_timer_id + 1)"

definition Timer_new :: "u64 \<Rightarrow> u32 \<Rightarrow> 'cb \<Rightarrow> bool \<Rightarrow> 'cb timer \<times> u64" where
  "Timer_new global_timer_id period callback oneshot =
     (case GenerateTimerId global_timer_id of (timer_id, global') \<Rightarrow>
        (\<lparr>tm_timer_id = timer_id,
          tm_timer_opt = \<lparr>to_period = period, to_callback = callback, to_oneshot = oneshot\<rparr>,
          tm_task = None, tm_started = False\<rparr>, global'))"

abbreviation Timer_SetTimerOption :: "'cb timer_option \<Rightarrow> 'cb timer \<Rightarrow> 'cb timer" where
  "Timer_SetTimerOption opt t \<equiv> t\<lparr>tm_timer_opt := opt\<rparr>"

text \<open>The new task is allocated at a pointer that the allocator supplies.\<close>

definition Timer_InitTimerTask ::
  "nat \<Rightarrow> 'cb timer \<Rightarrow> 'cb timing_wheel \<Rightarrow> bool \<times> 'cb timer \<times> 'cb timing_wheel" where
  "Timer_InitTimerTask p t w =
     (if to_period (tm_timer_opt t) = 0 then (False, t, w)
      else if ucast (to_period (tm_timer_opt t)) \<ge> TIMER_MAX_INTERVAL_MS then (False, t, w)
      else
        let interval = ucast (to_period (tm_timer_opt t));
            callback = to_callback (tm_timer_opt t);
            task = \<lparr>tt_timer_id = tm_timer_id t,
                    tt_callback =
                      (if to_oneshot (tm_timer_opt t) then Oneshot callback else Periodic callback),
                    tt_interval_ms = interval, tt_remainder_interval_ms = 0,
                    tt_next_fire_duration_ms = interval,
                    tt_accumulated_error_ns = 0, tt_last_execute_time_ns = 0\<rparr>
        in (True, t\<lparr>tm_task := Some p\<rparr>, w\<lparr>tw_tasks := (tw_tasks w)(p \<mapsto> task)\<rparr>))"

definition Timer_Start ::
  "bool \<Rightarrow> nat \<Rightarrow> 'cb timer \<Rightarrow> 'cb timing_wheel \<Rightarrow> 'cb timer \<times> 'cb timing_wheel" where
  "Timer_Start reality_mode p t w =
     (if \<not> reality_mode then (t, w)
      else if \<not> tm_started t
      then
        (case Timer_InitTimerTask p (t\<lparr>tm_started := True\<rparr>) w of (ok, t, w) \<Rightarrow>
           if ok then (t, TimingWheel_AddTask p w) else (t, w))
      else (t, w))"

text \<open>Resetting the only shared pointer to the task frees it: the weak pointers expire.\<close>

definition Timer_Stop :: "'cb timer \<Rightarrow> 'cb timing_wheel \<Rightarrow> 'cb timer \<times> 'cb timing_wheel" where
  "Timer_Stop t w =
     (if tm_started t
      then (t\<lparr>tm_started := False, tm_task := None\<rparr>,
            case tm_task t of
              Some p \<Rightarrow> w\<lparr>tw_tasks := (tw_tasks w)(p := None)\<rparr>
            | None \<Rightarrow> w)
      else (t, w))"

text \<open>
  \<open>llround\<close> of a number of nanoseconds divided by a million, rounding half-way cases away from
  zero; the division is exact here, where the code divides in \<open>double\<close>.
\<close>

definition llround_ms :: "int \<Rightarrow> int" where
  "llround_ms ns =
     (if ns < 0 then - ((- ns + 500000) div 1000000) else (ns + 500000) div 1000000)"

text \<open>
  The part of the wrapper of a periodic callback that follows the user's callback: the start and
  the end of its execution are readings of the monotonic clock.
\<close>

definition Timer_rearm :: "u64 \<Rightarrow> u64 \<Rightarrow> 'cb timer_task \<Rightarrow> 'cb timer_task" where
  "Timer_rearm start end_time task =
     (let execute_time_ns = end_time - start;
          execute_time_ms = (word_of_int (llround_ms (uint execute_time_ns)) :: u64);
          task =
            (if tt_last_execute_time_ns task = 0 then task\<lparr>tt_last_execute_time_ns := start\<rparr>
             else task\<lparr>tt_accumulated_error_ns := tt_accumulated_error_ns task
                       + (start - tt_last_execute_time_ns task - tt_interval_ms task * 1000000)\<rparr>);
          task = task\<lparr>tt_last_execute_time_ns := start\<rparr>
      in if execute_time_ms \<ge> tt_interval_ms task then task\<lparr>tt_next_fire_duration_ms := 1\<rparr>
         else
           let accumulated_error_ms = llround_ms (sint (tt_accumulated_error_ns task))
           in if sint (tt_interval_ms task - execute_time_ms - 1) \<ge> accumulated_error_ms
              then task\<lparr>tt_next_fire_duration_ms :=
                          tt_interval_ms task - execute_time_ms - word_of_int accumulated_error_ms\<rparr>
              else task\<lparr>tt_next_fire_duration_ms := 1\<rparr>)"

definition Timer_periodic_callback :: "u64 \<Rightarrow> u64 \<Rightarrow> nat \<Rightarrow> 'cb timing_wheel \<Rightarrow> 'cb timing_wheel" where
  "Timer_periodic_callback start end_time p w =
     (case tw_tasks w p of
        None \<Rightarrow> w
      | Some task \<Rightarrow>
          TimingWheel_AddTask p (w\<lparr>tw_tasks := (tw_tasks w)(p \<mapsto> Timer_rearm start end_time task)\<rparr>))"

section \<open>Interleavings of the tick thread with other threads\<close>

text \<open>
  The events of a run: one half of a round of the tick thread, another thread arming a task (a call
  of \<open>Timer::Start\<close> or the re-arming of a periodic task), and another thread dropping a task.
\<close>

datatype 'cb wheel_event = Loop | Arm nat "'cb timer_task" | Drop nat

fun event_task :: "'cb wheel_event \<Rightarrow> nat option" where
  "event_task Loop = None"
| "event_task (Arm q task) = Some q"
| "event_task (Drop q) = Some q"

text \<open>
  A run from a wheel whose tick thread is about to tick, or is asleep: the callbacks handed over,
  one list per tick.
\<close>

fun wheel_run ::
  "'cb wheel_event list \<Rightarrow> bool \<Rightarrow> 'cb timing_wheel \<Rightarrow> (nat \<times> 'cb timer_callback) list list" where
  "wheel_run [] sleeping w = []"
| "wheel_run (Loop # es) sleeping w =
     (if sleeping then wheel_run es False (TickFunc_advance w)
      else if tw_running w
      then (case TimingWheel_Tick w of (w', fired) \<Rightarrow> fired # wheel_run es True w')
      else wheel_run es False w)"
| "wheel_run (Arm q task # es) sleeping w =
     wheel_run es sleeping (TimingWheel_AddTask q (w\<lparr>tw_tasks := (tw_tasks w)(q \<mapsto> task)\<rparr>))"
| "wheel_run (Drop q # es) sleeping w =
     wheel_run es sleeping (w\<lparr>tw_tasks := (tw_tasks w)(q := None)\<rparr>)"

definition wheel_ok :: "'cb timing_wheel \<Rightarrow> bool" where
  "wheel_ok w \<longleftrightarrow>
     length (tw_work_wheel w) = 512 \<and> length (tw_assistant_wheel w) = 64
     \<and> unat (tw_current_work_wheel_index w) < 512
     \<and> unat (tw_current_assistant_wheel_index w) < 64"

text \<open>The buckets of a wheel that hold a task.\<close>

definition holds :: "nat list list \<Rightarrow> nat \<Rightarrow> nat set" where
  "holds wheel p = {j. j < length wheel \<and> p \<in> set (wheel ! j)}"

section \<open>Lemmas on wheels\<close>

named_theorems wheel_simps \<open>where a task is after an operation on a wheel\<close>

lemma unat_mask_9: "unat (x AND 511 :: u64) = unat x mod 512"
proof -
  have "x AND 511 = take_bit 9 x"
    by (simp add: take_bit_eq_mask mask_eq_exp_minus_1)
  then show ?thesis
    by (simp add: take_bit_eq_mod unat_mod_distrib)
qed

lemma unat_mask_6: "unat (x AND 63 :: u64) = unat x mod 64"
proof -
  have "x AND 63 = take_bit 6 x"
    by (simp add: take_bit_eq_mask mask_eq_exp_minus_1)
  then show ?thesis
    by (simp add: take_bit_eq_mod unat_mod_distrib)
qed

lemma unat_GetWorkWheelIndex: "unat (GetWorkWheelIndex x) = unat x mod 512"
  by (simp add: GetWorkWheelIndex_def WORK_WHEEL_SIZE_def unat_mask_9)

lemma unat_GetAssistantWheelIndex: "unat (GetAssistantWheelIndex x) = unat x mod 64"
  by (simp add: GetAssistantWheelIndex_def ASSISTANT_WHEEL_SIZE_def unat_mask_6)

lemma length_AddTask [simp]: "length (TimerBucket_AddTask wheel i q) = length wheel"
  by (simp add: TimerBucket_AddTask_def)

lemma length_cascade [simp]: "length (cascade_bucket tasks ps work) = length work"
  by (induction tasks ps work rule: cascade_bucket.induct) (simp_all split: option.split)

lemma holds_AddTask [wheel_simps]:
  "holds (TimerBucket_AddTask wheel i q) p =
   holds wheel p \<union> (if q = p \<and> unat i < length wheel then {unat i} else {})"
  by (cases "unat i < length wheel")
    (auto simp: holds_def TimerBucket_AddTask_def nth_list_update split: if_splits)

lemma holds_clear [wheel_simps]: "holds (wheel[i := []]) p = holds wheel p - {i}"
  by (cases "i < length wheel") (auto simp: holds_def nth_list_update split: if_splits)

lemma holds_cascade [wheel_simps]:
  "holds (cascade_bucket tasks ps work) p =
   holds work p \<union>
   (case tasks p of
      Some task \<Rightarrow>
        if p \<in> set ps \<and> unat (tt_remainder_interval_ms task) < length work
        then {unat (tt_remainder_interval_ms task)} else {}
    | None \<Rightarrow> {})"
proof (induction ps arbitrary: work)
  case Nil
  then show ?case by (simp split: option.split)
next
  case (Cons q ps)
  show ?case
  proof (cases "q = p")
    case True
    then show ?thesis
      by (cases "tasks p") (simp_all add: Cons.IH holds_AddTask)
  next
    case False
    then show ?thesis
      by (cases "tasks q"; cases "tasks p") (simp_all add: Cons.IH holds_AddTask)
  qed
qed

lemma tick_bucket_fires:
  "p \<in> fst ` set (tick_bucket tasks ps) \<longleftrightarrow> p \<in> set ps \<and> tasks p \<noteq> None"
  by (induction tasks ps rule: tick_bucket.induct) (auto split: option.splits)

text \<open>
  A task that will be in the current bucket after \<open>k\<close> more advances of the wheel: it sits in the
  work wheel at distance \<open>k\<close>, or in the assistant wheel, \<open>m\<close> revolutions away.
\<close>

definition pending :: "nat \<Rightarrow> nat \<Rightarrow> 'cb timing_wheel \<Rightarrow> bool" where
  "pending p k w \<longleftrightarrow>
     wheel_ok w \<and> tw_running w \<and>
     (\<exists>task. tw_tasks w p = Some task \<and>
        (k < 512 \<and> holds (tw_assistant_wheel w) p = {}
           \<and> holds (tw_work_wheel w) p = {(unat (tw_current_work_wheel_index w) + k) mod 512}
         \<or> holds (tw_work_wheel w) p = {}
           \<and> (\<exists>m. 1 \<le> m \<and> m \<le> 64
                \<and> holds (tw_assistant_wheel w) p
                    = {(unat (tw_current_assistant_wheel_index w) + m) mod 64}
                \<and> unat (tt_remainder_interval_ms task) < 512
                \<and> k + unat (tw_current_work_wheel_index w)
                    = 512 * m + unat (tt_remainder_interval_ms task))))"

definition unqueued :: "nat \<Rightarrow> 'cb timing_wheel \<Rightarrow> bool" where
  "unqueued p w \<longleftrightarrow>
     wheel_ok w \<and> holds (tw_work_wheel w) p = {} \<and> holds (tw_assistant_wheel w) p = {}"

lemma wheel_ok_AddTask: "wheel_ok w \<Longrightarrow> wheel_ok (TimingWheel_AddTask q w)"
  by (auto simp: wheel_ok_def TimingWheel_AddTask_def TimingWheel_AddTask_at_def TimingWheel_Start_def
      Let_def split: option.split)

lemma AddTask_other:
  assumes "q \<noteq> p"
  shows "holds (tw_work_wheel (TimingWheel_AddTask q w)) p = holds (tw_work_wheel w) p"
    and "holds (tw_assistant_wheel (TimingWheel_AddTask q w)) p = holds (tw_assistant_wheel w) p"
    and "tw_tasks (TimingWheel_AddTask q w) p = tw_tasks w p"
    and "tw_current_work_wheel_index (TimingWheel_AddTask q w) = tw_current_work_wheel_index w"
    and "tw_current_assistant_wheel_index (TimingWheel_AddTask q w)
         = tw_current_assistant_wheel_index w"
    and "tw_running w \<Longrightarrow> tw_running (TimingWheel_AddTask q w)"
  using assms
  by (simp_all add: TimingWheel_AddTask_def TimingWheel_AddTask_at_def TimingWheel_Start_def Let_def
      holds_AddTask split: option.split)

lemma pending_Arm:
  assumes "q \<noteq> p" and "pending p k w"
  shows "pending p k (TimingWheel_AddTask q (w\<lparr>tw_tasks := (tw_tasks w)(q \<mapsto> task)\<rparr>))"
proof -
  have "pending p k (w\<lparr>tw_tasks := (tw_tasks w)(q \<mapsto> task)\<rparr>)"
    using assms by (simp add: pending_def wheel_ok_def)
  then show ?thesis
    using AddTask_other [OF assms(1)] wheel_ok_AddTask unfolding pending_def by metis
qed

lemma pending_Drop:
  "q \<noteq> p \<Longrightarrow> pending p k w \<Longrightarrow> pending p k (w\<lparr>tw_tasks := (tw_tasks w)(q := None)\<rparr>)"
  by (simp add: pending_def wheel_ok_def)

lemma unqueued_Arm:
  assumes "q \<noteq> p" and "unqueued p w"
  shows "unqueued p (TimingWheel_AddTask q (w\<lparr>tw_tasks := (tw_tasks w)(q \<mapsto> task)\<rparr>))"
proof -
  have "unqueued p (w\<lparr>tw_tasks := (tw_tasks w)(q \<mapsto> task)\<rparr>)"
    using assms by (simp add: unqueued_def wheel_ok_def)
  then show ?thesis
    using AddTask_other [OF assms(1)] wheel_ok_AddTask unfolding unqueued_def by metis
qed

lemma unqueued_Drop:
  "unqueued p w \<Longrightarrow> unqueued p (w\<lparr>tw_tasks := (tw_tasks w)(q := None)\<rparr>)"
  by (simp add: unqueued_def wheel_ok_def)

text \<open>A tick fires the task at distance zero and leaves the others where they are.\<close>

lemma Tick_fires:
  assumes "wheel_ok w"
  shows "p \<in> fst ` set (snd (TimingWheel_Tick w)) \<longleftrightarrow>
         unat (tw_current_work_wheel_index w) \<in> holds (tw_work_wheel w) p \<and> tw_tasks w p \<noteq> None"
  using assms by (auto simp: TimingWheel_Tick_def Let_def tick_bucket_fires holds_def wheel_ok_def)

lemma Tick_pending:
  assumes "pending p k w"
  shows "0 < k \<Longrightarrow> pending p k (fst (TimingWheel_Tick w))"
    and "k = 0 \<Longrightarrow> unqueued p (fst (TimingWheel_Tick w))"
    and "p \<in> fst ` set (snd (TimingWheel_Tick w)) \<longleftrightarrow> k = 0"
proof -
  let ?c = "unat (tw_current_work_wheel_index w)"
  from assms have ok: "wheel_ok w" and c: "?c < 512" by (simp_all add: pending_def wheel_ok_def)
  have eq: "?c = (?c + k) mod 512 \<longleftrightarrow> k = 0" if "k < 512"
    using mod_window_inj [of ?c 512 "?c + k"] that c by auto
  show "pending p k (fst (TimingWheel_Tick w))" if "0 < k"
    using assms that eq by (auto simp: pending_def TimingWheel_Tick_def Let_def wheel_ok_def holds_clear)
  show "unqueued p (fst (TimingWheel_Tick w))" if "k = 0"
    using assms that c
    by (auto simp: pending_def unqueued_def TimingWheel_Tick_def Let_def wheel_ok_def holds_clear)
  show "p \<in> fst ` set (snd (TimingWheel_Tick w)) \<longleftrightarrow> k = 0"
    unfolding Tick_fires [OF ok] using assms eq c by (auto simp: pending_def)
qed

lemma Tick_unqueued:
  assumes "unqueued p w"
  shows "unqueued p (fst (TimingWheel_Tick w))"
    and "p \<notin> fst ` set (snd (TimingWheel_Tick w))"
  using assms Tick_fires [of w p]
  by (auto simp: unqueued_def TimingWheel_Tick_def Let_def wheel_ok_def holds_clear)

text \<open>The two cases of an advance: within a revolution, and at its end.\<close>

lemma unat_work_index_Suc:
  "wheel_ok w \<Longrightarrow> unat (GetWorkWheelIndex (tw_current_work_wheel_index w + 1))
     = (unat (tw_current_work_wheel_index w) + 1) mod 512"
  by (simp add: unat_GetWorkWheelIndex unat_u64_add_1 wheel_ok_def)

lemma unat_assistant_index_Suc:
  "wheel_ok w \<Longrightarrow> unat (GetAssistantWheelIndex (tw_current_assistant_wheel_index w + 1))
     = (unat (tw_current_assistant_wheel_index w) + 1) mod 64"
  by (simp add: unat_GetAssistantWheelIndex unat_u64_add_1 wheel_ok_def)

lemma advance_within:
  assumes "wheel_ok w" and "unat (tw_current_work_wheel_index w) < 511"
  shows "TickFunc_advance w = w\<lparr>tw_current_work_wheel_index := tw_current_work_wheel_index w + 1\<rparr>"
proof -
  have "unat (GetWorkWheelIndex (tw_current_work_wheel_index w + 1))
        = unat (tw_current_work_wheel_index w + 1)"
    using assms by (simp add: unat_work_index_Suc unat_u64_add_1)
  then have "GetWorkWheelIndex (tw_current_work_wheel_index w + 1)
        = tw_current_work_wheel_index w + 1"
    by (simp add: u64_eq_iff_unat)
  moreover have "tw_current_work_wheel_index w + 1 \<noteq> 0"
    using assms by (simp add: u64_eq_iff_unat unat_u64_add_1)
  ultimately show ?thesis by (simp add: TickFunc_advance_def)
qed

lemma advance_wraps:
  assumes "wheel_ok w" and "unat (tw_current_work_wheel_index w) = 511"
  shows "TickFunc_advance w =
    (let a = GetAssistantWheelIndex (tw_current_assistant_wheel_index w + 1)
     in TimingWheel_Cascade a
          (w\<lparr>tw_current_work_wheel_index := 0, tw_current_assistant_wheel_index := a\<rparr>))"
proof -
  have "GetWorkWheelIndex (tw_current_work_wheel_index w + 1) = 0"
    using unat_work_index_Suc [OF assms(1)] assms(2) by (simp add: u64_eq_iff_unat)
  then show ?thesis by (simp add: TickFunc_advance_def Let_def)
qed

lemma wheel_index_cases:
  assumes "wheel_ok w"
  obtains "unat (tw_current_work_wheel_index w) < 511"
        | "unat (tw_current_work_wheel_index w) = 511"
  using assms by (fastforce simp: wheel_ok_def)

lemma wheel_ok_advance:
  assumes "wheel_ok w"
  shows "wheel_ok (TickFunc_advance w)"
  using assms
proof (cases rule: wheel_index_cases)
  case 1
  then show ?thesis
    using assms by (simp add: advance_within [OF assms 1] wheel_ok_def unat_u64_add_1)
next
  case 2
  then show ?thesis
    using assms unat_assistant_index_Suc [OF assms]
    by (simp add: advance_wraps [OF assms 2] wheel_ok_def Let_def TimingWheel_Cascade_def)
qed

lemma advance_unqueued:
  assumes "unqueued p w"
  shows "unqueued p (TickFunc_advance w)"
proof -
  have ok: "wheel_ok w" using assms by (simp add: unqueued_def)
  then show ?thesis
  proof (cases rule: wheel_index_cases)
    case 1
    then show ?thesis
      using assms wheel_ok_advance [OF ok] by (simp add: unqueued_def advance_within)
  next
    case 2
    let ?a = "GetAssistantWheelIndex (tw_current_assistant_wheel_index w + 1)"
    have "unat ?a < 64" by (simp add: unat_GetAssistantWheelIndex)
    then have "p \<notin> set (tw_assistant_wheel w ! unat ?a)"
      using assms by (auto simp: unqueued_def holds_def wheel_ok_def)
    then show ?thesis
      using assms wheel_ok_advance [OF ok]
      by (simp add: unqueued_def advance_wraps [OF ok 2] Let_def TimingWheel_Cascade_def wheel_simps
          split: option.split)
  qed
qed

lemma advance_pending_wraps:
  assumes "pending p k w" and "0 < k" and "unat (tw_current_work_wheel_index w) = 511"
  shows "pending p (k - 1) (TickFunc_advance w)"
proof -
  let ?a = "GetAssistantWheelIndex (tw_current_assistant_wheel_index w + 1)"
  let ?n = "unat (tw_current_assistant_wheel_index w)"
  have ok: "wheel_ok w" and run: "tw_running w" using assms by (simp_all add: pending_def)
  have a: "unat ?a = (?n + 1) mod 64" by (rule unat_assistant_index_Suc [OF ok])
  note adv = advance_wraps [OF ok assms(3)] Let_def TimingWheel_Cascade_def
  have ok': "wheel_ok (TickFunc_advance w)" by (rule wheel_ok_advance [OF ok])
  obtain task where task: "tw_tasks w p = Some task" using assms by (auto simp: pending_def)
  let ?r = "unat (tt_remainder_interval_ms task)"
  have here: "p \<in> set (tw_assistant_wheel w ! unat ?a) \<longleftrightarrow> unat ?a \<in> holds (tw_assistant_wheel w) p"
    using ok a by (simp add: holds_def wheel_ok_def)
  consider (work) "k < 512" "holds (tw_assistant_wheel w) p = {}"
      "holds (tw_work_wheel w) p = {(511 + k) mod 512}"
    | (assistant) m where "holds (tw_work_wheel w) p = {}" "1 \<le> m" "m \<le> 64"
      "holds (tw_assistant_wheel w) p = {(?n + m) mod 64}" "?r < 512" "k + 511 = 512 * m + ?r"
    using assms task by (fastforce simp: pending_def)
  then show ?thesis
  proof cases
    case work
    have "(511 + k) mod 512 = k - 1"
      using work(1) assms(2) by (simp add: mod_if)
    then show ?thesis
      using work ok' run task here
      by (simp add: pending_def adv wheel_simps)
  next
    case assistant
    have dist: "(?n + m) mod 64 = (?n + 1) mod 64 \<longleftrightarrow> m = 1"
      using mod_window_inj [of "?n + 1" 64 "?n + m"] assistant by fastforce
    show ?thesis
    proof (cases "m = 1")
      case True
      then show ?thesis
        using assistant ok' ok run task here a by (simp add: pending_def adv wheel_simps wheel_ok_def)
    next
      case False
      have "((?n + 1) mod 64 + (m - 1)) mod 64 = (?n + m) mod 64"
        using assistant mod_add_left_eq [of "?n + 1" 64 "m - 1"] by simp
      then show ?thesis
        using assistant ok' run task here a dist False
        by (auto simp: pending_def adv wheel_simps intro!: exI [of _ "m - 1"])
    qed
  qed
qed

lemma advance_pending:
  assumes "pending p k w" and "0 < k"
  shows "pending p (k - 1) (TickFunc_advance w)"
proof -
  have ok: "wheel_ok w" using assms by (simp add: pending_def)
  then show ?thesis
  proof (cases rule: wheel_index_cases)
    case 1
    then have "unat (tw_current_work_wheel_index w + 1) = unat (tw_current_work_wheel_index w) + 1"
      by (simp add: unat_u64_add_1)
    then show ?thesis
      using assms wheel_ok_advance [OF ok] by (auto simp: pending_def advance_within [OF ok 1])
  next
    case 2
    then show ?thesis by (rule advance_pending_wraps [OF assms])
  qed
qed

section \<open>When a task fires\<close>

lemma wheel_run_unqueued:
  assumes "unqueued p w" and "\<forall>e \<in> set es. event_task e \<noteq> Some p"
    and "j < length (wheel_run es sleeping w)"
  shows "p \<notin> fst ` set (wheel_run es sleeping w ! j)"
  using assms
proof (induction es sleeping w arbitrary: j rule: wheel_run.induct)
  case (2 es sleeping w)
  then show ?case
    using Tick_unqueued [OF "2.prems"(1)] advance_unqueued [OF "2.prems"(1)]
    by (cases j) (auto split: if_splits prod.splits)
qed (auto simp: unqueued_Arm unqueued_Drop)

lemma wheel_run_pending:
  assumes "pending p k w" and "\<forall>e \<in> set es. event_task e \<noteq> Some p"
    and "sleeping \<longrightarrow> 0 < k" and "j < length (wheel_run es sleeping w)"
  shows "p \<in> fst ` set (wheel_run es sleeping w ! j) \<longleftrightarrow> j = k - (if sleeping then 1 else 0)"
  using assms
proof (induction es sleeping w arbitrary: j k rule: wheel_run.induct)
  case (2 es sleeping w)
  show ?case
  proof (cases sleeping)
    case True
    then show ?thesis
      using "2.IH"(1) [of "k - 1" j] "2.prems" advance_pending [OF "2.prems"(1)] by simp
  next
    case False
    obtain w' fired where tick: "TimingWheel_Tick w = (w', fired)" by fastforce
    have run: "wheel_run (Loop # es) sleeping w = fired # wheel_run es True w'"
      using False "2.prems"(1) by (simp add: tick pending_def)
    have now: "p \<in> fst ` set fired \<longleftrightarrow> k = 0"
      using Tick_pending(3) [OF "2.prems"(1)] by (simp add: tick)
    show ?thesis
    proof (cases j)
      case 0
      then show ?thesis unfolding run using False now by simp
    next
      case (Suc i)
      then have i: "i < length (wheel_run es True w')" using "2.prems"(4) unfolding run by simp
      show ?thesis
      proof (cases "k = 0")
        case True
        then show ?thesis
          using wheel_run_unqueued [OF _ _ i, of p] Tick_pending(2) [OF "2.prems"(1)] "2.prems"(2)
            Suc False
          unfolding run by (simp add: tick)
      next
        case False
        then have "pending p k w'" using Tick_pending(1) [OF "2.prems"(1)] by (simp add: tick)
        then show ?thesis
          using "2.IH"(2) [OF \<open>\<not> sleeping\<close> _ tick [symmetric], of k i] "2.prems" False Suc i
            \<open>\<not> sleeping\<close>
          unfolding run by (auto simp: pending_def)
      qed
    qed
  qed
qed (auto simp: pending_Arm pending_Drop)

text \<open>
  The number of ticks after which the wheel fires a task added with the duration \<open>d\<close> at the work
  wheel index \<open>c\<close>.
\<close>

definition wheel_delay :: "nat \<Rightarrow> nat \<Rightarrow> nat" where
  "wheel_delay c d = (if 512 < d \<and> c + d < 1024 then d - 512 else d)"

lemma AddTask_pending:
  assumes "unqueued p w" and "tw_tasks w p = Some task"
    and "unat (tt_next_fire_duration_ms task) = d" and "0 < d" and "d < 32768"
  shows "pending p (wheel_delay (unat (tw_current_work_wheel_index w)) d) (TimingWheel_AddTask p w)"
proof -
  let ?i = "tw_current_work_wheel_index w + tt_next_fire_duration_ms task"
  let ?c = "unat (tw_current_work_wheel_index w)"
  let ?a = "unat (tw_current_assistant_wheel_index w)"
  have ok: "wheel_ok w" and c: "?c < 512" and a: "?a < 64"
    using assms(1) by (simp_all add: unqueued_def wheel_ok_def)
  have i: "unat ?i = ?c + d"
    using c assms by (simp add: unat_word_ariths)
  have r: "unat (GetWorkWheelIndex ?i) = (?c + d) mod 512"
    by (simp add: unat_GetWorkWheelIndex i)
  have big: "WORK_WHEEL_SIZE \<le> ?i \<longleftrightarrow> 512 \<le> ?c + d"
    by (simp add: word_le_nat_alt i WORK_WHEEL_SIZE_def)
  have ticks: "unat (?i div WORK_WHEEL_SIZE) = (?c + d) div 512"
    by (simp add: unat_div_distrib i WORK_WHEEL_SIZE_def)
  have one: "?i div WORK_WHEEL_SIZE = 1 \<longleftrightarrow> (?c + d) div 512 = 1"
    by (simp add: u64_eq_iff_unat ticks)
  have same: "GetWorkWheelIndex ?i = tw_current_work_wheel_index w \<longleftrightarrow> (?c + d) mod 512 = ?c"
    by (simp add: u64_eq_iff_unat r)
  have slot: "unat (GetAssistantWheelIndex
                (tw_current_assistant_wheel_index w + ?i div WORK_WHEEL_SIZE))
              = (?a + (?c + d) div 512) mod 64"
  proof -
    have "unat (tw_current_assistant_wheel_index w + ?i div WORK_WHEEL_SIZE) = ?a + (?c + d) div 512"
      using a c assms(5)
      by (simp only: unat_word_ariths(1) ticks) (simp add: mod_less)
    then show ?thesis by (simp add: unat_GetAssistantWheelIndex)
  qed
  have ok': "wheel_ok (TimingWheel_AddTask p w)" by (rule wheel_ok_AddTask [OF ok])
  note add = TimingWheel_AddTask_def TimingWheel_AddTask_at_def assms(2) Let_def TimingWheel_Start_def
    big one same
  consider (near) "?c + d < 512"
    | (next_rev) "512 \<le> ?c + d" "(?c + d) div 512 = 1" "(?c + d) mod 512 \<noteq> ?c"
    | (far) "512 \<le> ?c + d" "(?c + d) div 512 \<noteq> 1 \<or> (?c + d) mod 512 = ?c"
    by linarith
  then show ?thesis
  proof cases
    case near
    then show ?thesis
      using assms ok' by (simp add: pending_def unqueued_def wheel_ok_def wheel_delay_def add
          holds_AddTask i)
  next
    case next_rev
    then have mod: "(?c + d) mod 512 = ?c + d - 512" and lt: "?c + d < 1024"
      by (simp_all add: modulo_nat_def)
    have "wheel_delay ?c d < 512" and "(?c + wheel_delay ?c d) mod 512 = (?c + d) mod 512"
      using mod lt next_rev c by (auto simp: wheel_delay_def mod_if)
    then show ?thesis
      using assms ok' next_rev c by (simp add: pending_def unqueued_def wheel_ok_def add holds_AddTask r)
  next
    case far
    define m where "m = (?c + d) div 512"
    have split: "?c + d = 512 * m + (?c + d) mod 512"
      by (simp add: m_def)
    have m: "1 \<le> m" "m \<le> 64" using far c assms(5) by (simp_all add: m_def)
    have "wheel_delay ?c d = d"
    proof (rule ccontr)
      assume "wheel_delay ?c d \<noteq> d"
      then have d: "512 < d" "?c + d < 1024" by (simp_all add: wheel_delay_def split: if_splits)
      then have "(?c + d) div 512 = 1" by (intro div_nat_eqI) simp_all
      moreover from this have "(?c + d) mod 512 = ?c + d - 512" by (simp add: modulo_nat_def)
      ultimately show False using far d by simp
    qed
    then show ?thesis
      using assms ok' far m split a
      by (auto simp: pending_def unqueued_def wheel_ok_def add holds_AddTask r slot m_def [symmetric]
          intro!: exI [of _ m])
  qed
qed

lemma wheel_fires:
  assumes "unqueued p w" and "tw_tasks w p = Some task"
    and "unat (tt_next_fire_duration_ms task) = d" and "0 < d" and "d < 32768"
    and "\<forall>e \<in> set es. event_task e \<noteq> Some p"
    and "j < length (wheel_run es sleeping (TimingWheel_AddTask p w))"
  shows "p \<in> fst ` set (wheel_run es sleeping (TimingWheel_AddTask p w) ! j) \<longleftrightarrow>
         j = wheel_delay (unat (tw_current_work_wheel_index w)) d - (if sleeping then 1 else 0)"
  using assms(4)
  by (intro wheel_run_pending [OF AddTask_pending [OF assms(1-5)] assms(6) _ assms(7)])
    (simp add: wheel_delay_def)

text \<open>The tick thread keeps ticking: a run has one tick for every two halves of a round.\<close>

lemma running_AddTask:
  "tw_running w \<Longrightarrow> tw_running (TimingWheel_AddTask q w)"
  "tw_tasks w q \<noteq> None \<Longrightarrow> tw_running (TimingWheel_AddTask q w)"
  by (auto simp: TimingWheel_AddTask_def TimingWheel_AddTask_at_def TimingWheel_Start_def Let_def
      split: option.split)

lemma running_advance: "tw_running w \<Longrightarrow> tw_running (TickFunc_advance w)"
  by (simp add: TickFunc_advance_def TimingWheel_Cascade_def Let_def)

lemma length_wheel_run:
  "tw_running w \<Longrightarrow> length (wheel_run es sleeping w)
   = (length (filter (\<lambda>e. event_task e = None) es) + (if sleeping then 0 else 1)) div 2"
  by (induction es sleeping w rule: wheel_run.induct)
    (simp_all add: running_AddTask running_advance TimingWheel_Tick_def Let_def)

definition sample_task :: "nat \<Rightarrow> unit timer_task" where
  "sample_task d =
     \<lparr>tt_timer_id = 0, tt_callback = Oneshot (), tt_interval_ms = of_nat d,
      tt_remainder_interval_ms = 0, tt_next_fire_duration_ms = of_nat d,
      tt_accumulated_error_ns = 0, tt_last_execute_time_ns = 0\<rparr>"

lemma unqueued_new: "unqueued p (TimingWheel_new tasks)"
  by (auto simp: unqueued_def wheel_ok_def TimingWheel_new_def holds_def WORK_WHEEL_SIZE_def
      ASSISTANT_WHEEL_SIZE_def)



text \<open>
  C26: In the remaining range, \<open>512 < d < 1024 - c\<close>, the task fires after \<open>d - 512\<close> ticks only, a full
  revolution of the work wheel early: \<open>AddTask\<close> puts it directly into the work wheel although the
  bucket comes up before the end of the current revolution.  In particular a timer of 700 ms that
  is started on a fresh wheel fires after 188 ms.
\<close>

theorem TimingWheel_fires_early:
  assumes "unqueued p w" and "tw_tasks w p = Some task"
    and "unat (tt_next_fire_duration_ms task) = d" and "512 < d"
    and "unat (tw_current_work_wheel_index w) + d < 1024"
    and "\<forall>e \<in> set es. event_task e \<noteq> Some p"
    and "j < length (wheel_run es sleeping (TimingWheel_AddTask p w))"
  shows "p \<in> fst ` set (wheel_run es sleeping (TimingWheel_AddTask p w) ! j) \<longleftrightarrow>
         j = d - 512 - (if sleeping then 1 else 0)"
  using wheel_fires [OF assms(1-3) _ _ assms(6,7)] assms(4,5) by (auto simp: wheel_delay_def)

theorem TimingWheel_fires_early_witness:
  "7 \<in> fst ` set (wheel_run (replicate 1600 Loop) False
     (TimingWheel_AddTask 7 (TimingWheel_new [7 \<mapsto> sample_task 700])) ! 188)"
proof -
  let ?w = "TimingWheel_new [7 \<mapsto> sample_task 700]"
  have "length (wheel_run (replicate 1600 Loop) False (TimingWheel_AddTask 7 ?w)) = 800"
    by (subst length_wheel_run) (simp_all add: running_AddTask(2) TimingWheel_new_def)
  then show ?thesis
    using TimingWheel_fires_early [of 7 ?w "sample_task 700" 700 "replicate 1600 Loop" 188 False]
    by (simp add: unqueued_new) (simp add: TimingWheel_new_def sample_task_def)
qed

section \<open>Re-arming a periodic timer\<close>

lemma llround_ms_bounds: "\<bar>llround_ms ns\<bar> \<le> \<bar>ns\<bar> div 1000000 + 1"
proof -
  have "(\<bar>ns\<bar> + 500000) div 1000000 \<le> (\<bar>ns\<bar> + 1 * 1000000) div 1000000"
    by (rule zdiv_mono1) simp_all
  also have "\<dots> = \<bar>ns\<bar> div 1000000 + 1" by (subst div_mult_self1) simp_all
  finally show ?thesis by (auto simp: llround_ms_def)
qed

lemma llround_ms_sint: "\<bar>llround_ms (sint (x :: u64))\<bar> \<le> 9223372036855"
proof -
  have "\<bar>sint x\<bar> \<le> 9223372036854775808"
    using sint_greater_eq [of x] sint_less [of x] by simp
  then have "\<bar>sint x\<bar> div 1000000 \<le> 9223372036854"
    using zdiv_mono1 [of "\<bar>sint x\<bar>" 9223372036854775808 1000000] by simp
  then show ?thesis using llround_ms_bounds [of "sint x"] by linarith
qed

lemma Timer_rearm_interval [simp]:
  "tt_interval_ms (Timer_rearm start end_time task) = tt_interval_ms task"
  by (simp add: Timer_rearm_def Let_def)

lemma Timer_rearm_last [simp]:
  "tt_last_execute_time_ns (Timer_rearm start end_time task) = start"
  by (simp add: Timer_rearm_def Let_def)

lemma Timer_rearm_error:
  "tt_accumulated_error_ns (Timer_rearm start end_time task) =
   (if tt_last_execute_time_ns task = 0 then tt_accumulated_error_ns task
    else tt_accumulated_error_ns task
         + (start - tt_last_execute_time_ns task - tt_interval_ms task * 1000000))"
  by (simp add: Timer_rearm_def Let_def)

text \<open>The difference of the interval and a shorter execution time, as a signed number.\<close>

lemma remaining_time:
  fixes i e :: u64
  assumes "uint i < 32768" and "e < i"
  shows "uint (i - e) = uint i - uint e" and "sint (i - e - 1) = uint i - uint e - 1"
proof -
  have e: "uint e < uint i" using assms(2) by (simp add: word_less_def)
  then show d: "uint (i - e) = uint i - uint e" by (simp add: uint_sub_if')
  then have "uint (i - e - 1) = uint i - uint e - 1"
    using e by (subst uint_sub_if') simp
  moreover have "0 \<le> uint e" by simp
  ultimately show "sint (i - e - 1) = uint i - uint e - 1"
    using assms(1) by (subst sint_u64_eq_uint) linarith+
qed

lemma uint_minus_word_of_int:
  fixes d :: u64
  assumes "1 \<le> uint d - a" and "uint d - a < 18446744073709551616"
  shows "uint (d - word_of_int a) = uint d - a"
proof -
  have "d - word_of_int a = word_of_int (uint d - a)" by simp
  moreover have "uint (word_of_int (uint d - a) :: u64) = uint d - a"
    using assms by (subst uint_word_of_int) (intro mod_pos_pos_trivial; simp)
  ultimately show ?thesis by metis
qed

text \<open>
  However long the callback of a periodic timer runs and whatever the accumulated error is,
  the task is re-armed with a duration of at least one tick, so it never lands in the bucket that
  is being processed, and of at most the interval plus the accumulated error.
\<close>

theorem Timer_rearm_bounds:
  assumes "0 < uint (tt_interval_ms task)" and "uint (tt_interval_ms task) < 32768"
    and "task' = Timer_rearm start end_time task"
  shows "1 \<le> uint (tt_next_fire_duration_ms task')
         \<and> uint (tt_next_fire_duration_ms task')
             \<le> uint (tt_interval_ms task)
                + \<bar>llround_ms (sint (tt_accumulated_error_ns task'))\<bar>"
proof -
  let ?i = "tt_interval_ms task"
  define e :: u64 where "e = word_of_int (llround_ms (uint (end_time - start)))"
  define a where "a = llround_ms (sint (tt_accumulated_error_ns task'))"
  have a: "\<bar>a\<bar> \<le> 9223372036855" unfolding a_def by (rule llround_ms_sint)
  have fire: "tt_next_fire_duration_ms task' =
      (if ?i \<le> e then 1 else if a \<le> sint (?i - e - 1) then ?i - e - word_of_int a else 1)"
    unfolding a_def e_def assms(3) by (simp add: Timer_rearm_def Let_def)
  show ?thesis
  proof (cases "\<not> ?i \<le> e \<and> a \<le> sint (?i - e - 1)")
    case True
    then have "e < ?i" by (simp add: not_le)
    note rem = remaining_time [OF assms(2) this]
    have e: "0 \<le> uint e" by simp
    then have "uint (?i - e - word_of_int a) = uint ?i - uint e - a"
      using True rem a assms(2) by (subst uint_minus_word_of_int) linarith+
    moreover have "tt_next_fire_duration_ms task' = ?i - e - word_of_int a"
      using True fire by simp
    moreover have "a \<le> uint ?i - uint e - 1"
      using True rem by simp
    ultimately show ?thesis
      using e unfolding a_def [symmetric] by (simp only:) linarith
  next
    case False
    then show ?thesis
      using fire assms(1) unfolding a_def [symmetric] by auto
  qed
qed

theorem Timer_rearm_bounds_witness:
  "1 \<le> uint (tt_next_fire_duration_ms (Timer_rearm 5000000 9000000 (sample_task 10)))
   \<and> uint (tt_next_fire_duration_ms (Timer_rearm 5000000 9000000 (sample_task 10)))
     \<le> uint (tt_interval_ms (sample_task 10))
        + \<bar>llround_ms (sint (tt_accumulated_error_ns
            (Timer_rearm 5000000 9000000 (sample_task 10))))\<bar>"
  by (rule Timer_rearm_bounds [OF _ _ refl]) (simp_all add: sample_task_def)

text \<open>A sequence of executions of a periodic callback, each with its start and its end.\<close>

definition Timer_executions :: "(u64 \<times> u64) list \<Rightarrow> 'cb timer_task \<Rightarrow> 'cb timer_task" where
  "Timer_executions runs task = foldl (\<lambda>t (start, end_time). Timer_rearm start end_time t) task runs"

lemma Timer_executions_interval [simp]:
  "tt_interval_ms (Timer_executions runs task) = tt_interval_ms task"
  by (induction runs arbitrary: task) (auto simp: Timer_executions_def)

lemma Timer_executions_error:
  assumes "tt_last_execute_time_ns task \<noteq> 0" and "0 \<notin> fst ` set runs"
  shows "tt_accumulated_error_ns (Timer_executions runs task) =
     tt_accumulated_error_ns task
     + (last (tt_last_execute_time_ns task # map fst runs) - tt_last_execute_time_ns task)
     - of_nat (length runs) * (tt_interval_ms task * 1000000)"
  using assms
proof (induction runs arbitrary: task)
  case Nil
  then show ?case by (simp add: Timer_executions_def)
next
  case (Cons r runs)
  obtain s e where r: "r = (s, e)" by fastforce
  have "Timer_executions (r # runs) task = Timer_executions runs (Timer_rearm s e task)"
    by (simp add: Timer_executions_def r)
  moreover have "last (s # map fst runs) = last (tt_last_execute_time_ns task # s # map fst runs)"
    by simp
  ultimately show ?case
    using Cons.IH [of "Timer_rearm s e task"] Cons.prems
    by (simp add: r Timer_rearm_error algebra_simps del: last.simps)
qed

text \<open>
  The accumulated error of a periodic timer after any number of executions is the time from
  the start of the first to the start of the last one minus the time that many intervals take.
\<close>

theorem Timer_error_telescopes:
  assumes "tt_last_execute_time_ns task = 0" and "tt_accumulated_error_ns task = 0"
    and "0 \<notin> fst ` set ((start, end_time) # runs)"
  shows "tt_accumulated_error_ns (Timer_executions ((start, end_time) # runs) task) =
     last (start # map fst runs) - start - of_nat (length runs) * (tt_interval_ms task * 1000000)"
proof -
  have "Timer_executions ((start, end_time) # runs) task
        = Timer_executions runs (Timer_rearm start end_time task)"
    by (simp add: Timer_executions_def)
  then show ?thesis
    using Timer_executions_error [of "Timer_rearm start end_time task" runs] assms
    by (simp add: Timer_rearm_error)
qed

theorem Timer_error_telescopes_witness:
  "tt_accumulated_error_ns
     (Timer_executions [(5000000, 6000000), (16000000, 16500000), (25500000, 26000000)] (sample_task 10))
   = 500000"
  using Timer_error_telescopes [of "sample_task 10" 5000000 6000000
      "[(16000000, 16500000), (25500000, 26000000)]"]
  by (simp add: sample_task_def)

end
