(* ===== verification/Roles.thy ===== *)
theory Roles
  imports Prelude "HOL-Library.AList"
begin

text \<open>
  Topology roles and their containers (\<open>cyber/service_discovery/role/role.cc\<close>,
  \<open>container/single_value_warehouse.cc\<close>, \<open>container/multi_value_warehouse.cc\<close>).

  The fields of the message \<open>RoleAttributes\<close> are optional; reading an unset field gives the default
  of its type.  The fields \<open>qos_profile\<close>, \<open>socket_addr\<close> and \<open>host_ip\<close>, which none of the modelled
  operations reads, are left out.  The hash tables of the warehouses are association lists; the
  order of the list stands for the iteration order of the table, on which no statement depends.

  The locale \<open>warehouse\<close> is the contract that the managers of the topology rely on.  Both
  warehouses are shown to fulfil it.
\<close>

section \<open>Role attributes\<close>

record role_attributes =
  ra_host_name :: "string option"
  ra_process_id :: "int option"
  ra_node_name :: "string option"
  ra_node_id :: "u64 option"
  ra_channel_name :: "string option"
  ra_channel_id :: "u64 option"
  ra_message_type :: "string option"
  ra_proto_desc :: "string option"
  ra_id :: "u64 option"
  ra_service_name :: "string option"
  ra_service_id :: "u64 option"

definition empty_attributes :: role_attributes where
  "empty_attributes =
     \<lparr>ra_host_name = None, ra_process_id = None, ra_node_name = None, ra_node_id = None,
      ra_channel_name = None, ra_channel_id = None, ra_message_type = None, ra_proto_desc = None,
      ra_id = None, ra_service_name = None, ra_service_id = None\<rparr>"

text \<open>Reading an optional field.\<close>

definition str :: "string option \<Rightarrow> string" where
  "str f = (case f of Some s \<Rightarrow> s | None \<Rightarrow> [])"

definition num :: "'a :: zero option \<Rightarrow> 'a" where
  "num f = (case f of Some n \<Rightarrow> n | None \<Rightarrow> 0)"

lemma str_simps [simp]: "str (Some s) = s" "str None = []"
  by (simp_all add: str_def)

lemma num_simps [simp]: "num (Some n) = n" "num None = 0"
  by (simp_all add: num_def)

section \<open>Roles\<close>

text \<open>The dynamic type of a role decides which \<open>Match\<close> a virtual call runs.\<close>

datatype role_kind = RoleBase | RoleWriter | RoleServer

record role =
  role_kind :: role_kind
  role_attrs :: role_attributes
  role_timestamp_ns :: u64

definition RoleBase_Match :: "role \<Rightarrow> role_attributes \<Rightarrow> bool" where
  "RoleBase_Match r target =
     (if ra_node_id target \<noteq> None \<and> num (ra_node_id target) \<noteq> num (ra_node_id (role_attrs r))
      then False
      else if ra_process_id target \<noteq> None
              \<and> num (ra_process_id target) \<noteq> num (ra_process_id (role_attrs r))
      then False
      else if ra_host_name target \<noteq> None
              \<and> str (ra_host_name target) \<noteq> str (ra_host_name (role_attrs r))
      then False
      else True)"

abbreviation RoleBase_IsEarlierThan :: "role \<Rightarrow> role \<Rightarrow> bool" where
  "RoleBase_IsEarlierThan r other \<equiv> role_timestamp_ns r < role_timestamp_ns other"

definition RoleWriter_Match :: "role \<Rightarrow> role_attributes \<Rightarrow> bool" where
  "RoleWriter_Match r target =
     (if ra_channel_id target \<noteq> None
         \<and> num (ra_channel_id target) \<noteq> num (ra_channel_id (role_attrs r))
      then False
      else if ra_id target \<noteq> None \<and> num (ra_id target) \<noteq> num (ra_id (role_attrs r))
      then False
      else RoleBase_Match r target)"

definition RoleServer_Match :: "role \<Rightarrow> role_attributes \<Rightarrow> bool" where
  "RoleServer_Match r target =
     (if ra_service_id target \<noteq> None
         \<and> num (ra_service_id target) \<noteq> num (ra_service_id (role_attrs r))
      then False
      else RoleBase_Match r target)"

definition Match :: "role \<Rightarrow> role_attributes \<Rightarrow> bool" where
  "Match r target =
     (case role_kind r of
        RoleBase \<Rightarrow> RoleBase_Match r target
      | RoleWriter \<Rightarrow> RoleWriter_Match r target
      | RoleServer \<Rightarrow> RoleServer_Match r target)"

section \<open>Warehouses\<close>

type_synonym warehouse_map = "(u64 \<times> role) list"

subsection \<open>Single-value warehouse\<close>

definition SingleValueWarehouse_Add ::
  "warehouse_map \<Rightarrow> u64 \<Rightarrow> role \<Rightarrow> bool \<Rightarrow> bool \<times> warehouse_map" where
  "SingleValueWarehouse_Add w key r ignore_if_exist =
     (if \<not> ignore_if_exist \<and> map_of w key \<noteq> None then (False, w)
      else (True, AList.update key r w))"

definition SingleValueWarehouse_Clear :: "warehouse_map \<Rightarrow> warehouse_map" where
  "SingleValueWarehouse_Clear w = []"

abbreviation SingleValueWarehouse_Size :: "warehouse_map \<Rightarrow> nat" where
  "SingleValueWarehouse_Size w \<equiv> length w"

definition SingleValueWarehouse_Remove :: "warehouse_map \<Rightarrow> u64 \<Rightarrow> warehouse_map" where
  "SingleValueWarehouse_Remove w key = AList.delete key w"

definition SingleValueWarehouse_Remove_role :: "warehouse_map \<Rightarrow> u64 \<Rightarrow> role \<Rightarrow> warehouse_map" where
  "SingleValueWarehouse_Remove_role w key r =
     (case map_of w key of
        None \<Rightarrow> w
      | Some found \<Rightarrow> if \<not> Match found (role_attrs r) then w else AList.delete key w)"

fun SingleValueWarehouse_Remove_attr :: "warehouse_map \<Rightarrow> role_attributes \<Rightarrow> warehouse_map" where
  "SingleValueWarehouse_Remove_attr [] target = []"
| "SingleValueWarehouse_Remove_attr ((k, curr_role) # rest) target =
     (if Match curr_role target then SingleValueWarehouse_Remove_attr rest target
      else (k, curr_role) # SingleValueWarehouse_Remove_attr rest target)"

text \<open>
  The overloads of \<open>Search\<close>.  Where the code sets an output argument and returns true, the model
  returns \<^const>\<open>Some\<close>; where it appends to a vector, the model returns the vector after the call.
\<close>

definition SingleValueWarehouse_Search_role :: "warehouse_map \<Rightarrow> u64 \<Rightarrow> role option" where
  "SingleValueWarehouse_Search_role w key = map_of w key"

abbreviation SingleValueWarehouse_Search :: "warehouse_map \<Rightarrow> u64 \<Rightarrow> bool" where
  "SingleValueWarehouse_Search w key \<equiv> SingleValueWarehouse_Search_role w key \<noteq> None"

definition SingleValueWarehouse_Search_attr :: "warehouse_map \<Rightarrow> u64 \<Rightarrow> role_attributes option" where
  "SingleValueWarehouse_Search_attr w key =
     (case SingleValueWarehouse_Search_role w key of
        None \<Rightarrow> None
      | Some r \<Rightarrow> Some (role_attrs r))"

definition SingleValueWarehouse_Search_roles ::
  "warehouse_map \<Rightarrow> u64 \<Rightarrow> role list \<Rightarrow> bool \<times> role list" where
  "SingleValueWarehouse_Search_roles w key matched_roles =
     (case SingleValueWarehouse_Search_role w key of
        None \<Rightarrow> (False, matched_roles)
      | Some r \<Rightarrow> (True, matched_roles @ [r]))"

definition SingleValueWarehouse_Search_attrs ::
  "warehouse_map \<Rightarrow> u64 \<Rightarrow> role_attributes list \<Rightarrow> bool \<times> role_attributes list" where
  "SingleValueWarehouse_Search_attrs w key matched_roles_attr =
     (case SingleValueWarehouse_Search_role w key of
        None \<Rightarrow> (False, matched_roles_attr)
      | Some r \<Rightarrow> (True, matched_roles_attr @ [role_attrs r]))"

fun SingleValueWarehouse_Search_target_role :: "warehouse_map \<Rightarrow> role_attributes \<Rightarrow> role option" where
  "SingleValueWarehouse_Search_target_role [] target = None"
| "SingleValueWarehouse_Search_target_role ((k, r) # rest) target =
     (if Match r target then Some r else SingleValueWarehouse_Search_target_role rest target)"

abbreviation SingleValueWarehouse_Search_target :: "warehouse_map \<Rightarrow> role_attributes \<Rightarrow> bool" where
  "SingleValueWarehouse_Search_target w target \<equiv>
     SingleValueWarehouse_Search_target_role w target \<noteq> None"

definition SingleValueWarehouse_Search_target_attr ::
  "warehouse_map \<Rightarrow> role_attributes \<Rightarrow> role_attributes option" where
  "SingleValueWarehouse_Search_target_attr w target =
     (case SingleValueWarehouse_Search_target_role w target of
        None \<Rightarrow> None
      | Some r \<Rightarrow> Some (role_attrs r))"

fun SingleValueWarehouse_Search_target_roles ::
  "warehouse_map \<Rightarrow> role_attributes \<Rightarrow> bool \<Rightarrow> role list \<Rightarrow> bool \<times> role list" where
  "SingleValueWarehouse_Search_target_roles [] target found matched_roles = (found, matched_roles)"
| "SingleValueWarehouse_Search_target_roles ((k, r) # rest) target found matched_roles =
     (if Match r target
      then SingleValueWarehouse_Search_target_roles rest target True (matched_roles @ [r])
      else SingleValueWarehouse_Search_target_roles rest target found matched_roles)"

fun SingleValueWarehouse_Search_target_attrs ::
  "warehouse_map \<Rightarrow> role_attributes \<Rightarrow> bool \<Rightarrow> role_attributes list \<Rightarrow> bool \<times> role_attributes list"
where
  "SingleValueWarehouse_Search_target_attrs [] target found matched = (found, matched)"
| "SingleValueWarehouse_Search_target_attrs ((k, r) # rest) target found matched =
     (if Match r target
      then SingleValueWarehouse_Search_target_attrs rest target True (matched @ [role_attrs r])
      else SingleValueWarehouse_Search_target_attrs rest target found matched)"

definition SingleValueWarehouse_GetAllRoles :: "warehouse_map \<Rightarrow> role list \<Rightarrow> role list" where
  "SingleValueWarehouse_GetAllRoles w roles = roles @ map snd w"

definition SingleValueWarehouse_GetAllRoles_attr ::
  "warehouse_map \<Rightarrow> role_attributes list \<Rightarrow> role_attributes list" where
  "SingleValueWarehouse_GetAllRoles_attr w attrs = attrs @ map (\<lambda>(k, r). role_attrs r) w"

subsection \<open>Multi-value warehouse\<close>

definition equal_range :: "warehouse_map \<Rightarrow> u64 \<Rightarrow> warehouse_map" where
  "equal_range w key = filter (\<lambda>(k, r). k = key) w"

definition MultiValueWarehouse_Add ::
  "warehouse_map \<Rightarrow> u64 \<Rightarrow> role \<Rightarrow> bool \<Rightarrow> bool \<times> warehouse_map" where
  "MultiValueWarehouse_Add w key r ignore_if_exist =
     (if \<not> ignore_if_exist \<and> map_of w key \<noteq> None then (False, w)
      else (True, w @ [(key, r)]))"

definition MultiValueWarehouse_Clear :: "warehouse_map \<Rightarrow> warehouse_map" where
  "MultiValueWarehouse_Clear w = []"

abbreviation MultiValueWarehouse_Size :: "warehouse_map \<Rightarrow> nat" where
  "MultiValueWarehouse_Size w \<equiv> length w"

abbreviation MultiValueWarehouse_Remove :: "warehouse_map \<Rightarrow> u64 \<Rightarrow> warehouse_map" where
  "MultiValueWarehouse_Remove w key \<equiv> filter (\<lambda>(k, r). k \<noteq> key) w"

fun MultiValueWarehouse_Remove_role :: "warehouse_map \<Rightarrow> u64 \<Rightarrow> role \<Rightarrow> warehouse_map" where
  "MultiValueWarehouse_Remove_role [] key r = []"
| "MultiValueWarehouse_Remove_role ((k, curr_role) # rest) key r =
     (if k = key \<and> Match curr_role (role_attrs r) then MultiValueWarehouse_Remove_role rest key r
      else (k, curr_role) # MultiValueWarehouse_Remove_role rest key r)"

fun MultiValueWarehouse_Remove_attr :: "warehouse_map \<Rightarrow> role_attributes \<Rightarrow> warehouse_map" where
  "MultiValueWarehouse_Remove_attr [] target = []"
| "MultiValueWarehouse_Remove_attr ((k, curr_role) # rest) target =
     (if Match curr_role target then MultiValueWarehouse_Remove_attr rest target
      else (k, curr_role) # MultiValueWarehouse_Remove_attr rest target)"

definition MultiValueWarehouse_Search_role :: "warehouse_map \<Rightarrow> u64 \<Rightarrow> role option" where
  "MultiValueWarehouse_Search_role w key = map_of w key"

abbreviation MultiValueWarehouse_Search :: "warehouse_map \<Rightarrow> u64 \<Rightarrow> bool" where
  "MultiValueWarehouse_Search w key \<equiv> MultiValueWarehouse_Search_role w key \<noteq> None"

definition MultiValueWarehouse_Search_attr :: "warehouse_map \<Rightarrow> u64 \<Rightarrow> role_attributes option" where
  "MultiValueWarehouse_Search_attr w key =
     (case MultiValueWarehouse_Search_role w key of
        None \<Rightarrow> None
      | Some r \<Rightarrow> Some (role_attrs r))"

definition MultiValueWarehouse_Search_roles ::
  "warehouse_map \<Rightarrow> u64 \<Rightarrow> role list \<Rightarrow> bool \<times> role list" where
  "MultiValueWarehouse_Search_roles w key matched_roles =
     (let range = equal_range w key in (range \<noteq> [], matched_roles @ map snd range))"

definition MultiValueWarehouse_Search_attrs ::
  "warehouse_map \<Rightarrow> u64 \<Rightarrow> role_attributes list \<Rightarrow> bool \<times> role_attributes list" where
  "MultiValueWarehouse_Search_attrs w key matched_roles_attr =
     (let range = equal_range w key
      in (range \<noteq> [], matched_roles_attr @ map (\<lambda>(k, r). role_attrs r) range))"

fun MultiValueWarehouse_Search_target_role :: "warehouse_map \<Rightarrow> role_attributes \<Rightarrow> role option" where
  "MultiValueWarehouse_Search_target_role [] target = None"
| "MultiValueWarehouse_Search_target_role ((k, r) # rest) target =
     (if Match r target then Some r else MultiValueWarehouse_Search_target_role rest target)"

abbreviation MultiValueWarehouse_Search_target :: "warehouse_map \<Rightarrow> role_attributes \<Rightarrow> bool" where
  "MultiValueWarehouse_Search_target w target \<equiv>
     MultiValueWarehouse_Search_target_role w target \<noteq> None"

definition MultiValueWarehouse_Search_target_attr ::
  "warehouse_map \<Rightarrow> role_attributes \<Rightarrow> role_attributes option" where
  "MultiValueWarehouse_Search_target_attr w target =
     (case MultiValueWarehouse_Search_target_role w target of
        None \<Rightarrow> None
      | Some r \<Rightarrow> Some (role_attrs r))"

fun MultiValueWarehouse_Search_target_roles ::
  "warehouse_map \<Rightarrow> role_attributes \<Rightarrow> bool \<Rightarrow> role list \<Rightarrow> bool \<times> role list" where
  "MultiValueWarehouse_Search_target_roles [] target found matched_roles = (found, matched_roles)"
| "MultiValueWarehouse_Search_target_roles ((k, r) # rest) target found matched_roles =
     (if Match r target
      then MultiValueWarehouse_Search_target_roles rest target True (matched_roles @ [r])
      else MultiValueWarehouse_Search_target_roles rest target found matched_roles)"

fun MultiValueWarehouse_Search_target_attrs ::
  "warehouse_map \<Rightarrow> role_attributes \<Rightarrow> bool \<Rightarrow> role_attributes list \<Rightarrow> bool \<times> role_attributes list"
where
  "MultiValueWarehouse_Search_target_attrs [] target found matched = (found, matched)"
| "MultiValueWarehouse_Search_target_attrs ((k, r) # rest) target found matched =
     (if Match r target
      then MultiValueWarehouse_Search_target_attrs rest target True (matched @ [role_attrs r])
      else MultiValueWarehouse_Search_target_attrs rest target found matched)"

definition MultiValueWarehouse_GetAllRoles :: "warehouse_map \<Rightarrow> role list \<Rightarrow> role list" where
  "MultiValueWarehouse_GetAllRoles w roles = roles @ map snd w"

definition MultiValueWarehouse_GetAllRoles_attr ::
  "warehouse_map \<Rightarrow> role_attributes list \<Rightarrow> role_attributes list" where
  "MultiValueWarehouse_GetAllRoles_attr w attrs = attrs @ map (\<lambda>(k, r). role_attrs r) w"

section \<open>Matching\<close>

lemmas match_defs =
  Match_def RoleBase_Match_def RoleWriter_Match_def RoleServer_Match_def

lemma Match_refl [simp]: "Match r (role_attrs r)"
  by (cases "role_kind r") (simp_all add: match_defs)

text \<open>
  The attributes that select all roles of one process, and what it means that a role matches them.
\<close>

definition process_attributes :: "string \<Rightarrow> int \<Rightarrow> role_attributes" where
  "process_attributes host pid =
     empty_attributes\<lparr>ra_host_name := Some host, ra_process_id := Some pid\<rparr>"

lemma Match_process:
  "Match r (process_attributes host pid) \<longleftrightarrow>
     str (ra_host_name (role_attrs r)) = host \<and> num (ra_process_id (role_attrs r)) = pid"
  by (cases "role_kind r") (auto simp: match_defs process_attributes_def empty_attributes_def)

lemma Match_same_process:
  assumes "Match r (role_attrs s)"
    and "ra_host_name (role_attrs s) \<noteq> None" and "ra_process_id (role_attrs s) \<noteq> None"
  shows "Match r (process_attributes host pid) \<longleftrightarrow> Match s (process_attributes host pid)"
proof -
  have "RoleBase_Match r (role_attrs s)"
    using assms(1)
    by (cases "role_kind r")
      (simp_all add: Match_def RoleWriter_Match_def RoleServer_Match_def split: if_splits)
  then show ?thesis
    using assms(2,3) unfolding Match_process by (auto simp: RoleBase_Match_def split: if_splits)
qed

section \<open>The contract of a warehouse\<close>

locale warehouse =
  fixes ok :: "'w \<Rightarrow> bool"
    and entries :: "'w \<Rightarrow> (u64 \<times> role) set"
    and add :: "'w \<Rightarrow> u64 \<Rightarrow> role \<Rightarrow> 'w"
    and remove_role :: "'w \<Rightarrow> u64 \<Rightarrow> role \<Rightarrow> 'w"
    and search :: "'w \<Rightarrow> u64 \<Rightarrow> bool"
    and search_target :: "'w \<Rightarrow> role_attributes \<Rightarrow> role list"
  assumes ok_add: "ok w \<Longrightarrow> ok (add w k r)"
    and ok_remove_role: "ok w \<Longrightarrow> ok (remove_role w k r)"
    and entry_add: "ok w \<Longrightarrow> (k, r) \<in> entries (add w k r)"
    and entries_add: "ok w \<Longrightarrow> entries (add w k r) \<subseteq> insert (k, r) (entries w)"
    and entries_add_other: "ok w \<Longrightarrow> k' \<noteq> k \<Longrightarrow> (k', x) \<in> entries (add w k r) \<longleftrightarrow> (k', x) \<in> entries w"
    and entries_remove_role:
      "ok w \<Longrightarrow> entries (remove_role w k r) = entries w - {(k, x) | x. Match x (role_attrs r)}"
    and search_iff: "ok w \<Longrightarrow> search w k \<longleftrightarrow> (\<exists>x. (k, x) \<in> entries w)"
    and search_target_iff:
      "ok w \<Longrightarrow> set (search_target w target) = {x. \<exists>k. (k, x) \<in> entries w \<and> Match x target}"
begin

text \<open>Every role is filed under its own key.\<close>

definition keyed :: "(role \<Rightarrow> u64) \<Rightarrow> 'w \<Rightarrow> bool" where
  "keyed key w \<longleftrightarrow> (\<forall>(k, x) \<in> entries w. k = key x)"

lemma keyed_add: "ok w \<Longrightarrow> keyed key w \<Longrightarrow> k = key r \<Longrightarrow> keyed key (add w k r)"
  using entries_add [of w k r] by (fastforce simp: keyed_def)

lemma keyed_remove_role: "ok w \<Longrightarrow> keyed key w \<Longrightarrow> keyed key (remove_role w k r)"
  by (auto simp: keyed_def entries_remove_role)

text \<open>Removing a list of roles, each under its own key.\<close>

definition remove_all :: "(role \<Rightarrow> u64) \<Rightarrow> role list \<Rightarrow> 'w \<Rightarrow> 'w" where
  "remove_all key rs w = fold (\<lambda>r w. remove_role w (key r) r) rs w"

lemma ok_remove_all: "ok w \<Longrightarrow> ok (remove_all key rs w)"
  by (induction rs arbitrary: w) (simp_all add: remove_all_def ok_remove_role)

lemma entries_remove_all:
  "ok w \<Longrightarrow> entries (remove_all key rs w) =
     {(k, x) \<in> entries w. \<not> (\<exists>r \<in> set rs. k = key r \<and> Match x (role_attrs r))}"
proof (induction rs arbitrary: w)
  case Nil
  then show ?case by (simp add: remove_all_def)
next
  case (Cons r rs)
  have "remove_all key (r # rs) w = remove_all key rs (remove_role w (key r) r)"
    by (simp add: remove_all_def)
  then show ?case
    using Cons.IH [OF ok_remove_role [OF Cons.prems], of "key r" r] Cons.prems
    by (auto simp: entries_remove_role)
qed

text \<open>
  Removing the roles that a search for a process found removes exactly the roles of the process.
\<close>

lemma remove_process:
  assumes "ok w" and "keyed key w"
    and "\<forall>(k, x) \<in> entries w. ra_host_name (role_attrs x) \<noteq> None \<and> ra_process_id (role_attrs x) \<noteq> None"
    and "target = process_attributes host pid"
  shows "entries (remove_all key (search_target w target) w) =
         {(k, x) \<in> entries w. \<not> Match x target}"
proof -
  have "(\<exists>r \<in> set (search_target w target). k = key r \<and> Match x (role_attrs r)) \<longleftrightarrow> Match x target"
    if "(k, x) \<in> entries w" for k x
  proof
    assume "\<exists>r \<in> set (search_target w target). k = key r \<and> Match x (role_attrs r)"
    then obtain r k' where r: "(k', r) \<in> entries w" "Match r target" "Match x (role_attrs r)"
      using search_target_iff [OF assms(1)] by auto
    then show "Match x target"
      using Match_same_process [OF r(3)] assms(3,4) by fastforce
  next
    assume "Match x target"
    then show "\<exists>r \<in> set (search_target w target). k = key r \<and> Match x (role_attrs r)"
      using that assms(2) search_target_iff [OF assms(1)] by (fastforce simp: keyed_def)
  qed
  then show ?thesis
    unfolding entries_remove_all [OF assms(1)] by blast
qed

end

section \<open>Both warehouses fulfil the contract\<close>

lemma SingleValueWarehouse_search_roles:
  "SingleValueWarehouse_Search_target_roles w target found acc =
     (found \<or> (\<exists>(k, x) \<in> set w. Match x target), acc @ filter (\<lambda>x. Match x target) (map snd w))"
  by (induction w target found acc rule: SingleValueWarehouse_Search_target_roles.induct) auto

lemma MultiValueWarehouse_search_roles:
  "MultiValueWarehouse_Search_target_roles w target found acc =
     (found \<or> (\<exists>(k, x) \<in> set w. Match x target), acc @ filter (\<lambda>x. Match x target) (map snd w))"
  by (induction w target found acc rule: MultiValueWarehouse_Search_target_roles.induct) auto

lemma SingleValueWarehouse_Remove_attr_filter:
  "SingleValueWarehouse_Remove_attr w target = filter (\<lambda>(k, x). \<not> Match x target) w"
  by (induction w target rule: SingleValueWarehouse_Remove_attr.induct) auto

lemma MultiValueWarehouse_Remove_attr_filter:
  "MultiValueWarehouse_Remove_attr w target = filter (\<lambda>(k, x). \<not> Match x target) w"
  by (induction w target rule: MultiValueWarehouse_Remove_attr.induct) auto

lemma MultiValueWarehouse_Remove_role_filter:
  "MultiValueWarehouse_Remove_role w key r
   = filter (\<lambda>(k, x). \<not> (k = key \<and> Match x (role_attrs r))) w"
  by (induction w key r rule: MultiValueWarehouse_Remove_role.induct) auto

lemma set_update_distinct:
  "distinct (map fst w) \<Longrightarrow> set (AList.update k v w) = insert (k, v) {(k', x) \<in> set w. k' \<noteq> k}"
  by (induction w) (auto simp: image_iff)

lemma set_delete_distinct: "set (AList.delete k w) = {(k', x) \<in> set w. k' \<noteq> k}"
  by (auto simp: AList.delete_eq)

lemma map_of_search: "map_of w k \<noteq> None \<longleftrightarrow> (\<exists>x. (k, x) \<in> set w)"
  by (force simp: map_of_eq_None_iff)

lemma SingleValueWarehouse_Remove_role_set:
  assumes "distinct (map fst w)"
  shows "set (SingleValueWarehouse_Remove_role w k r) = set w - {(k, x) | x. Match x (role_attrs r)}"
proof (cases "map_of w k")
  case None
  then have "(k, x) \<notin> set w" for x
    using map_of_search [of w k] by blast
  moreover have "SingleValueWarehouse_Remove_role w k r = w"
    using None by (simp add: SingleValueWarehouse_Remove_role_def)
  ultimately show ?thesis by auto
next
  case (Some found)
  have *: "(k, x) \<in> set w \<longleftrightarrow> x = found" for x
    using assms Some map_of_eq_Some_iff [of w k x] by auto
  have "SingleValueWarehouse_Remove_role w k r
        = (if Match found (role_attrs r) then AList.delete k w else w)"
    using Some by (simp add: SingleValueWarehouse_Remove_role_def)
  then show ?thesis
    using * by (auto simp: set_delete_distinct split: if_splits)
qed

lemma set_filter_snd: "set (filter P (map snd w)) = {x. \<exists>k. (k, x) \<in> set w \<and> P x}"
  by force

interpretation single: warehouse
  "\<lambda>w. distinct (map fst w)" "set"
  "\<lambda>w k r. snd (SingleValueWarehouse_Add w k r True)"
  "SingleValueWarehouse_Remove_role" "SingleValueWarehouse_Search"
  "\<lambda>w target. snd (SingleValueWarehouse_Search_target_roles w target False [])"
proof
  fix w :: warehouse_map and k r
  assume "distinct (map fst w)"
  then show "distinct (map fst (SingleValueWarehouse_Remove_role w k r))"
    by (simp add: SingleValueWarehouse_Remove_role_def distinct_delete split: option.split)
qed (simp_all only: SingleValueWarehouse_Remove_role_set
    SingleValueWarehouse_Search_role_def map_of_search SingleValueWarehouse_search_roles snd_conv
    append_Nil set_filter_snd,
    auto simp: SingleValueWarehouse_Add_def distinct_update set_update_distinct)

interpretation multi: warehouse
  "\<lambda>w. True" "set"
  "\<lambda>w k r. snd (MultiValueWarehouse_Add w k r True)"
  "MultiValueWarehouse_Remove_role" "MultiValueWarehouse_Search"
  "\<lambda>w target. snd (MultiValueWarehouse_Search_target_roles w target False [])"
  by unfold_locales
    (simp_all only: MultiValueWarehouse_Remove_role_filter
      MultiValueWarehouse_Search_role_def map_of_search MultiValueWarehouse_search_roles snd_conv
      append_Nil set_filter_snd,
      auto simp: MultiValueWarehouse_Add_def)

end
