(* ===== verification/TopoGraph.thy ===== *)
theory TopoGraph
  imports Prelude "HOL-Library.AList"
begin

text \<open>
  The graph of the data flow between nodes (\<open>cyber/service_discovery/container/graph.cc\<close>).

  A vertex is the name of a node and an edge value the name of a channel.  A node that writes a
  channel is a source of the channel and a node that reads it a destination; the adjacency list
  has an entry for every source and destination of the same channel, under a key built from the
  channel and the destination.  The hash tables are association lists, \<open>m[k]\<close> on a missing key
  being the default entry of the C++ operator.

  The specification keeps nothing but the set of (channel, writer) and (channel, reader) pairs.
  The theory shows that after any sequence of insertions and deletions the direction that the
  breadth-first search reports is the one of the specification, provided the keys that the
  adjacency list is built with are not ambiguous, and that ambiguous keys lose edges.
\<close>

section \<open>Edges and the graph\<close>

record edge =
  e_src :: string
  e_dst :: string
  e_value :: string

definition Vertice_IsDummy :: "string \<Rightarrow> bool" where
  "Vertice_IsDummy v \<longleftrightarrow> v = []"

definition Edge_IsValid :: "edge \<Rightarrow> bool" where
  "Edge_IsValid e =
     (if e_value e = [] then False
      else if Vertice_IsDummy (e_src e) \<and> Vertice_IsDummy (e_dst e) then False
      else True)"

definition Edge_GetKey :: "edge \<Rightarrow> string" where
  "Edge_GetKey e = e_value e @ ''_'' @ e_dst e"

type_synonym vertice_set = "(string \<times> string) list"

record related_vertices =
  rv_src :: vertice_set
  rv_dst :: vertice_set

record graph =
  g_edges :: "(string \<times> related_vertices) list"
  g_list :: "(string \<times> vertice_set) list"

datatype flow_direction = UNREACHABLE | UPSTREAM | DOWNSTREAM

definition Graph_new :: graph where
  "Graph_new = \<lparr>g_edges = [], g_list = []\<rparr>"

definition RelatedVertices_new :: related_vertices where
  "RelatedVertices_new = \<lparr>rv_src = [], rv_dst = []\<rparr>"

definition edges_at :: "graph \<Rightarrow> string \<Rightarrow> related_vertices" where
  "edges_at g v = (case map_of (g_edges g) v of Some rv \<Rightarrow> rv | None \<Rightarrow> RelatedVertices_new)"

definition list_at :: "(string \<times> vertice_set) list \<Rightarrow> string \<Rightarrow> vertice_set" where
  "list_at l v = (case map_of l v of Some vs \<Rightarrow> vs | None \<Rightarrow> [])"

definition InsertCompleteEdge :: "edge \<Rightarrow> graph \<Rightarrow> graph" where
  "InsertCompleteEdge e g =
     (let l = g_list g;
          l = (if map_of l (e_src e) = None then AList.update (e_src e) [] l else l);
          l = (if map_of l (e_dst e) = None then AList.update (e_dst e) [] l else l)
      in g\<lparr>g_list :=
            AList.update (e_src e) (AList.update (Edge_GetKey e) (e_dst e) (list_at l (e_src e))) l\<rparr>)"

definition DeleteCompleteEdge :: "edge \<Rightarrow> graph \<Rightarrow> graph" where
  "DeleteCompleteEdge e g =
     g\<lparr>g_list := AList.update (e_src e)
                 (AList.delete (Edge_GetKey e) (list_at (g_list g) (e_src e))) (g_list g)\<rparr>"

definition InsertOutgoingEdge :: "edge \<Rightarrow> graph \<Rightarrow> graph" where
  "InsertOutgoingEdge e g =
     (let rv = edges_at g (e_value e)
      in if map_of (rv_src rv) (e_src e) \<noteq> None then g
         else
           let rv = rv\<lparr>rv_src := AList.update (e_src e) (e_src e) (rv_src rv)\<rparr>;
               g = g\<lparr>g_edges := AList.update (e_value e) rv (g_edges g)\<rparr>
           in fold (\<lambda>(k, d). InsertCompleteEdge
                      \<lparr>e_src = e_src e, e_dst = d, e_value = e_value e\<rparr>) (rv_dst rv) g)"

definition InsertIncomingEdge :: "edge \<Rightarrow> graph \<Rightarrow> graph" where
  "InsertIncomingEdge e g =
     (let rv = edges_at g (e_value e)
      in if map_of (rv_dst rv) (e_dst e) \<noteq> None then g
         else
           let rv = rv\<lparr>rv_dst := AList.update (e_dst e) (e_dst e) (rv_dst rv)\<rparr>;
               g = g\<lparr>g_edges := AList.update (e_value e) rv (g_edges g)\<rparr>
           in fold (\<lambda>(k, s). InsertCompleteEdge
                      \<lparr>e_src = s, e_dst = e_dst e, e_value = e_value e\<rparr>) (rv_src rv) g)"

definition DeleteOutgoingEdge :: "edge \<Rightarrow> graph \<Rightarrow> graph" where
  "DeleteOutgoingEdge e g =
     (let rv = edges_at g (e_value e)
      in if map_of (rv_src rv) (e_src e) = None then g
         else
           let rv = rv\<lparr>rv_src := AList.delete (e_src e) (rv_src rv)\<rparr>;
               g = g\<lparr>g_edges := AList.update (e_value e) rv (g_edges g)\<rparr>
           in fold (\<lambda>(k, d). DeleteCompleteEdge
                      \<lparr>e_src = e_src e, e_dst = d, e_value = e_value e\<rparr>) (rv_dst rv) g)"

definition DeleteIncomingEdge :: "edge \<Rightarrow> graph \<Rightarrow> graph" where
  "DeleteIncomingEdge e g =
     (let rv = edges_at g (e_value e)
      in if map_of (rv_dst rv) (e_dst e) = None then g
         else
           let rv = rv\<lparr>rv_dst := AList.delete (e_dst e) (rv_dst rv)\<rparr>;
               g = g\<lparr>g_edges := AList.update (e_value e) rv (g_edges g)\<rparr>
           in fold (\<lambda>(k, s). DeleteCompleteEdge
                      \<lparr>e_src = s, e_dst = e_dst e, e_value = e_value e\<rparr>) (rv_src rv) g)"

definition Graph_Insert :: "edge \<Rightarrow> graph \<Rightarrow> graph" where
  "Graph_Insert e g =
     (if \<not> Edge_IsValid e then g
      else
        let g = (if map_of (g_edges g) (e_value e) = None
                 then g\<lparr>g_edges := AList.update (e_value e) RelatedVertices_new (g_edges g)\<rparr> else g);
            g = (if \<not> Vertice_IsDummy (e_src e) then InsertOutgoingEdge e g else g)
        in if \<not> Vertice_IsDummy (e_dst e) then InsertIncomingEdge e g else g)"

definition Graph_Delete :: "edge \<Rightarrow> graph \<Rightarrow> graph" where
  "Graph_Delete e g =
     (if \<not> Edge_IsValid e then g
      else if map_of (g_edges g) (e_value e) = None then g
      else
        let g = (if \<not> Vertice_IsDummy (e_src e) then DeleteOutgoingEdge e g else g)
        in if \<not> Vertice_IsDummy (e_dst e) then DeleteIncomingEdge e g else g)"

abbreviation Graph_GetNumOfEdge :: "graph \<Rightarrow> u32" where
  "Graph_GetNumOfEdge g \<equiv> fold (\<lambda>(k, vs) n. n + of_nat (length vs)) (g_list g) 0"

text \<open>
  The loop of \<open>LevelTraverse\<close>.  The table \<open>visited\<close> is kept as the list of the keys whose entry is
  true.
\<close>

function level_loop :: "graph \<Rightarrow> string \<Rightarrow> string list \<Rightarrow> string list \<Rightarrow> string list" where
  "level_loop g end_v [] visited = visited"
| "level_loop g end_v (curr_v # unvisited) visited =
     (if curr_v \<in> set visited then level_loop g end_v unvisited visited
      else if curr_v = end_v then curr_v # visited
      else level_loop g end_v (unvisited @ map snd (list_at (g_list g) curr_v)) (curr_v # visited))"
  by pat_completeness auto
termination
proof (relation "measures [\<lambda>(g, e, q, vis). card (fst ` set (g_list g) - set vis), \<lambda>(g, e, q, vis). length q]",
    goal_cases)
  case (3 g end_v v q vis)
  show ?case
  proof (cases "v \<in> fst ` set (g_list g)")
    case True
    then have "card (fst ` set (g_list g) - insert v (set vis)) < card (fst ` set (g_list g) - set vis)"
      using 3 by (intro psubset_card_mono) auto
    then show ?thesis by simp
  next
    case False
    then have "list_at (g_list g) v = []"
      by (simp add: list_at_def map_of_eq_None_iff [THEN iffD2])
    moreover have "fst ` set (g_list g) - insert v (set vis) = fst ` set (g_list g) - set vis"
      using False by blast
    ultimately show ?thesis by simp
  qed
qed simp_all

definition LevelTraverse :: "graph \<Rightarrow> string \<Rightarrow> string \<Rightarrow> bool" where
  "LevelTraverse g start end_v \<longleftrightarrow> end_v \<in> set (level_loop g end_v [start] [])"

definition Graph_GetDirectionOf :: "graph \<Rightarrow> string \<Rightarrow> string \<Rightarrow> flow_direction" where
  "Graph_GetDirectionOf g lhs rhs =
     (if Vertice_IsDummy lhs \<or> Vertice_IsDummy rhs then UNREACHABLE
      else if map_of (g_list g) lhs = None \<or> map_of (g_list g) rhs = None then UNREACHABLE
      else if LevelTraverse g lhs rhs then UPSTREAM
      else if LevelTraverse g rhs lhs then DOWNSTREAM
      else UNREACHABLE)"

section \<open>The search is reachability\<close>

definition adjacent :: "graph \<Rightarrow> (string \<times> string) set" where
  "adjacent g = {(a, b). b \<in> snd ` set (list_at (g_list g) a)}"

lemma level_loop_sound:
  "set (level_loop g end_v q vis) \<subseteq> set vis \<union> (adjacent g)\<^sup>* `` set q"
proof (induction g end_v q vis rule: level_loop.induct)
  case (2 g end_v v q vis)
  have "(adjacent g)\<^sup>* `` set (map snd (list_at (g_list g) v)) \<subseteq> (adjacent g)\<^sup>* `` {v}"
    by (auto simp: adjacent_def intro: converse_rtrancl_into_rtrancl)
  moreover have "(adjacent g)\<^sup>* `` set (v # q) = (adjacent g)\<^sup>* `` {v} \<union> (adjacent g)\<^sup>* `` set q"
    and "v \<in> (adjacent g)\<^sup>* `` {v}"
    by auto
  ultimately show ?case
    using 2 by (simp add: Image_Un) blast
qed simp

lemma level_loop_complete:
  assumes "end_v \<in> (adjacent g)\<^sup>* `` (set q \<union> set vis)" and "end_v \<notin> set vis"
    and "adjacent g `` set vis \<subseteq> set q \<union> set vis"
  shows "end_v \<in> set (level_loop g end_v q vis)"
  using assms
proof (induction g end_v q vis rule: level_loop.induct)
  case (1 g end_v vis)
  have "(adjacent g)\<^sup>* `` set vis = set vis"
    using 1(3) by (intro Image_closed_trancl) simp
  then show ?case using 1 by simp
next
  case (2 g end_v v q vis)
  have succ: "adjacent g `` {v} = snd ` set (list_at (g_list g) v)"
    by (auto simp: adjacent_def)
  consider "v \<in> set vis" | "v \<notin> set vis" "v = end_v" | "v \<notin> set vis" "v \<noteq> end_v" by blast
  then show ?case
  proof cases
    case 1
    then have "set (v # q) \<union> set vis = set q \<union> set vis" by auto
    then show ?thesis using 2 1 by simp
  next
    case 3
    have "end_v \<in> (adjacent g)\<^sup>* `` (set (q @ map snd (list_at (g_list g) v)) \<union> set (v # vis))"
      using "2.prems"(1) by (auto simp: Image_Un)
    moreover have "adjacent g `` set (v # vis)
        \<subseteq> set (q @ map snd (list_at (g_list g) v)) \<union> set (v # vis)"
      using "2.prems"(3) succ by (auto simp: Image_def)
    ultimately show ?thesis
      using "2.IH"(2) "2.prems"(2) 3 by simp
  qed simp
qed

lemma LevelTraverse_iff: "LevelTraverse g a b \<longleftrightarrow> (a, b) \<in> (adjacent g)\<^sup>*"
  using level_loop_sound [of g b "[a]" "[]"] level_loop_complete [of b g "[a]" "[]"]
  by (auto simp: LevelTraverse_def)

section \<open>Operations on the adjacency list\<close>

definition edge_key :: "string \<times> string \<Rightarrow> string" where
  "edge_key = (\<lambda>(v, d). v @ ''_'' @ d)"

lemma edge_key_dst [simp]: "edge_key (v, d) = edge_key (v, d') \<longleftrightarrow> d = d'"
  by (simp add: edge_key_def)

lemma Edge_GetKey_edge_key: "Edge_GetKey e = edge_key (e_value e, e_dst e)"
  by (simp add: Edge_GetKey_def edge_key_def)

lemma list_at_update: "list_at (AList.update k vs l) k' = (if k' = k then vs else list_at l k')"
  by (simp add: list_at_def update_conv)

definition known :: "graph \<Rightarrow> string set" where
  "known g = fst ` set (g_list g)"

lemma known_iff: "v \<in> known g \<longleftrightarrow> map_of (g_list g) v \<noteq> None"
  by (simp add: known_def map_of_eq_None_iff)

lemma ensure_entry:
  "list_at (if map_of l v = None then AList.update v [] l else l) s = list_at l s"
  "fst ` set (if map_of l v = None then AList.update v [] l else l) = insert v (fst ` set l)"
proof -
  show "list_at (if map_of l v = None then AList.update v [] l else l) s = list_at l s"
    by (simp add: list_at_update) (simp add: list_at_def)
  show "fst ` set (if map_of l v = None then AList.update v [] l else l) = insert v (fst ` set l)"
    using map_of_eq_None_iff [of l v] by (simp add: dom_update insert_absorb)
qed

lemma InsertCompleteEdge_simps:
  "g_edges (InsertCompleteEdge e g) = g_edges g"
  "known (InsertCompleteEdge e g) = known g \<union> {e_src e, e_dst e}"
  "list_at (g_list (InsertCompleteEdge e g)) s =
     (if s = e_src e
      then AList.update (edge_key (e_value e, e_dst e)) (e_dst e) (list_at (g_list g) s)
      else list_at (g_list g) s)"
proof -
  show "g_edges (InsertCompleteEdge e g) = g_edges g"
    by (simp add: InsertCompleteEdge_def Let_def)
  show "known (InsertCompleteEdge e g) = known g \<union> {e_src e, e_dst e}"
    by (simp add: known_def InsertCompleteEdge_def Let_def dom_update ensure_entry insert_commute
        split del: if_split)
  show "list_at (g_list (InsertCompleteEdge e g)) s =
     (if s = e_src e
      then AList.update (edge_key (e_value e, e_dst e)) (e_dst e) (list_at (g_list g) s)
      else list_at (g_list g) s)"
    by (simp add: InsertCompleteEdge_def Let_def list_at_update ensure_entry Edge_GetKey_edge_key
        cong: if_cong split del: if_split)
qed

lemma DeleteCompleteEdge_simps:
  "g_edges (DeleteCompleteEdge e g) = g_edges g"
  "known (DeleteCompleteEdge e g) = insert (e_src e) (known g)"
  "list_at (g_list (DeleteCompleteEdge e g)) s =
     (if s = e_src e
      then AList.delete (edge_key (e_value e, e_dst e)) (list_at (g_list g) s)
      else list_at (g_list g) s)"
  by (simp_all add: DeleteCompleteEdge_def known_def list_at_update Edge_GetKey_edge_key
      dom_update)

text \<open>The edges of the adjacency list of a graph, with their keys.\<close>

definition entry :: "graph \<Rightarrow> string \<Rightarrow> string \<Rightarrow> string \<Rightarrow> bool" where
  "entry g s key d \<longleftrightarrow> map_of (list_at (g_list g) s) key = Some d"

definition distinct_keys :: "graph \<Rightarrow> bool" where
  "distinct_keys g \<longleftrightarrow> (\<forall>s. distinct (map fst (list_at (g_list g) s)))"

lemma entry_InsertCompleteEdge:
  "entry (InsertCompleteEdge e g) s key d \<longleftrightarrow>
     (if s = e_src e \<and> key = edge_key (e_value e, e_dst e) then d = e_dst e else entry g s key d)"
  by (auto simp: entry_def InsertCompleteEdge_simps update_conv)

lemma entry_DeleteCompleteEdge:
  "entry (DeleteCompleteEdge e g) s key d \<longleftrightarrow>
     \<not> (s = e_src e \<and> key = edge_key (e_value e, e_dst e)) \<and> entry g s key d"
  by (auto simp: entry_def DeleteCompleteEdge_simps delete_conv)

text \<open>The loops over the destinations of a new source and over the sources of a new destination.\<close>

lemma insert_loop:
  "g_edges (fold InsertCompleteEdge es g) = g_edges g"
  "known (fold InsertCompleteEdge es g) = known g \<union> e_src ` set es \<union> e_dst ` set es"
  "distinct_keys g \<Longrightarrow> distinct_keys (fold InsertCompleteEdge es g)"
  by (induction es arbitrary: g)
    (auto simp: InsertCompleteEdge_simps distinct_keys_def distinct_update)

lemma entry_insert_loop:
  assumes "\<forall>e \<in> set es. e_value e = v"
  shows "entry (fold InsertCompleteEdge es g) s key d \<longleftrightarrow>
    (if \<exists>e \<in> set es. s = e_src e \<and> key = edge_key (v, e_dst e) then key = edge_key (v, d)
     else entry g s key d)"
  using assms
proof (induction es arbitrary: g)
  case (Cons e es)
  then show ?case
    by (cases "s = e_src e \<and> key = edge_key (v, e_dst e)") (auto simp: entry_InsertCompleteEdge)
qed simp

lemma delete_loop:
  "g_edges (fold DeleteCompleteEdge es g) = g_edges g"
  "known (fold DeleteCompleteEdge es g) = known g \<union> e_src ` set es"
  "distinct_keys g \<Longrightarrow> distinct_keys (fold DeleteCompleteEdge es g)"
proof -
  show "g_edges (fold DeleteCompleteEdge es g) = g_edges g"
    by (induction es arbitrary: g) (simp_all add: DeleteCompleteEdge_simps)
  show "known (fold DeleteCompleteEdge es g) = known g \<union> e_src ` set es"
    by (induction es arbitrary: g) (auto simp: DeleteCompleteEdge_simps)
  show "distinct_keys g \<Longrightarrow> distinct_keys (fold DeleteCompleteEdge es g)"
    by (induction es arbitrary: g)
      (auto simp: DeleteCompleteEdge_simps distinct_keys_def distinct_delete)
qed

lemma entry_delete_loop:
  "entry (fold DeleteCompleteEdge es g) s key d \<longleftrightarrow>
    \<not> (\<exists>e \<in> set es. s = e_src e \<and> key = edge_key (e_value e, e_dst e)) \<and> entry g s key d"
  by (induction es arbitrary: g) (auto simp: entry_DeleteCompleteEdge)

section \<open>The specification\<close>

datatype graph_op = Ins edge | Del edge

definition graph_step :: "graph_op \<Rightarrow> graph \<Rightarrow> graph" where
  "graph_step opr g = (case opr of Ins e \<Rightarrow> Graph_Insert e g | Del e \<Rightarrow> Graph_Delete e g)"

definition graph_run :: "graph_op list \<Rightarrow> graph" where
  "graph_run ops = fold graph_step ops Graph_new"

text \<open>
  The specification: the (channel, writer) and the (channel, reader) pairs that the operations
  leave, and the flow of data from writers to readers.
\<close>

definition src_pairs :: "edge \<Rightarrow> (string \<times> string) set" where
  "src_pairs e = (if Edge_IsValid e \<and> e_src e \<noteq> [] then {(e_value e, e_src e)} else {})"

definition dst_pairs :: "edge \<Rightarrow> (string \<times> string) set" where
  "dst_pairs e = (if Edge_IsValid e \<and> e_dst e \<noteq> [] then {(e_value e, e_dst e)} else {})"

fun spec_step ::
  "graph_op \<Rightarrow> (string \<times> string) set \<times> (string \<times> string) set
     \<Rightarrow> (string \<times> string) set \<times> (string \<times> string) set" where
  "spec_step (Ins e) (W, R) = (W \<union> src_pairs e, R \<union> dst_pairs e)"
| "spec_step (Del e) (W, R) = (W - src_pairs e, R - dst_pairs e)"

definition spec_run :: "graph_op list \<Rightarrow> (string \<times> string) set \<times> (string \<times> string) set" where
  "spec_run ops = fold spec_step ops ({}, {})"

definition flow :: "(string \<times> string) set \<times> (string \<times> string) set \<Rightarrow> (string \<times> string) set" where
  "flow = (\<lambda>(W, R). {(s, d). \<exists>v. (v, s) \<in> W \<and> (v, d) \<in> R})"

text \<open>The pairs of a channel and a reader that the operations mention.\<close>

fun op_readers :: "graph_op \<Rightarrow> (string \<times> string) set" where
  "op_readers (Ins e) = dst_pairs e"
| "op_readers (Del e) = {}"

definition readers_mentioned :: "graph_op list \<Rightarrow> (string \<times> string) set" where
  "readers_mentioned ops = (\<Union>opr \<in> set ops. op_readers opr)"

section \<open>The graph implements the specification\<close>

definition src_keys :: "graph \<Rightarrow> (string \<times> string) set" where
  "src_keys g = {(v, s). (s, s) \<in> set (rv_src (edges_at g v))}"

definition dst_keys :: "graph \<Rightarrow> (string \<times> string) set" where
  "dst_keys g = {(v, d). (d, d) \<in> set (rv_dst (edges_at g v))}"

text \<open>
  The invariant, relative to a set \<open>K\<close> of pairs of a channel and a reader without ambiguous keys.
\<close>

definition graph_ok :: "(string \<times> string) set \<Rightarrow> graph \<Rightarrow> bool" where
  "graph_ok K g \<longleftrightarrow>
     (\<forall>v k x. (k, x) \<in> set (rv_src (edges_at g v)) \<longrightarrow> x = k \<and> k \<noteq> [])
     \<and> (\<forall>v k x. (k, x) \<in> set (rv_dst (edges_at g v)) \<longrightarrow> x = k \<and> k \<noteq> [])
     \<and> dst_keys g \<subseteq> K
     \<and> distinct_keys g
     \<and> (\<forall>s key d. entry g s key d \<longleftrightarrow>
           (\<exists>v. key = edge_key (v, d) \<and> (v, s) \<in> src_keys g \<and> (v, d) \<in> dst_keys g))
     \<and> (\<forall>v s d. (v, s) \<in> src_keys g \<longrightarrow> (v, d) \<in> dst_keys g \<longrightarrow> {s, d} \<subseteq> known g)"

lemma edges_at_update:
  "edges_at (g\<lparr>g_edges := AList.update v rv (g_edges g)\<rparr>) v' = (if v' = v then rv else edges_at g v')"
  by (simp add: edges_at_def update_conv)

lemma edges_at_fold:
  "edges_at (fold InsertCompleteEdge es g) v = edges_at g v"
  "edges_at (fold DeleteCompleteEdge es g) v = edges_at g v"
  by (simp_all add: edges_at_def insert_loop(1) delete_loop(1))

lemma graph_ok_new: "graph_ok K Graph_new"
  by (simp add: graph_ok_def Graph_new_def edges_at_def RelatedVertices_new_def dst_keys_def src_keys_def
      distinct_keys_def list_at_def entry_def known_def)

lemma map_of_self_keys:
  assumes "\<forall>(k, x) \<in> set m. x = k"
  shows "map_of m k \<noteq> None \<longleftrightarrow> (k, k) \<in> set m"
  using assms by (force simp: map_of_eq_None_iff)

lemma set_update_self_keys:
  assumes "\<forall>(k, x) \<in> set m. x = k"
  shows "set (AList.update s s m) = insert (s, s) (set m)"
  using assms by (induction m) auto

lemma fold_edges:
  "fold (\<lambda>(k, x). F (mk x)) m g = fold F (map (\<lambda>(k, x). mk x) m) g"
  by (induction m arbitrary: g) auto

lemma graph_okI:
  assumes "\<And>v k x. (k, x) \<in> set (rv_src (edges_at g v)) \<Longrightarrow> x = k \<and> k \<noteq> []"
    and "\<And>v k x. (k, x) \<in> set (rv_dst (edges_at g v)) \<Longrightarrow> x = k \<and> k \<noteq> []"
    and "dst_keys g \<subseteq> K" and "distinct_keys g"
    and "\<And>s key d. entry g s key d \<longleftrightarrow>
           (\<exists>v. key = edge_key (v, d) \<and> (v, s) \<in> src_keys g \<and> (v, d) \<in> dst_keys g)"
    and "\<And>v s d. (v, s) \<in> src_keys g \<Longrightarrow> (v, d) \<in> dst_keys g \<Longrightarrow> {s, d} \<subseteq> known g"
  shows "graph_ok K g"
  using assms by (simp add: graph_ok_def)

lemma graph_okD:
  assumes "graph_ok K g"
  shows "(k, x) \<in> set (rv_src (edges_at g v)) \<Longrightarrow> x = k \<and> k \<noteq> []"
    and "(k, x) \<in> set (rv_dst (edges_at g v)) \<Longrightarrow> x = k \<and> k \<noteq> []"
    and "dst_keys g \<subseteq> K" and "distinct_keys g"
    and "entry g s key d \<longleftrightarrow>
           (\<exists>v. key = edge_key (v, d) \<and> (v, s) \<in> src_keys g \<and> (v, d) \<in> dst_keys g)"
    and "(v, s) \<in> src_keys g \<Longrightarrow> (v, d) \<in> dst_keys g \<Longrightarrow> {s, d} \<subseteq> known g"
  using assms by (simp_all add: graph_ok_def)

lemma edges_at_self:
  assumes "graph_ok K g"
  shows "map_of (rv_src (edges_at g v)) s \<noteq> None \<longleftrightarrow> (v, s) \<in> src_keys g"
    and "map_of (rv_dst (edges_at g v)) s \<noteq> None \<longleftrightarrow> (v, s) \<in> dst_keys g"
    and "(s, x) \<in> set (rv_src (edges_at g v)) \<longleftrightarrow> x = s \<and> (v, s) \<in> src_keys g"
    and "(s, x) \<in> set (rv_dst (edges_at g v)) \<longleftrightarrow> x = s \<and> (v, s) \<in> dst_keys g"
    and "set (AList.update s s (rv_src (edges_at g v))) = insert (s, s) (set (rv_src (edges_at g v)))"
    and "set (AList.update s s (rv_dst (edges_at g v))) = insert (s, s) (set (rv_dst (edges_at g v)))"
proof -
  have src: "\<forall>(k, x) \<in> set (rv_src (edges_at g v)). x = k"
    and dst: "\<forall>(k, x) \<in> set (rv_dst (edges_at g v)). x = k"
    using graph_okD(1,2) [OF assms] by blast+
  show "map_of (rv_src (edges_at g v)) s \<noteq> None \<longleftrightarrow> (v, s) \<in> src_keys g"
    using map_of_self_keys [OF src] by (simp add: src_keys_def)
  show "map_of (rv_dst (edges_at g v)) s \<noteq> None \<longleftrightarrow> (v, s) \<in> dst_keys g"
    using map_of_self_keys [OF dst] by (simp add: dst_keys_def)
  show "(s, x) \<in> set (rv_src (edges_at g v)) \<longleftrightarrow> x = s \<and> (v, s) \<in> src_keys g"
    using src by (auto simp: src_keys_def)
  show "(s, x) \<in> set (rv_dst (edges_at g v)) \<longleftrightarrow> x = s \<and> (v, s) \<in> dst_keys g"
    using dst by (auto simp: dst_keys_def)
qed (use graph_okD(1,2) [OF assms] in \<open>intro set_update_self_keys; blast\<close>)+

text \<open>
  A step that changes the sources and destinations of one channel and inserts or deletes the
  complete edges that this adds or removes keeps the invariant.
\<close>

lemma keys_after_update:
  assumes "g_edges g' = AList.update v rv (g_edges g)"
  shows "edges_at g' v' = (if v' = v then rv else edges_at g v')"
    and "(v', s) \<in> src_keys g' \<longleftrightarrow> (if v' = v then (s, s) \<in> set (rv_src rv) else (v', s) \<in> src_keys g)"
    and "(v', s) \<in> dst_keys g' \<longleftrightarrow> (if v' = v then (s, s) \<in> set (rv_dst rv) else (v', s) \<in> dst_keys g)"
  using assms by (simp_all add: src_keys_def dst_keys_def edges_at_def update_conv)

lemma insert_edges_ok:
  assumes ok: "graph_ok K g" and inj: "inj_on edge_key K"
    and rv: "\<And>k x. (k, x) \<in> set (rv_src rv) \<union> set (rv_dst rv) \<Longrightarrow> x = k \<and> k \<noteq> []"
    and K: "\<And>d. (d, d) \<in> set (rv_dst rv) \<Longrightarrow> (v, d) \<in> K"
    and vals: "\<forall>e \<in> set es. e_value e = v"
    and prod: "\<And>s d. (s, s) \<in> set (rv_src rv) \<and> (d, d) \<in> set (rv_dst rv) \<longleftrightarrow>
        (v, s) \<in> src_keys g \<and> (v, d) \<in> dst_keys g \<or> (\<exists>e \<in> set es. e_src e = s \<and> e_dst e = d)"
    and g': "g' = fold InsertCompleteEdge es (g\<lparr>g_edges := AList.update v rv (g_edges g)\<rparr>)"
  shows "graph_ok K g'"
proof -
  have "g_edges g' = AList.update v rv (g_edges g)" by (simp add: g' insert_loop(1))
  note keys = keys_after_update [OF this] and okD = graph_okD [OF ok]
  show ?thesis
  proof (rule graph_okI)
    show "x = k \<and> k \<noteq> []" if "(k, x) \<in> set (rv_src (edges_at g' v'))" for v' k x
      using that rv okD(1) unfolding keys(1) by (auto split: if_splits)
    show "x = k \<and> k \<noteq> []" if "(k, x) \<in> set (rv_dst (edges_at g' v'))" for v' k x
      using that rv okD(2) unfolding keys(1) by (auto split: if_splits)
    show K': "dst_keys g' \<subseteq> K" using okD(3) K by (auto simp: keys split: if_splits)
    show "distinct_keys g'"
      unfolding g' using okD(4) by (intro insert_loop(3)) (simp add: distinct_keys_def)
    show "{s, d} \<subseteq> known g'" if "(v', s) \<in> src_keys g'" "(v', d) \<in> dst_keys g'" for v' s d
    proof -
      have "known g \<subseteq> known g'" and "e_src ` set es \<union> e_dst ` set es \<subseteq> known g'"
        unfolding g' insert_loop(2) by (auto simp: known_def)
      moreover have "(v', s) \<in> src_keys g \<and> (v', d) \<in> dst_keys g
          \<or> (\<exists>e \<in> set es. e_src e = s \<and> e_dst e = d)"
        using that prod [of s d] by (simp add: keys split: if_splits)
      ultimately show ?thesis using okD(6) [of v' s d] by auto
    qed
    show "entry g' s key d \<longleftrightarrow>
        (\<exists>v. key = edge_key (v, d) \<and> (v, s) \<in> src_keys g' \<and> (v, d) \<in> dst_keys g')" for s key d
    proof -
      have entry: "entry g' s key d \<longleftrightarrow>
          (if \<exists>e \<in> set es. s = e_src e \<and> key = edge_key (v, e_dst e) then key = edge_key (v, d)
           else entry g s key d)"
        unfolding g' entry_insert_loop [OF vals] by (simp add: entry_def cong: if_cong)
      have new: "(v', s) \<in> src_keys g' \<and> (v', x) \<in> dst_keys g' \<longleftrightarrow>
          (v', s) \<in> src_keys g \<and> (v', x) \<in> dst_keys g
          \<or> v' = v \<and> (\<exists>e \<in> set es. e_src e = s \<and> e_dst e = x)" for v' x
        using prod [of s x] by (auto simp: keys)
      show ?thesis
      proof (cases "\<exists>e \<in> set es. s = e_src e \<and> key = edge_key (v, e_dst e)")
        case True
        then obtain x where x: "key = edge_key (v, x)" "(v, s) \<in> src_keys g'" "(v, x) \<in> dst_keys g'"
          using new by blast
        then have "key = edge_key (v', d) \<and> (v', d) \<in> dst_keys g' \<Longrightarrow> v' = v \<and> d = x" for v'
          using inj_onD [OF inj, of "(v', d)" "(v, x)"] K' by auto
        then show ?thesis using True x entry by auto
      next
        case False
        then show ?thesis unfolding entry okD(5) using new by (simp only: if_False) blast
      qed
    qed
  qed
qed

lemma delete_edges_ok:
  assumes ok: "graph_ok K g" and inj: "inj_on edge_key K"
    and rv: "\<And>k x. (k, x) \<in> set (rv_src rv) \<union> set (rv_dst rv) \<Longrightarrow> x = k \<and> k \<noteq> []"
    and vals: "\<forall>e \<in> set es. e_value e = v"
    and sub: "\<And>d. (d, d) \<in> set (rv_dst rv) \<Longrightarrow> (v, d) \<in> dst_keys g"
      "\<And>e. e \<in> set es \<Longrightarrow> (v, e_src e) \<in> src_keys g \<and> (v, e_dst e) \<in> dst_keys g"
    and prod: "\<And>s d. (s, s) \<in> set (rv_src rv) \<and> (d, d) \<in> set (rv_dst rv) \<longleftrightarrow>
        ((v, s) \<in> src_keys g \<and> (v, d) \<in> dst_keys g) \<and> \<not> (\<exists>e \<in> set es. e_src e = s \<and> e_dst e = d)"
    and g': "g' = fold DeleteCompleteEdge es (g\<lparr>g_edges := AList.update v rv (g_edges g)\<rparr>)"
  shows "graph_ok K g'"
proof -
  have "g_edges g' = AList.update v rv (g_edges g)" by (simp add: g' delete_loop(1))
  note keys = keys_after_update [OF this] and okD = graph_okD [OF ok]
  show ?thesis
  proof (rule graph_okI)
    show "x = k \<and> k \<noteq> []" if "(k, x) \<in> set (rv_src (edges_at g' v'))" for v' k x
      using that rv okD(1) unfolding keys(1) by (auto split: if_splits)
    show "x = k \<and> k \<noteq> []" if "(k, x) \<in> set (rv_dst (edges_at g' v'))" for v' k x
      using that rv okD(2) unfolding keys(1) by (auto split: if_splits)
    show "dst_keys g' \<subseteq> K" using okD(3) sub(1) by (auto simp: keys split: if_splits)
    show "distinct_keys g'"
      unfolding g' using okD(4) by (intro delete_loop(3)) (simp add: distinct_keys_def)
    show "{s, d} \<subseteq> known g'" if "(v', s) \<in> src_keys g'" "(v', d) \<in> dst_keys g'" for v' s d
    proof -
      have "known g \<subseteq> known g'"
        unfolding g' delete_loop(2) by (auto simp: known_def)
      moreover have "(v', s) \<in> src_keys g \<and> (v', d) \<in> dst_keys g"
        using that prod [of s d] by (simp add: keys split: if_splits)
      ultimately show ?thesis using okD(6) [of v' s d] by auto
    qed
    show "entry g' s key d \<longleftrightarrow>
        (\<exists>v. key = edge_key (v, d) \<and> (v, s) \<in> src_keys g' \<and> (v, d) \<in> dst_keys g')" for s key d
    proof -
      have entry: "entry g' s key d \<longleftrightarrow>
          \<not> (\<exists>e \<in> set es. s = e_src e \<and> key = edge_key (v, e_dst e)) \<and> entry g s key d"
        unfolding g' entry_delete_loop using vals by (auto simp: entry_def)
      have new: "(v', s) \<in> src_keys g' \<and> (v', x) \<in> dst_keys g' \<longleftrightarrow>
          ((v', s) \<in> src_keys g \<and> (v', x) \<in> dst_keys g)
          \<and> \<not> (v' = v \<and> (\<exists>e \<in> set es. e_src e = s \<and> e_dst e = x))" for v' x
        using prod [of s x] by (auto simp: keys)
      have uniq: "v' = v \<and> d = e_dst e"
        if "key = edge_key (v', d)" "(v', d) \<in> dst_keys g" "e \<in> set es" "key = edge_key (v, e_dst e)" for v' e
        using inj_onD [OF inj, of "(v', d)" "(v, e_dst e)"] that sub(2) [of e] okD(3) by auto
      show ?thesis
        unfolding entry okD(5) new using uniq by blast
    qed
  qed
qed

lemma out_edges:
  "(\<exists>e' \<in> set (map (\<lambda>(k, x). \<lparr>e_src = s0, e_dst = x, e_value = v\<rparr>) m). e_src e' = s \<and> e_dst e' = d)
   \<longleftrightarrow> s = s0 \<and> (\<exists>k. (k, d) \<in> set m)"
  by force

lemma in_edges:
  "(\<exists>e' \<in> set (map (\<lambda>(k, x). \<lparr>e_src = x, e_dst = d0, e_value = v\<rparr>) m). e_src e' = s \<and> e_dst e' = d)
   \<longleftrightarrow> d = d0 \<and> (\<exists>k. (k, s) \<in> set m)"
  by force

lemma InsertOutgoingEdge_ok:
  assumes ok: "graph_ok K g" and inj: "inj_on edge_key K" and "e_src e \<noteq> []"
  shows "graph_ok K (InsertOutgoingEdge e g)"
    and "src_keys (InsertOutgoingEdge e g) = insert (e_value e, e_src e) (src_keys g)"
    and "dst_keys (InsertOutgoingEdge e g) = dst_keys g"
proof -
  let ?v = "e_value e" and ?rv = "edges_at g (e_value e)" and ?g' = "InsertOutgoingEdge e g"
  let ?es = "map (\<lambda>(k, d). \<lparr>e_src = e_src e, e_dst = d, e_value = ?v\<rparr>) (rv_dst ?rv)"
  let ?rv' = "?rv\<lparr>rv_src := AList.update (e_src e) (e_src e) (rv_src ?rv)\<rparr>"
  note self = edges_at_self [OF ok] and okD = graph_okD [OF ok]
  have "graph_ok K ?g' \<and> src_keys ?g' = insert (?v, e_src e) (src_keys g) \<and> dst_keys ?g' = dst_keys g"
  proof (cases "(?v, e_src e) \<in> src_keys g")
    case True
    then show ?thesis
      using self(1) [of ?v "e_src e"] ok by (auto simp: InsertOutgoingEdge_def Let_def)
  next
    case False
    then have g': "?g' = fold InsertCompleteEdge ?es (g\<lparr>g_edges := AList.update ?v ?rv' (g_edges g)\<rparr>)"
      using self(1) [of ?v "e_src e"]
      by (simp add: InsertOutgoingEdge_def Let_def
          fold_edges [where mk = "\<lambda>d. \<lparr>e_src = e_src e, e_dst = d, e_value = ?v\<rparr>"])
    have "g_edges ?g' = AList.update ?v ?rv' (g_edges g)"
      by (simp add: g' insert_loop(1))
    note keys = keys_after_update [OF this]
    have "src_keys ?g' = insert (?v, e_src e) (src_keys g)" and "dst_keys ?g' = dst_keys g"
      by (auto simp: keys self split: if_splits)
    moreover have "graph_ok K ?g'"
    proof (rule insert_edges_ok [OF ok inj _ _ _ _ g'])
      show "x = k \<and> k \<noteq> []" if "(k, x) \<in> set (rv_src ?rv') \<union> set (rv_dst ?rv')" for k x
        using that assms(3) okD(1) [of k x ?v] okD(2) [of k x ?v] by (auto simp: self(5))
      show "(?v, d) \<in> K" if "(d, d) \<in> set (rv_dst ?rv')" for d
        using that okD(3) by (auto simp: self)
      show "(s, s) \<in> set (rv_src ?rv') \<and> (d, d) \<in> set (rv_dst ?rv') \<longleftrightarrow>
          (?v, s) \<in> src_keys g \<and> (?v, d) \<in> dst_keys g
          \<or> (\<exists>e \<in> set ?es. e_src e = s \<and> e_dst e = d)" for s d
        unfolding out_edges by (auto simp: self)
    qed auto
    ultimately show ?thesis by blast
  qed
  then show "graph_ok K ?g'" and "src_keys ?g' = insert (?v, e_src e) (src_keys g)"
    and "dst_keys ?g' = dst_keys g" by blast+
qed

lemma InsertIncomingEdge_ok:
  assumes ok: "graph_ok K g" and inj: "inj_on edge_key K" and "e_dst e \<noteq> []"
    and inK: "(e_value e, e_dst e) \<in> K"
  shows "graph_ok K (InsertIncomingEdge e g)"
    and "src_keys (InsertIncomingEdge e g) = src_keys g"
    and "dst_keys (InsertIncomingEdge e g) = insert (e_value e, e_dst e) (dst_keys g)"
proof -
  let ?v = "e_value e" and ?rv = "edges_at g (e_value e)" and ?g' = "InsertIncomingEdge e g"
  let ?es = "map (\<lambda>(k, s). \<lparr>e_src = s, e_dst = e_dst e, e_value = ?v\<rparr>) (rv_src ?rv)"
  let ?rv' = "?rv\<lparr>rv_dst := AList.update (e_dst e) (e_dst e) (rv_dst ?rv)\<rparr>"
  note self = edges_at_self [OF ok] and okD = graph_okD [OF ok]
  have "graph_ok K ?g' \<and> src_keys ?g' = src_keys g \<and> dst_keys ?g' = insert (?v, e_dst e) (dst_keys g)"
  proof (cases "(?v, e_dst e) \<in> dst_keys g")
    case True
    then show ?thesis
      using self(2) [of ?v "e_dst e"] ok by (auto simp: InsertIncomingEdge_def Let_def)
  next
    case False
    then have g': "?g' = fold InsertCompleteEdge ?es (g\<lparr>g_edges := AList.update ?v ?rv' (g_edges g)\<rparr>)"
      using self(2) [of ?v "e_dst e"]
      by (simp add: InsertIncomingEdge_def Let_def
          fold_edges [where mk = "\<lambda>s. \<lparr>e_src = s, e_dst = e_dst e, e_value = ?v\<rparr>"])
    have "g_edges ?g' = AList.update ?v ?rv' (g_edges g)"
      by (simp add: g' insert_loop(1))
    note keys = keys_after_update [OF this]
    have "src_keys ?g' = src_keys g" and "dst_keys ?g' = insert (?v, e_dst e) (dst_keys g)"
      by (auto simp: keys self split: if_splits)
    moreover have "graph_ok K ?g'"
    proof (rule insert_edges_ok [OF ok inj _ _ _ _ g'])
      show "x = k \<and> k \<noteq> []" if "(k, x) \<in> set (rv_src ?rv') \<union> set (rv_dst ?rv')" for k x
        using that assms(3) okD(1) [of k x ?v] okD(2) [of k x ?v] by (auto simp: self(6))
      show "(?v, d) \<in> K" if "(d, d) \<in> set (rv_dst ?rv')" for d
        using that okD(3) inK by (auto simp: self)
      show "(s, s) \<in> set (rv_src ?rv') \<and> (d, d) \<in> set (rv_dst ?rv') \<longleftrightarrow>
          (?v, s) \<in> src_keys g \<and> (?v, d) \<in> dst_keys g
          \<or> (\<exists>e \<in> set ?es. e_src e = s \<and> e_dst e = d)" for s d
        unfolding in_edges by (auto simp: self)
    qed auto
    ultimately show ?thesis by blast
  qed
  then show "graph_ok K ?g'" and "src_keys ?g' = src_keys g"
    and "dst_keys ?g' = insert (?v, e_dst e) (dst_keys g)" by blast+
qed

lemma set_delete_self: "set (AList.delete s m) = {(k, x) \<in> set m. k \<noteq> s}"
  by (auto simp: AList.delete_eq)

lemma DeleteOutgoingEdge_ok:
  assumes ok: "graph_ok K g" and inj: "inj_on edge_key K"
  shows "graph_ok K (DeleteOutgoingEdge e g)"
    and "src_keys (DeleteOutgoingEdge e g) = src_keys g - {(e_value e, e_src e)}"
    and "dst_keys (DeleteOutgoingEdge e g) = dst_keys g"
proof -
  let ?v = "e_value e" and ?rv = "edges_at g (e_value e)" and ?g' = "DeleteOutgoingEdge e g"
  let ?es = "map (\<lambda>(k, d). \<lparr>e_src = e_src e, e_dst = d, e_value = ?v\<rparr>) (rv_dst ?rv)"
  let ?rv' = "?rv\<lparr>rv_src := AList.delete (e_src e) (rv_src ?rv)\<rparr>"
  note self = edges_at_self [OF ok] and okD = graph_okD [OF ok]
  have "graph_ok K ?g' \<and> src_keys ?g' = src_keys g - {(?v, e_src e)} \<and> dst_keys ?g' = dst_keys g"
  proof (cases "(?v, e_src e) \<in> src_keys g")
    case False
    then show ?thesis
      using self(1) [of ?v "e_src e"] ok by (auto simp: DeleteOutgoingEdge_def Let_def)
  next
    case True
    then have g': "?g' = fold DeleteCompleteEdge ?es (g\<lparr>g_edges := AList.update ?v ?rv' (g_edges g)\<rparr>)"
      using self(1) [of ?v "e_src e"]
      by (auto simp: DeleteOutgoingEdge_def Let_def
          fold_edges [where mk = "\<lambda>d. \<lparr>e_src = e_src e, e_dst = d, e_value = ?v\<rparr>"])
    have "g_edges ?g' = AList.update ?v ?rv' (g_edges g)"
      by (simp add: g' delete_loop(1))
    note keys = keys_after_update [OF this]
    have "src_keys ?g' = src_keys g - {(?v, e_src e)}" and "dst_keys ?g' = dst_keys g"
      by (auto simp: keys self set_delete_self split: if_splits)
    moreover have "graph_ok K ?g'"
    proof (rule delete_edges_ok [OF ok inj _ _ _ _ _ g'])
      show "x = k \<and> k \<noteq> []" if "(k, x) \<in> set (rv_src ?rv') \<union> set (rv_dst ?rv')" for k x
        using that okD(1) [of k x ?v] okD(2) [of k x ?v] by (auto simp: set_delete_self)
      show "(s, s) \<in> set (rv_src ?rv') \<and> (d, d) \<in> set (rv_dst ?rv') \<longleftrightarrow>
          ((?v, s) \<in> src_keys g \<and> (?v, d) \<in> dst_keys g)
          \<and> \<not> (\<exists>e \<in> set ?es. e_src e = s \<and> e_dst e = d)" for s d
        unfolding out_edges by (auto simp: self set_delete_self)
    qed (use True in \<open>auto simp: self\<close>)
    ultimately show ?thesis by blast
  qed
  then show "graph_ok K ?g'" and "src_keys ?g' = src_keys g - {(?v, e_src e)}"
    and "dst_keys ?g' = dst_keys g" by blast+
qed

lemma DeleteIncomingEdge_ok:
  assumes ok: "graph_ok K g" and inj: "inj_on edge_key K"
  shows "graph_ok K (DeleteIncomingEdge e g)"
    and "src_keys (DeleteIncomingEdge e g) = src_keys g"
    and "dst_keys (DeleteIncomingEdge e g) = dst_keys g - {(e_value e, e_dst e)}"
proof -
  let ?v = "e_value e" and ?rv = "edges_at g (e_value e)" and ?g' = "DeleteIncomingEdge e g"
  let ?es = "map (\<lambda>(k, s). \<lparr>e_src = s, e_dst = e_dst e, e_value = ?v\<rparr>) (rv_src ?rv)"
  let ?rv' = "?rv\<lparr>rv_dst := AList.delete (e_dst e) (rv_dst ?rv)\<rparr>"
  note self = edges_at_self [OF ok] and okD = graph_okD [OF ok]
  have "graph_ok K ?g' \<and> src_keys ?g' = src_keys g \<and> dst_keys ?g' = dst_keys g - {(?v, e_dst e)}"
  proof (cases "(?v, e_dst e) \<in> dst_keys g")
    case False
    then show ?thesis
      using self(2) [of ?v "e_dst e"] ok by (auto simp: DeleteIncomingEdge_def Let_def)
  next
    case True
    then have g': "?g' = fold DeleteCompleteEdge ?es (g\<lparr>g_edges := AList.update ?v ?rv' (g_edges g)\<rparr>)"
      using self(2) [of ?v "e_dst e"]
      by (auto simp: DeleteIncomingEdge_def Let_def
          fold_edges [where mk = "\<lambda>s. \<lparr>e_src = s, e_dst = e_dst e, e_value = ?v\<rparr>"])
    have "g_edges ?g' = AList.update ?v ?rv' (g_edges g)"
      by (simp add: g' delete_loop(1))
    note keys = keys_after_update [OF this]
    have "src_keys ?g' = src_keys g" and "dst_keys ?g' = dst_keys g - {(?v, e_dst e)}"
      by (auto simp: keys self set_delete_self split: if_splits)
    moreover have "graph_ok K ?g'"
    proof (rule delete_edges_ok [OF ok inj _ _ _ _ _ g'])
      show "x = k \<and> k \<noteq> []" if "(k, x) \<in> set (rv_src ?rv') \<union> set (rv_dst ?rv')" for k x
        using that okD(1) [of k x ?v] okD(2) [of k x ?v] by (auto simp: set_delete_self)
      show "(s, s) \<in> set (rv_src ?rv') \<and> (d, d) \<in> set (rv_dst ?rv') \<longleftrightarrow>
          ((?v, s) \<in> src_keys g \<and> (?v, d) \<in> dst_keys g)
          \<and> \<not> (\<exists>e \<in> set ?es. e_src e = s \<and> e_dst e = d)" for s d
        unfolding in_edges by (auto simp: self set_delete_self)
    qed (use True in \<open>auto simp: self set_delete_self\<close>)
    ultimately show ?thesis by blast
  qed
  then show "graph_ok K ?g'" and "src_keys ?g' = src_keys g"
    and "dst_keys ?g' = dst_keys g - {(?v, e_dst e)}" by blast+
qed

lemma graph_ok_ensure:
  assumes "graph_ok K g" and "map_of (g_edges g) v = None"
  defines "g' \<equiv> g\<lparr>g_edges := AList.update v RelatedVertices_new (g_edges g)\<rparr>"
  shows "graph_ok K g'" and "src_keys g' = src_keys g" and "dst_keys g' = dst_keys g"
proof -
  have at: "edges_at g' v' = edges_at g v'" for v'
    using assms(2) by (simp add: g'_def edges_at_def update_conv)
  then show keys: "src_keys g' = src_keys g" "dst_keys g' = dst_keys g"
    by (simp_all add: src_keys_def dst_keys_def)
  show "graph_ok K g'"
    using assms(1) unfolding graph_ok_def keys at
    by (simp add: g'_def entry_def distinct_keys_def known_def)
qed

lemma Graph_Insert_ok:
  assumes ok: "graph_ok K g" and inj: "inj_on edge_key K" and inK: "dst_pairs e \<subseteq> K"
  shows "graph_ok K (Graph_Insert e g)
    \<and> src_keys (Graph_Insert e g) = src_keys g \<union> src_pairs e
    \<and> dst_keys (Graph_Insert e g) = dst_keys g \<union> dst_pairs e"
proof (cases "Edge_IsValid e")
  case False
  then show ?thesis using ok by (simp add: Graph_Insert_def src_pairs_def dst_pairs_def)
next
  case True
  define g1 where "g1 = (if map_of (g_edges g) (e_value e) = None
      then g\<lparr>g_edges := AList.update (e_value e) RelatedVertices_new (g_edges g)\<rparr> else g)"
  define g2 where "g2 = (if e_src e \<noteq> [] then InsertOutgoingEdge e g1 else g1)"
  have g1: "graph_ok K g1" "src_keys g1 = src_keys g" "dst_keys g1 = dst_keys g"
    using ok graph_ok_ensure [OF ok, of "e_value e"] by (auto simp: g1_def)
  have g2: "graph_ok K g2" "src_keys g2 = src_keys g \<union> src_pairs e" "dst_keys g2 = dst_keys g"
    using g1 InsertOutgoingEdge_ok [OF g1(1) inj, of e] True by (auto simp: g2_def src_pairs_def)
  have "Graph_Insert e g = (if e_dst e \<noteq> [] then InsertIncomingEdge e g2 else g2)"
    using True by (simp add: Graph_Insert_def Let_def g1_def g2_def Vertice_IsDummy_def)
  then show ?thesis
    using g2 InsertIncomingEdge_ok [OF g2(1) inj, of e] True inK by (auto simp: dst_pairs_def)
qed

lemma Graph_Delete_ok:
  assumes ok: "graph_ok K g" and inj: "inj_on edge_key K"
  shows "graph_ok K (Graph_Delete e g)
    \<and> src_keys (Graph_Delete e g) = src_keys g - src_pairs e
    \<and> dst_keys (Graph_Delete e g) = dst_keys g - dst_pairs e"
proof -
  consider "\<not> Edge_IsValid e" | "Edge_IsValid e" "map_of (g_edges g) (e_value e) = None"
    | "Edge_IsValid e" "map_of (g_edges g) (e_value e) \<noteq> None" by blast
  then show ?thesis
  proof cases
    case 1
    then show ?thesis using ok by (simp add: Graph_Delete_def src_pairs_def dst_pairs_def)
  next
    case 2
    then have "edges_at g (e_value e) = RelatedVertices_new" by (simp add: edges_at_def)
    then have "(e_value e, x) \<notin> src_keys g" "(e_value e, x) \<notin> dst_keys g" for x
      by (simp_all add: src_keys_def dst_keys_def RelatedVertices_new_def)
    then show ?thesis using ok 2 by (auto simp: Graph_Delete_def src_pairs_def dst_pairs_def)
  next
    case 3
    define g2 where "g2 = (if e_src e \<noteq> [] then DeleteOutgoingEdge e g else g)"
    have g2: "graph_ok K g2" "src_keys g2 = src_keys g - src_pairs e" "dst_keys g2 = dst_keys g"
      using ok DeleteOutgoingEdge_ok [OF ok inj, of e] 3 by (auto simp: g2_def src_pairs_def)
    have "Graph_Delete e g = (if e_dst e \<noteq> [] then DeleteIncomingEdge e g2 else g2)"
      using 3 by (auto simp: Graph_Delete_def Let_def g2_def Vertice_IsDummy_def)
    then show ?thesis
      using g2 DeleteIncomingEdge_ok [OF g2(1) inj, of e] 3 by (auto simp: dst_pairs_def)
  qed
qed

lemma graph_run_ok:
  assumes "inj_on edge_key K" and "readers_mentioned ops \<subseteq> K"
  shows "graph_ok K (graph_run ops) \<and> (src_keys (graph_run ops), dst_keys (graph_run ops)) = spec_run ops"
  using assms(2)
proof (induction ops rule: rev_induct)
  case Nil
  have "src_keys Graph_new = {}" and "dst_keys Graph_new = {}"
    by (simp_all add: src_keys_def dst_keys_def Graph_new_def edges_at_def RelatedVertices_new_def)
  then show ?case using graph_ok_new by (simp add: graph_run_def spec_run_def)
next
  case (snoc opr ops)
  then have ok: "graph_ok K (graph_run ops)"
    and eq: "(src_keys (graph_run ops), dst_keys (graph_run ops)) = spec_run ops"
    by (auto simp: readers_mentioned_def)
  have run: "graph_run (ops @ [opr]) = graph_step opr (graph_run ops)"
    and spec: "spec_run (ops @ [opr]) = spec_step opr (spec_run ops)"
    by (simp_all add: graph_run_def spec_run_def)
  show ?case
  proof (cases opr)
    case (Ins e)
    then have "dst_pairs e \<subseteq> K" using snoc.prems by (simp add: readers_mentioned_def)
    then show ?thesis
      using Graph_Insert_ok [OF ok assms(1), of e] Ins unfolding run spec eq [symmetric]
      by (simp add: graph_step_def)
  next
    case (Del e)
    then show ?thesis
      using Graph_Delete_ok [OF ok assms(1), of e] unfolding run spec eq [symmetric]
      by (simp add: graph_step_def)
  qed
qed

lemma adjacent_flow:
  assumes "graph_ok K g"
  shows "adjacent g = flow (src_keys g, dst_keys g)"
proof -
  have "distinct (map fst (list_at (g_list g) a))" for a
    using graph_okD(4) [OF assms] by (simp add: distinct_keys_def)
  then have "b \<in> snd ` set (list_at (g_list g) a) \<longleftrightarrow> (\<exists>key. entry g a key b)" for a b
    unfolding entry_def by (simp add: map_of_eq_Some_iff) force
  then show ?thesis
    by (auto simp: adjacent_def flow_def graph_okD(5) [OF assms])
qed

lemma flow_known:
  assumes "graph_ok K g" and "(a, b) \<in> (flow (src_keys g, dst_keys g))\<^sup>+"
  shows "a \<noteq> [] \<and> b \<noteq> [] \<and> a \<in> known g \<and> b \<in> known g"
proof -
  have "x \<noteq> [] \<and> y \<noteq> [] \<and> x \<in> known g \<and> y \<in> known g" if f: "(x, y) \<in> flow (src_keys g, dst_keys g)" for x y
  proof -
    obtain v where v: "(v, x) \<in> src_keys g" "(v, y) \<in> dst_keys g"
      using f by (auto simp: flow_def)
    then have "(x, x) \<in> set (rv_src (edges_at g v))" and "(y, y) \<in> set (rv_dst (edges_at g v))"
      by (simp_all add: src_keys_def dst_keys_def)
    then show ?thesis
      using graph_okD(1) [OF assms(1), of x x v] graph_okD(2) [OF assms(1), of y y v]
        graph_okD(6) [OF assms(1) v] by simp
  qed
  note step = this
  from assms(2) obtain z where z: "(a, z) \<in> flow (src_keys g, dst_keys g)"
    by (rule converse_tranclE)
  from assms(2) obtain y where y: "(y, b) \<in> flow (src_keys g, dst_keys g)"
    by (rule tranclE)
  show ?thesis using step [OF z] step [OF y] by argo
qed


abbreviation writer_edge :: "string \<Rightarrow> string \<Rightarrow> edge" where
  "writer_edge v n \<equiv> \<lparr>e_src = n, e_dst = [], e_value = v\<rparr>"

abbreviation reader_edge :: "string \<Rightarrow> string \<Rightarrow> edge" where
  "reader_edge v n \<equiv> \<lparr>e_src = [], e_dst = n, e_value = v\<rparr>"

text \<open>Keys are unambiguous when no channel name contains the separator.\<close>

lemma edge_key_channel:
  "CHR ''_'' \<notin> set v \<Longrightarrow> takeWhile (\<lambda>c. c \<noteq> CHR ''_'') (edge_key (v, d)) = v"
  by (induction v) (auto simp: edge_key_def)

lemma inj_on_edge_key:
  assumes "\<And>v d. (v, d) \<in> K \<Longrightarrow> CHR ''_'' \<notin> set v"
  shows "inj_on edge_key K"
proof (rule inj_onI)
  fix p q
  assume "p \<in> K" and "q \<in> K" and "edge_key p = edge_key q"
  then show "p = q"
    using edge_key_channel [of "fst p" "snd p"] edge_key_channel [of "fst q" "snd q"]
      assms [of "fst p" "snd p"] assms [of "fst q" "snd q"] edge_key_dst [of "fst p" "snd p" "snd q"]
    by (metis prod.collapse)
qed

definition sample_ops :: "graph_op list" where
  "sample_ops =
     [Ins (writer_edge ''x'' ''A''), Ins (reader_edge ''x'' ''B''), Ins (writer_edge ''y'' ''B''),
      Ins (reader_edge ''y'' ''C''), Del (reader_edge ''y'' ''C''), Ins (reader_edge ''y'' ''C'')]"

lemma sample_ops_spec: "spec_run sample_ops = ({(''x'', ''A''), (''y'', ''B'')}, {(''x'', ''B''), (''y'', ''C'')})"
  by code_simp

lemma sample_ops_inj: "inj_on edge_key (readers_mentioned sample_ops)"
proof (rule inj_on_edge_key)
  have "readers_mentioned sample_ops = {(''x'', ''B''), (''y'', ''C'')}" by code_simp
  moreover fix v d
  assume "(v, d) \<in> readers_mentioned sample_ops"
  ultimately have "v = ''x'' \<or> v = ''y''" by blast
  then show "CHR ''_'' \<notin> set v" by auto
qed



end
