(* ===== verification/GlobalData.thy ===== *)
theory GlobalData
  imports AtomicHashMap
begin

text \<open>
  The process-wide registries of names (\<open>cyber/common/global_data.cc\<close>): nodes, channels, services
  and tasks get a 64-bit id, the hash of the name or, when another name occupies it, the next free
  id.  The hash function of the standard library is a parameter.

  The registries rely on the contract \<^term>\<open>keyed_map\<close> of the atomic hash map.  The theory shows
  that ids are stable and never shared by two names, that the loop over occupied ids ends, and
  that looking up the id of a registered name gives the name, for every hash function.
\<close>

section \<open>State\<close>

record global_data =
  gd_node_id_map :: "string atomic_hash_map"
  gd_channel_id_map :: "string atomic_hash_map"
  gd_service_id_map :: "string atomic_hash_map"
  gd_task_id_map :: "string atomic_hash_map"
  gd_process_id :: int
  gd_host_name :: string
  gd_process_group :: string
  gd_sched_name :: string
  gd_is_reality_mode :: bool

definition GlobalData_new :: "string \<Rightarrow> int \<Rightarrow> string \<Rightarrow> bool \<Rightarrow> bool \<Rightarrow> global_data" where
  "GlobalData_new host_name pid process_group conf_reality env_simulation =
     \<lparr>gd_node_id_map = AtomicHashMap_new 512, gd_channel_id_map = AtomicHashMap_new 256,
      gd_service_id_map = AtomicHashMap_new 256, gd_task_id_map = AtomicHashMap_new 256,
      gd_process_id = pid, gd_host_name = host_name, gd_process_group = process_group,
      gd_sched_name = ''CYBER_DEFAULT'',
      gd_is_reality_mode = (if env_simulation then False else conf_reality)\<rparr>"

abbreviation GlobalData_SetProcessGroup :: "string \<Rightarrow> global_data \<Rightarrow> global_data" where
  "GlobalData_SetProcessGroup process_group g \<equiv> g\<lparr>gd_process_group := process_group\<rparr>"

abbreviation GlobalData_SetSchedName :: "string \<Rightarrow> global_data \<Rightarrow> global_data" where
  "GlobalData_SetSchedName sched_name g \<equiv> g\<lparr>gd_sched_name := sched_name\<rparr>"

abbreviation GlobalData_EnableSimulationMode :: "global_data \<Rightarrow> global_data" where
  "GlobalData_EnableSimulationMode g \<equiv> g\<lparr>gd_is_reality_mode := False\<rparr>"

abbreviation GlobalData_DisableSimulationMode :: "global_data \<Rightarrow> global_data" where
  "GlobalData_DisableSimulationMode g \<equiv> g\<lparr>gd_is_reality_mode := True\<rparr>"

section \<open>Registration\<close>

text \<open>
  The loop that all four registries run from the hash of the name; \<^const>\<open>None\<close> when it does not
  end.
\<close>

partial_function (option) probe :: "string atomic_hash_map \<Rightarrow> string \<Rightarrow> u64 \<Rightarrow> u64 option" where
  "probe m name i =
     (if AtomicHashMap_Has m i
      then if AtomicHashMap_Get m i = Some name then Some i else probe m name (i + 1)
      else Some i)"

definition register_name ::
  "(string \<Rightarrow> u64) \<Rightarrow> string \<Rightarrow> string atomic_hash_map \<Rightarrow> (u64 \<times> string atomic_hash_map) option" where
  "register_name Hash name m =
     (case probe m name (Hash name) of
        None \<Rightarrow> None
      | Some i \<Rightarrow> Some (i, AtomicHashMap_Set m i name))"

definition name_by_id :: "u64 \<Rightarrow> string atomic_hash_map \<Rightarrow> string" where
  "name_by_id i m = (case AtomicHashMap_Get m i of Some name \<Rightarrow> name | None \<Rightarrow> [])"

definition RegisterNode :: "(string \<Rightarrow> u64) \<Rightarrow> string \<Rightarrow> global_data \<Rightarrow> (u64 \<times> global_data) option" where
  "RegisterNode Hash name g =
     map_option (map_prod id (\<lambda>m. g\<lparr>gd_node_id_map := m\<rparr>)) (register_name Hash name (gd_node_id_map g))"

abbreviation GetNodeById :: "u64 \<Rightarrow> global_data \<Rightarrow> string" where
  "GetNodeById i g \<equiv> name_by_id i (gd_node_id_map g)"

definition RegisterChannel :: "(string \<Rightarrow> u64) \<Rightarrow> string \<Rightarrow> global_data \<Rightarrow> (u64 \<times> global_data) option" where
  "RegisterChannel Hash name g =
     map_option (map_prod id (\<lambda>m. g\<lparr>gd_channel_id_map := m\<rparr>))
       (register_name Hash name (gd_channel_id_map g))"

abbreviation GetChannelById :: "u64 \<Rightarrow> global_data \<Rightarrow> string" where
  "GetChannelById i g \<equiv> name_by_id i (gd_channel_id_map g)"

definition RegisterService :: "(string \<Rightarrow> u64) \<Rightarrow> string \<Rightarrow> global_data \<Rightarrow> (u64 \<times> global_data) option" where
  "RegisterService Hash name g =
     map_option (map_prod id (\<lambda>m. g\<lparr>gd_service_id_map := m\<rparr>))
       (register_name Hash name (gd_service_id_map g))"

abbreviation GetServiceById :: "u64 \<Rightarrow> global_data \<Rightarrow> string" where
  "GetServiceById i g \<equiv> name_by_id i (gd_service_id_map g)"

definition RegisterTaskName :: "(string \<Rightarrow> u64) \<Rightarrow> string \<Rightarrow> global_data \<Rightarrow> (u64 \<times> global_data) option" where
  "RegisterTaskName Hash name g =
     map_option (map_prod id (\<lambda>m. g\<lparr>gd_task_id_map := m\<rparr>)) (register_name Hash name (gd_task_id_map g))"

abbreviation GetTaskNameById :: "u64 \<Rightarrow> global_data \<Rightarrow> string" where
  "GetTaskNameById i g \<equiv> name_by_id i (gd_task_id_map g)"

section \<open>Lemmas on the probing loop\<close>

abbreviation owner :: "string atomic_hash_map \<Rightarrow> u64 \<Rightarrow> string option" where
  "owner m \<equiv> AtomicHashMap_Get m"

text \<open>An id that the probe for a name passes over.\<close>

definition foreign :: "string atomic_hash_map \<Rightarrow> string \<Rightarrow> u64 \<Rightarrow> bool" where
  "foreign m name i \<longleftrightarrow> owner m i \<noteq> None \<and> owner m i \<noteq> Some name"

lemma probe_stop: "ahm_inv m \<Longrightarrow> \<not> foreign m name i \<Longrightarrow> probe m name i = Some i"
  by (subst probe.simps) (auto simp: foreign_def ahm_Has_iff)

lemma probe_step: "ahm_inv m \<Longrightarrow> foreign m name i \<Longrightarrow> probe m name i = probe m name (i + 1)"
  by (subst probe.simps) (auto simp: foreign_def ahm_Has_iff)

lemma probe_skip:
  assumes "ahm_inv m" and "\<forall>j < k. foreign m name (i + of_nat j)"
  shows "probe m name i = probe m name (i + of_nat k)"
  using assms(2)
proof (induction k)
  case (Suc k)
  then show ?case
    using probe_step [OF assms(1), of name "i + of_nat k"] by (simp add: ac_simps)
qed simp

lemma probe_result:
  assumes "ahm_inv m" and "\<forall>j < k. foreign m name (i + of_nat j)" and "\<not> foreign m name (i + of_nat k)"
  shows "probe m name i = Some (i + of_nat k)"
  using probe_skip [OF assms(1,2)] probe_stop [OF assms(1,3)] by simp

text \<open>The loop ends as long as fewer than \<open>2^64\<close> ids are in use.\<close>

lemma free_id_ahead:
  assumes "finite (dom f)" and "card (dom f) < 18446744073709551616"
  shows "\<exists>k. f (i + of_nat k :: u64) = None"
proof (rule ccontr)
  assume "\<not> ?thesis"
  then have "i + of_nat k \<in> dom f" for k by auto
  moreover have "inj_on (\<lambda>k. i + of_nat k :: u64) {..<18446744073709551616}"
  proof (rule inj_onI)
    fix x y :: nat
    assume "x \<in> {..<18446744073709551616}" "y \<in> {..<18446744073709551616}"
      and "i + of_nat x = i + of_nat y"
    then have "unat (of_nat x :: u64) = unat (of_nat y :: u64)" by simp
    then show "x = y"
      using \<open>x \<in> _\<close> \<open>y \<in> _\<close> by (simp only: unat_u64_of_nat lessThan_iff)
  qed
  ultimately have "card {..<18446744073709551616 :: nat} \<le> card (dom f)"
    using assms(1) by (intro card_inj_on_le [where f = "\<lambda>k. i + of_nat k"]) auto
  then show False using assms(2) by simp
qed

lemma probe_terminates:
  assumes "ahm_inv m" and "finite (dom (owner m))" and "card (dom (owner m)) < 18446744073709551616"
  obtains k where "probe m name i = Some (i + of_nat k)"
    and "\<forall>j < k. foreign m name (i + of_nat j)" and "\<not> foreign m name (i + of_nat k)"
proof -
  obtain n where "\<not> foreign m name (i + of_nat n)"
    using free_id_ahead [OF assms(2,3), of i] by (auto simp: foreign_def)
  then have "\<exists>n. \<not> foreign m name (i + of_nat n)" ..
  then obtain k where "\<not> foreign m name (i + of_nat k)" "\<forall>j < k. foreign m name (i + of_nat j)"
    by (subst (asm) exists_least_iff) blast
  then show thesis using that probe_result [OF assms(1)] by blast
qed

section \<open>A registry\<close>

text \<open>
  The state of a registry after some registrations: every registered name owns the id that a
  probe from its hash ends at.
\<close>

definition registry_ok :: "(string \<Rightarrow> u64) \<Rightarrow> string atomic_hash_map \<Rightarrow> bool" where
  "registry_ok Hash m \<longleftrightarrow>
     ahm_inv m \<and> finite (dom (owner m)) \<and>
     (\<forall>i name. owner m i = Some name \<longrightarrow>
        (\<exists>k. i = Hash name + of_nat k \<and> (\<forall>j < k. foreign m name (Hash name + of_nat j))))"

lemma register_name_ok:
  assumes ok: "registry_ok Hash m" and small: "card (dom (owner m)) < 18446744073709551616"
  shows "\<exists>i m'. register_name Hash name m = Some (i, m')
    \<and> owner m' = (owner m)(i \<mapsto> name) \<and> owner m i \<in> {None, Some name} \<and> registry_ok Hash m'"
proof -
  have inv: "ahm_inv m" and fin: "finite (dom (owner m))"
    using ok by (simp_all add: registry_ok_def)
  obtain k where k: "probe m name (Hash name) = Some (Hash name + of_nat k)"
    "\<forall>j < k. foreign m name (Hash name + of_nat j)" "\<not> foreign m name (Hash name + of_nat k)"
    using probe_terminates [OF inv fin small] by metis
  let ?i = "Hash name + of_nat k"
  let ?m' = "AtomicHashMap_Set m ?i name"
  have own: "owner ?m' = (owner m)(?i \<mapsto> name)"
    by (rule ext) (simp add: ahm.lookup_store [OF inv])
  have old: "owner m ?i \<in> {None, Some name}"
    using k(3) by (auto simp: foreign_def)
  have keep: "foreign ?m' x j" if "foreign m x j" for x j
    using that old by (auto simp: foreign_def own)
  have "\<exists>k. i = Hash x + of_nat k \<and> (\<forall>j < k. foreign ?m' x (Hash x + of_nat j))"
    if "owner ?m' i = Some x" for i x
  proof (cases "i = ?i")
    case True
    then show ?thesis using that k(2) keep by (auto simp: own)
  next
    case False
    then have "owner m i = Some x" using that by (simp add: own)
    then obtain n where "i = Hash x + of_nat n" "\<forall>j < n. foreign m x (Hash x + of_nat j)"
      using ok unfolding registry_ok_def by blast
    then show ?thesis using keep by blast
  qed
  moreover have "finite (dom (owner ?m'))" using fin by (simp add: own)
  ultimately have "registry_ok Hash ?m'"
    using ahm.invar_store [OF inv] by (simp add: registry_ok_def)
  then show ?thesis
    using k(1) own old by (simp add: register_name_def)
qed

text \<open>
  A sequence of registrations, with the ids they return; \<^const>\<open>None\<close> when one of them does not
  return.
\<close>

fun register_all ::
  "(string \<Rightarrow> u64) \<Rightarrow> string list \<Rightarrow> string atomic_hash_map \<Rightarrow> (u64 list \<times> string atomic_hash_map) option"
where
  "register_all Hash [] m = Some ([], m)"
| "register_all Hash (name # names) m =
     (case register_name Hash name m of
        None \<Rightarrow> None
      | Some (i, m) \<Rightarrow>
          (case register_all Hash names m of
             None \<Rightarrow> None
           | Some (is, m) \<Rightarrow> Some (i # is, m)))"

lemma registry_ok_new: "0 < n \<Longrightarrow> registry_ok Hash (AtomicHashMap_new n)"
  by (simp add: registry_ok_def ahm_inv_new ahm_Get_new dom_def)

lemma registry_ok_unique:
  assumes "registry_ok Hash m" and xy: "owner m x = Some name" "owner m y = Some name"
  shows "x = y"
proof -
  have path: "\<exists>k. z = Hash name + of_nat k \<and> (\<forall>j < k. foreign m name (Hash name + of_nat j))"
    if "owner m z = Some name" for z
    using assms(1) that unfolding registry_ok_def by blast
  obtain a where a: "x = Hash name + of_nat a" "\<forall>j < a. foreign m name (Hash name + of_nat j)"
    using path [OF xy(1)] by blast
  obtain b where b: "y = Hash name + of_nat b" "\<forall>j < b. foreign m name (Hash name + of_nat j)"
    using path [OF xy(2)] by blast
  have "\<not> foreign m name x" and "\<not> foreign m name y"
    using xy by (simp_all add: foreign_def)
  then have "a = b" using a b by (meson nat_neq_iff)
  then show ?thesis using a b by simp
qed

lemma card_dom_upd: "finite (dom f) \<Longrightarrow> card (dom (f(i \<mapsto> x))) \<le> Suc (card (dom f))"
  by (simp add: card_insert_if)

text \<open>Registration never takes an id away from a name.\<close>

lemma register_all_ok:
  assumes "registry_ok Hash m" and "card (dom (owner m)) + length names < 18446744073709551616"
  shows "\<exists>is m'. register_all Hash names m = Some (is, m') \<and> registry_ok Hash m'
    \<and> owner m \<subseteq>\<^sub>m owner m' \<and> length is = length names
    \<and> (\<forall>k < length names. owner m' (is ! k) = Some (names ! k))
    \<and> card (dom (owner m')) \<le> card (dom (owner m)) + length names"
  using assms
proof (induction names arbitrary: m)
  case Nil
  then show ?case by simp
next
  case (Cons name names)
  obtain i m1 where r: "register_name Hash name m = Some (i, m1)"
    and own: "owner m1 = (owner m)(i \<mapsto> name)" and old: "owner m i \<in> {None, Some name}"
    and ok: "registry_ok Hash m1"
    using register_name_ok [OF Cons.prems(1), of name] Cons.prems(2) by auto
  have card: "card (dom (owner m1)) \<le> Suc (card (dom (owner m)))"
    unfolding own using Cons.prems(1) by (intro card_dom_upd) (simp add: registry_ok_def)
  have "card (dom (owner m1)) + length names < 18446744073709551616"
    using card Cons.prems(2) by simp
  then obtain "is" m' where rest: "register_all Hash names m1 = Some (is, m')"
    "registry_ok Hash m'" "owner m1 \<subseteq>\<^sub>m owner m'" "length is = length names"
    "\<forall>k < length names. owner m' (is ! k) = Some (names ! k)"
    "card (dom (owner m')) \<le> card (dom (owner m1)) + length names"
    using Cons.IH [OF ok] by blast
  have "owner m \<subseteq>\<^sub>m owner m1"
    unfolding own using old by (auto simp: map_le_def)
  then have le: "owner m \<subseteq>\<^sub>m owner m'" using rest(3) by (rule map_le_trans)
  have "owner m' i = Some name"
    using rest(3) own by (auto simp: map_le_def dom_def)
  then have "\<forall>k < length (name # names). owner m' ((i # is) ! k) = Some ((name # names) ! k)"
    using rest(5) by (simp add: nth_Cons split: nat.split)
  then show ?case
    using r rest card le by simp
qed

text \<open>
  C10: For every hash function and every sequence of fewer than \<open>2^64\<close> registrations, in which a
  name may occur any number of times, all registrations return; two of them return the same id
  exactly when they register the same name; and at the end \<open>GetNodeById\<close> gives for each of the ids
  the name it was returned for.
\<close>

theorem registry_ids_unique:
  assumes "length names < 18446744073709551616" and "0 < table_size"
  shows "\<exists>is m. register_all Hash names (AtomicHashMap_new table_size) = Some (is, m)
    \<and> (\<forall>j < length names. \<forall>k < length names. is ! j = is ! k \<longleftrightarrow> names ! j = names ! k)
    \<and> (\<forall>j < length names. name_by_id (is ! j) m = names ! j)"
proof -
  have "dom (owner (AtomicHashMap_new table_size)) = {}"
    using assms(2) by (simp add: ahm_Get_new dom_def)
  then obtain "is" m where run: "register_all Hash names (AtomicHashMap_new table_size) = Some (is, m)"
    and ok: "registry_ok Hash m" and own: "\<forall>k < length names. owner m (is ! k) = Some (names ! k)"
    using register_all_ok [OF registry_ok_new [OF assms(2), of Hash], of names] assms(1) by auto
  have "is ! j = is ! k" if "j < length names" "k < length names" "names ! j = names ! k" for j k
    using own that by (intro registry_ok_unique [OF ok, of _ "names ! j"]) simp_all
  then have "\<forall>j < length names. \<forall>k < length names. is ! j = is ! k \<longleftrightarrow> names ! j = names ! k"
    using own by (metis option.inject)
  moreover have "\<forall>j < length names. name_by_id (is ! j) m = names ! j"
    using own by (simp add: name_by_id_def)
  ultimately show ?thesis using run by blast
qed

theorem registry_ids_unique_witness:
  "\<exists>is m. register_all (\<lambda>name. 7) [''a'', ''b'', ''a''] (AtomicHashMap_new 256) = Some (is, m)
    \<and> is ! 0 \<noteq> is ! 1 \<and> is ! 0 = is ! 2 \<and> name_by_id (is ! 1) m = ''b''"
proof -
  obtain "is" m where
    "register_all (\<lambda>name. 7) [''a'', ''b'', ''a''] (AtomicHashMap_new 256) = Some (is, m)"
    "\<forall>j < 3. \<forall>k < 3. is ! j = is ! k \<longleftrightarrow> [''a'', ''b'', ''a''] ! j = [''a'', ''b'', ''a''] ! k"
    "\<forall>j < 3. name_by_id (is ! j) m = [''a'', ''b'', ''a''] ! j"
    using registry_ids_unique [of "[''a'', ''b'', ''a'']" 256 "\<lambda>name. 7"] by auto
  then show ?thesis by (intro exI conjI) auto
qed

end
