(* ===== verification/Discovery.thy ===== *)
theory Discovery
  imports Roles TopoGraph GlobalData
begin

text \<open>
  The managers of the topology (\<open>cyber/service_discovery/specific_manager/\<close>\<open>manager.cc\<close>,
  \<open>node_manager.cc\<close>, \<open>channel_manager.cc\<close>, \<open>service_manager.cc\<close>).

  The three managers extend the record of the base class; the virtual operations \<open>Check\<close> and
  \<open>Dispose\<close> are arguments of the operations of the base class that call them.  Slots of the change
  signal are numbers, and a notification is recorded for every connected slot.  The clock, the
  serialisation of messages and the publisher of the RTPS library are parameters.  Messages that
  arrive from the network are parsed by a parameter whose result has the defaults of the message
  type for fields that are not set.
\<close>

unbundle bit_operations_syntax

section \<open>Change messages\<close>

datatype change_type = CHANGE_NODE | CHANGE_CHANNEL | CHANGE_SERVICE | CHANGE_PARTICIPANT
datatype operate_type = OPT_JOIN | OPT_LEAVE
datatype role_type =
  ROLE_NODE | ROLE_WRITER | ROLE_READER | ROLE_SERVER | ROLE_CLIENT | ROLE_PARTICIPANT

fun role_number :: "role_type \<Rightarrow> nat" where
  "role_number ROLE_NODE = 1"
| "role_number ROLE_WRITER = 2"
| "role_number ROLE_READER = 3"
| "role_number ROLE_SERVER = 4"
| "role_number ROLE_CLIENT = 5"
| "role_number ROLE_PARTICIPANT = 6"

definition role_bit :: "role_type \<Rightarrow> u32" where
  "role_bit r = push_bit (role_number r) 1"

record change_msg =
  cm_timestamp :: u64
  cm_change_type :: change_type
  cm_operate_type :: operate_type
  cm_role_type :: role_type
  cm_role_attr :: role_attributes

section \<open>Manager\<close>

record manager =
  mg_is_shutdown :: bool
  mg_is_discovery_started :: bool
  mg_allowed_role :: u32
  mg_change_type :: change_type
  mg_host_name :: string
  mg_process_id :: int
  mg_channel_name :: string
  mg_publisher :: bool
  mg_subscriber :: bool
  mg_listener :: bool
  mg_slots :: "nat list"
  mg_notified :: "(nat \<times> change_msg) list"
  mg_published :: "change_msg list"

definition Manager_new :: "string \<Rightarrow> int \<Rightarrow> manager" where
  "Manager_new host_name process_id =
     \<lparr>mg_is_shutdown = False, mg_is_discovery_started = False, mg_allowed_role = 0,
      mg_change_type = CHANGE_PARTICIPANT, mg_host_name = host_name, mg_process_id = process_id,
      mg_channel_name = [], mg_publisher = False, mg_subscriber = False, mg_listener = False,
      mg_slots = [], mg_notified = [], mg_published = []\<rparr>"

definition Manager_StopDiscovery :: "('x manager_scheme) \<Rightarrow> 'x manager_scheme" where
  "Manager_StopDiscovery m =
     (if \<not> mg_is_discovery_started m then m
      else m\<lparr>mg_is_discovery_started := False, mg_publisher := False, mg_subscriber := False,
             mg_listener := False\<rparr>)"

text \<open>
  The results of filling in the attributes and of creating the RTPS end point are arguments.
\<close>

definition Manager_CreatePublisher :: "bool \<Rightarrow> bool \<Rightarrow> 'x manager_scheme \<Rightarrow> bool \<times> 'x manager_scheme" where
  "Manager_CreatePublisher filled created m =
     (if \<not> filled then (False, m) else (created, m\<lparr>mg_publisher := created\<rparr>))"

definition Manager_CreateSubscriber :: "bool \<Rightarrow> bool \<Rightarrow> 'x manager_scheme \<Rightarrow> bool \<times> 'x manager_scheme" where
  "Manager_CreateSubscriber filled created m =
     (if \<not> filled then (False, m) else (created, m\<lparr>mg_listener := True, mg_subscriber := created\<rparr>))"

definition Manager_StartDiscovery ::
  "bool \<Rightarrow> bool \<Rightarrow> bool \<Rightarrow> bool \<Rightarrow> bool \<Rightarrow> 'x manager_scheme \<Rightarrow> bool \<times> 'x manager_scheme" where
  "Manager_StartDiscovery participant pub_filled pub_created sub_filled sub_created m =
     (if \<not> participant then (False, m)
      else if mg_is_discovery_started m then (True, m)
      else
        case Manager_CreatePublisher pub_filled pub_created (m\<lparr>mg_is_discovery_started := True\<rparr>) of
          (False, m) \<Rightarrow> (False, Manager_StopDiscovery m)
        | (True, m) \<Rightarrow>
            (case Manager_CreateSubscriber sub_filled sub_created m of
               (False, m) \<Rightarrow> (False, Manager_StopDiscovery m)
             | (True, m) \<Rightarrow> (True, m)))"

definition Manager_Shutdown :: "'x manager_scheme \<Rightarrow> 'x manager_scheme" where
  "Manager_Shutdown m =
     (if mg_is_shutdown m then m
      else (Manager_StopDiscovery (m\<lparr>mg_is_shutdown := True\<rparr>))\<lparr>mg_slots := []\<rparr>)"

abbreviation Manager_AddChangeListener :: "nat \<Rightarrow> 'x manager_scheme \<Rightarrow> 'x manager_scheme" where
  "Manager_AddChangeListener slot m \<equiv> m\<lparr>mg_slots := mg_slots m @ [slot]\<rparr>"

abbreviation Manager_RemoveChangeListener :: "nat \<Rightarrow> 'x manager_scheme \<Rightarrow> 'x manager_scheme" where
  "Manager_RemoveChangeListener slot m \<equiv> m\<lparr>mg_slots := filter (\<lambda>s. s \<noteq> slot) (mg_slots m)\<rparr>"

definition Manager_Convert ::
  "u64 \<Rightarrow> role_attributes \<Rightarrow> role_type \<Rightarrow> operate_type \<Rightarrow> 'x manager_scheme \<Rightarrow> change_msg" where
  "Manager_Convert now attr role_ty opt m =
     (let attr = (if ra_host_name attr = None then attr\<lparr>ra_host_name := Some (mg_host_name m)\<rparr> else attr);
          attr = (if ra_process_id attr = None then attr\<lparr>ra_process_id := Some (mg_process_id m)\<rparr> else attr)
      in \<lparr>cm_timestamp = now, cm_change_type = mg_change_type m, cm_operate_type = opt,
          cm_role_type = role_ty, cm_role_attr = attr\<rparr>)"

definition Manager_Notify :: "change_msg \<Rightarrow> 'x manager_scheme \<Rightarrow> 'x manager_scheme" where
  "Manager_Notify msg m = m\<lparr>mg_notified := mg_notified m @ map (\<lambda>slot. (slot, msg)) (mg_slots m)\<rparr>"

abbreviation Manager_NeedPublish :: "change_msg \<Rightarrow> 'x manager_scheme \<Rightarrow> bool" where
  "Manager_NeedPublish msg m \<equiv> True"

definition Manager_Publish ::
  "(change_msg \<Rightarrow> bool) \<Rightarrow> (change_msg \<Rightarrow> bool) \<Rightarrow> change_msg \<Rightarrow> 'x manager_scheme \<Rightarrow> bool \<times> 'x manager_scheme"
where
  "Manager_Publish serialize send msg m =
     (if \<not> mg_is_discovery_started m then (True, m)
      else if \<not> serialize msg then (False, m)
      else if mg_publisher m then (send msg, m\<lparr>mg_published := mg_published m @ [msg]\<rparr>)
      else (True, m))"

definition Manager_IsFromSameProcess :: "change_msg \<Rightarrow> 'x manager_scheme \<Rightarrow> bool" where
  "Manager_IsFromSameProcess msg m =
     (if num (ra_process_id (cm_role_attr msg)) \<noteq> mg_process_id m
         \<or> str (ra_host_name (cm_role_attr msg)) \<noteq> mg_host_name m
      then False else True)"

definition Manager_Join ::
  "(role_attributes \<Rightarrow> bool) \<Rightarrow> (change_msg \<Rightarrow> 'x manager_scheme \<Rightarrow> 'x manager_scheme)
    \<Rightarrow> (change_msg \<Rightarrow> bool) \<Rightarrow> (change_msg \<Rightarrow> bool) \<Rightarrow> u64 \<Rightarrow> role_attributes \<Rightarrow> role_type \<Rightarrow> bool
    \<Rightarrow> 'x manager_scheme \<Rightarrow> bool \<times> 'x manager_scheme" where
  "Manager_Join check dispose serialize send now attr role_ty need_publish m =
     (if mg_is_shutdown m then (False, m)
      else if role_bit role_ty AND mg_allowed_role m = 0 then (False, m)
      else if \<not> check attr then (False, m)
      else
        let msg = Manager_Convert now attr role_ty OPT_JOIN m;
            m = dispose msg m
        in if need_publish then Manager_Publish serialize send msg m else (True, m))"

definition Manager_Leave ::
  "(role_attributes \<Rightarrow> bool) \<Rightarrow> (change_msg \<Rightarrow> 'x manager_scheme \<Rightarrow> 'x manager_scheme)
    \<Rightarrow> (change_msg \<Rightarrow> bool) \<Rightarrow> (change_msg \<Rightarrow> bool) \<Rightarrow> u64 \<Rightarrow> role_attributes \<Rightarrow> role_type
    \<Rightarrow> 'x manager_scheme \<Rightarrow> bool \<times> 'x manager_scheme" where
  "Manager_Leave check dispose serialize send now attr role_ty m =
     (if mg_is_shutdown m then (False, m)
      else if role_bit role_ty AND mg_allowed_role m = 0 then (False, m)
      else if \<not> check attr then (False, m)
      else
        let msg = Manager_Convert now attr role_ty OPT_LEAVE m;
            m = dispose msg m
        in if Manager_NeedPublish msg m then Manager_Publish serialize send msg m else (True, m))"

definition Manager_OnRemoteChange ::
  "(role_attributes \<Rightarrow> bool) \<Rightarrow> (change_msg \<Rightarrow> 'x manager_scheme \<Rightarrow> 'x manager_scheme)
    \<Rightarrow> (string \<Rightarrow> change_msg option) \<Rightarrow> string \<Rightarrow> 'x manager_scheme \<Rightarrow> 'x manager_scheme" where
  "Manager_OnRemoteChange check dispose parse msg_str m =
     (if mg_is_shutdown m then m
      else
        case parse msg_str of
          None \<Rightarrow> m
        | Some msg \<Rightarrow>
            if Manager_IsFromSameProcess msg m then m
            else if \<not> check (cm_role_attr msg) then m
            else dispose msg m)"

section \<open>NodeManager\<close>

record node_manager = manager +
  nm_nodes :: warehouse_map
  nm_async_shutdown :: bool

definition NodeManager_new :: "string \<Rightarrow> int \<Rightarrow> node_manager" where
  "NodeManager_new host_name process_id =
     manager.extend
       ((Manager_new host_name process_id)
          \<lparr>mg_allowed_role := role_bit ROLE_NODE, mg_change_type := CHANGE_NODE,
           mg_channel_name := ''node_change_broadcast''\<rparr>)
       (node_manager.fields [] False)"

abbreviation NodeManager_HasNode ::
  "(string \<Rightarrow> u64) \<Rightarrow> string \<Rightarrow> node_manager \<Rightarrow> global_data \<Rightarrow> (bool \<times> global_data) option" where
  "NodeManager_HasNode Hash node_name m g \<equiv>
     map_option (\<lambda>(key, g). (SingleValueWarehouse_Search (nm_nodes m) key, g)) (RegisterNode Hash node_name g)"

abbreviation NodeManager_GetNodes :: "node_manager \<Rightarrow> role_attributes list \<Rightarrow> role_attributes list" where
  "NodeManager_GetNodes m nodes \<equiv> SingleValueWarehouse_GetAllRoles_attr (nm_nodes m) nodes"

abbreviation NodeManager_Check :: "role_attributes \<Rightarrow> bool" where
  "NodeManager_Check attr \<equiv>
     (if ra_node_name attr = None then False else if ra_node_id attr = None then False else True)"

definition RoleNode :: "change_msg \<Rightarrow> role" where
  "RoleNode msg =
     \<lparr>role_kind = RoleBase, role_attrs = cm_role_attr msg, role_timestamp_ns = cm_timestamp msg\<rparr>"

definition NodeManager_DisposeJoin :: "change_msg \<Rightarrow> node_manager \<Rightarrow> node_manager" where
  "NodeManager_DisposeJoin msg m =
     (let node = RoleNode msg;
          key = num (ra_node_id (role_attrs node))
      in case SingleValueWarehouse_Add (nm_nodes m) key node False of
           (True, nodes) \<Rightarrow> m\<lparr>nm_nodes := nodes\<rparr>
         | (False, nodes) \<Rightarrow>
             (case SingleValueWarehouse_Search_role nodes key of
                None \<Rightarrow> m\<lparr>nm_nodes := snd (SingleValueWarehouse_Add nodes key node True)\<rparr>
              | Some existing_node \<Rightarrow>
                  let (m, newer_node) =
                        (if RoleBase_IsEarlierThan node existing_node
                         then (m\<lparr>nm_nodes := snd (SingleValueWarehouse_Add nodes key node True)\<rparr>,
                               existing_node)
                         else (m, node))
                  in if num (ra_process_id (role_attrs newer_node)) = mg_process_id m
                        \<and> str (ra_host_name (role_attrs newer_node)) = mg_host_name m
                     then m\<lparr>nm_async_shutdown := True\<rparr> else m))"

definition NodeManager_DisposeLeave :: "change_msg \<Rightarrow> node_manager \<Rightarrow> node_manager" where
  "NodeManager_DisposeLeave msg m =
     (let node = RoleNode msg
      in m\<lparr>nm_nodes := SingleValueWarehouse_Remove (nm_nodes m) (num (ra_node_id (role_attrs node)))\<rparr>)"

definition NodeManager_Dispose :: "change_msg \<Rightarrow> node_manager \<Rightarrow> node_manager" where
  "NodeManager_Dispose msg m =
     Manager_Notify msg
       (if cm_operate_type msg = OPT_JOIN then NodeManager_DisposeJoin msg m
        else NodeManager_DisposeLeave msg m)"

text \<open>The clock is read once per notification; its readings are the list \<open>nows\<close>.\<close>

fun notify_leaves ::
  "role_type \<Rightarrow> (nat \<Rightarrow> u64) \<Rightarrow> nat \<Rightarrow> role list \<Rightarrow> 'x manager_scheme \<Rightarrow> 'x manager_scheme" where
  "notify_leaves role_ty clock t [] m = m"
| "notify_leaves role_ty clock t (r # rs) m =
     notify_leaves role_ty clock (Suc t) rs
       (Manager_Notify (Manager_Convert (clock t) (role_attrs r) role_ty OPT_LEAVE m) m)"

definition NodeManager_OnTopoModuleLeave ::
  "(nat \<Rightarrow> u64) \<Rightarrow> string \<Rightarrow> int \<Rightarrow> node_manager \<Rightarrow> node_manager" where
  "NodeManager_OnTopoModuleLeave clock host_name process_id m =
     (if \<not> mg_is_discovery_started m then m
      else
        let attr = process_attributes host_name process_id;
            nodes_to_remove = snd (SingleValueWarehouse_Search_target_roles (nm_nodes m) attr False []);
            m = m\<lparr>nm_nodes :=
                    fold (\<lambda>node w. SingleValueWarehouse_Remove w (num (ra_node_id (role_attrs node))))
                      nodes_to_remove (nm_nodes m)\<rparr>
        in notify_leaves ROLE_NODE clock 0 nodes_to_remove m)"

section \<open>ChannelManager\<close>

record channel_manager = manager +
  chm_exempted_msg_types :: "string list"
  chm_node_graph :: graph
  chm_node_writers :: warehouse_map
  chm_node_readers :: warehouse_map
  chm_channel_writers :: warehouse_map
  chm_channel_readers :: warehouse_map
  chm_registered_protos :: "string list"

definition ChannelManager_new :: "string \<Rightarrow> int \<Rightarrow> channel_manager" where
  "ChannelManager_new host_name process_id =
     manager.extend
       ((Manager_new host_name process_id)
          \<lparr>mg_allowed_role := role_bit ROLE_WRITER OR role_bit ROLE_READER,
           mg_change_type := CHANGE_CHANNEL, mg_channel_name := ''channel_change_broadcast''\<rparr>)
       (channel_manager.fields [''apollo.cyber.message.RawMessage'', ''apollo.cyber.message.PyMessage'']
          Graph_new [] [] [] [] [])"

text \<open>A query with the id of a name, which registers the name.\<close>

definition with_channel ::
  "(string \<Rightarrow> u64) \<Rightarrow> string \<Rightarrow> (u64 \<Rightarrow> 'r) \<Rightarrow> global_data \<Rightarrow> ('r \<times> global_data) option" where
  "with_channel Hash name f g = map_option (\<lambda>(key, g). (f key, g)) (RegisterChannel Hash name g)"

definition with_node ::
  "(string \<Rightarrow> u64) \<Rightarrow> string \<Rightarrow> (u64 \<Rightarrow> 'r) \<Rightarrow> global_data \<Rightarrow> ('r \<times> global_data) option" where
  "with_node Hash name f g = map_option (\<lambda>(key, g). (f key, g)) (RegisterNode Hash name g)"

definition ChannelManager_GetChannelNames :: "channel_manager \<Rightarrow> string list \<Rightarrow> string list" where
  "ChannelManager_GetChannelNames m channels =
     (let roles = MultiValueWarehouse_GetAllRoles (chm_channel_readers m)
                    (MultiValueWarehouse_GetAllRoles (chm_channel_writers m) [])
      in channels @ remdups (map (\<lambda>r. str (ra_channel_name (role_attrs r))) roles))"

definition ChannelManager_GetProtoDesc ::
  "(string \<Rightarrow> u64) \<Rightarrow> string \<Rightarrow> string \<Rightarrow> channel_manager \<Rightarrow> global_data \<Rightarrow> (string \<times> global_data) option" where
  "ChannelManager_GetProtoDesc Hash channel_name proto_desc m =
     with_channel Hash channel_name
       (\<lambda>key. case MultiValueWarehouse_Search_role (chm_channel_writers m) key of
                None \<Rightarrow> proto_desc
              | Some w \<Rightarrow> (case ra_proto_desc (role_attrs w) of Some d \<Rightarrow> d | None \<Rightarrow> proto_desc))"

definition ChannelManager_GetMsgType ::
  "(string \<Rightarrow> u64) \<Rightarrow> string \<Rightarrow> string \<Rightarrow> channel_manager \<Rightarrow> global_data \<Rightarrow> (string \<times> global_data) option" where
  "ChannelManager_GetMsgType Hash channel_name msg_type m =
     with_channel Hash channel_name
       (\<lambda>key. case MultiValueWarehouse_Search_role (chm_channel_writers m) key of
                None \<Rightarrow> msg_type
              | Some w \<Rightarrow> (case ra_message_type (role_attrs w) of Some t \<Rightarrow> t | None \<Rightarrow> msg_type))"

abbreviation ChannelManager_HasWriter ::
  "(string \<Rightarrow> u64) \<Rightarrow> string \<Rightarrow> channel_manager \<Rightarrow> global_data \<Rightarrow> (bool \<times> global_data) option" where
  "ChannelManager_HasWriter Hash channel_name m \<equiv>
     with_channel Hash channel_name (MultiValueWarehouse_Search (chm_channel_writers m))"

abbreviation ChannelManager_GetWriters :: "channel_manager \<Rightarrow> role_attributes list \<Rightarrow> role_attributes list" where
  "ChannelManager_GetWriters m writers \<equiv> MultiValueWarehouse_GetAllRoles_attr (chm_channel_writers m) writers"

abbreviation ChannelManager_GetWritersOfNode ::
  "(string \<Rightarrow> u64) \<Rightarrow> string \<Rightarrow> role_attributes list \<Rightarrow> channel_manager \<Rightarrow> global_data
    \<Rightarrow> (role_attributes list \<times> global_data) option" where
  "ChannelManager_GetWritersOfNode Hash node_name writers m \<equiv>
     with_node Hash node_name (\<lambda>key. snd (MultiValueWarehouse_Search_attrs (chm_node_writers m) key writers))"

abbreviation ChannelManager_GetWritersOfChannel ::
  "(string \<Rightarrow> u64) \<Rightarrow> string \<Rightarrow> role_attributes list \<Rightarrow> channel_manager \<Rightarrow> global_data
    \<Rightarrow> (role_attributes list \<times> global_data) option" where
  "ChannelManager_GetWritersOfChannel Hash channel_name writers m \<equiv>
     with_channel Hash channel_name
       (\<lambda>key. snd (MultiValueWarehouse_Search_attrs (chm_channel_writers m) key writers))"

abbreviation ChannelManager_HasReader ::
  "(string \<Rightarrow> u64) \<Rightarrow> string \<Rightarrow> channel_manager \<Rightarrow> global_data \<Rightarrow> (bool \<times> global_data) option" where
  "ChannelManager_HasReader Hash channel_name m \<equiv>
     with_channel Hash channel_name (MultiValueWarehouse_Search (chm_channel_readers m))"

abbreviation ChannelManager_GetReaders :: "channel_manager \<Rightarrow> role_attributes list \<Rightarrow> role_attributes list" where
  "ChannelManager_GetReaders m readers \<equiv> MultiValueWarehouse_GetAllRoles_attr (chm_channel_readers m) readers"

abbreviation ChannelManager_GetReadersOfNode ::
  "(string \<Rightarrow> u64) \<Rightarrow> string \<Rightarrow> role_attributes list \<Rightarrow> channel_manager \<Rightarrow> global_data
    \<Rightarrow> (role_attributes list \<times> global_data) option" where
  "ChannelManager_GetReadersOfNode Hash node_name readers m \<equiv>
     with_node Hash node_name (\<lambda>key. snd (MultiValueWarehouse_Search_attrs (chm_node_readers m) key readers))"

abbreviation ChannelManager_GetReadersOfChannel ::
  "(string \<Rightarrow> u64) \<Rightarrow> string \<Rightarrow> role_attributes list \<Rightarrow> channel_manager \<Rightarrow> global_data
    \<Rightarrow> (role_attributes list \<times> global_data) option" where
  "ChannelManager_GetReadersOfChannel Hash channel_name readers m \<equiv>
     with_channel Hash channel_name
       (\<lambda>key. snd (MultiValueWarehouse_Search_attrs (chm_channel_readers m) key readers))"

text \<open>The loop over the channels of a node.\<close>

fun collect_channels ::
  "(string \<Rightarrow> role_attributes list \<Rightarrow> global_data \<Rightarrow> (role_attributes list \<times> global_data) option)
    \<Rightarrow> string list \<Rightarrow> role_attributes list \<Rightarrow> global_data \<Rightarrow> (role_attributes list \<times> global_data) option" where
  "collect_channels get [] acc g = Some (acc, g)"
| "collect_channels get (c # cs) acc g =
     (case get c acc g of
        None \<Rightarrow> None
      | Some (acc, g) \<Rightarrow> collect_channels get cs acc g)"

text \<open>The attributes of a node that are kept of a reader or writer.\<close>

abbreviation node_of :: "role_attributes \<Rightarrow> role_attributes" where
  "node_of attr \<equiv>
     empty_attributes
       \<lparr>ra_host_name := Some (str (ra_host_name attr)), ra_process_id := Some (num (ra_process_id attr)),
        ra_node_name := Some (str (ra_node_name attr)), ra_node_id := Some (num (ra_node_id attr))\<rparr>"

definition nodes_of :: "role_attributes list \<Rightarrow> (string \<times> role_attributes) list" where
  "nodes_of attrs =
     fold (\<lambda>attr nodes. AList.update (str (ra_node_name (node_of attr))) (node_of attr) nodes) attrs []"

definition ChannelManager_GetUpstreamOfNode ::
  "(string \<Rightarrow> u64) \<Rightarrow> string \<Rightarrow> role_attributes list \<Rightarrow> channel_manager \<Rightarrow> global_data
    \<Rightarrow> (role_attributes list \<times> global_data) option" where
  "ChannelManager_GetUpstreamOfNode Hash node_name upstream_nodes m g =
     (case ChannelManager_GetReadersOfNode Hash node_name [] m g of
        None \<Rightarrow> None
      | Some (readers, g) \<Rightarrow>
          if readers = [] then Some (upstream_nodes, g)
          else
            let channels = remdups (map (\<lambda>r. str (ra_channel_name r)) readers)
            in case collect_channels (\<lambda>c acc. ChannelManager_GetWritersOfChannel Hash c acc m) channels [] g of
                 None \<Rightarrow> None
               | Some (writers, g) \<Rightarrow> Some (upstream_nodes @ map snd (nodes_of writers), g))"

definition ChannelManager_GetDownstreamOfNode ::
  "(string \<Rightarrow> u64) \<Rightarrow> string \<Rightarrow> role_attributes list \<Rightarrow> channel_manager \<Rightarrow> global_data
    \<Rightarrow> (role_attributes list \<times> global_data) option" where
  "ChannelManager_GetDownstreamOfNode Hash node_name downstream_nodes m g =
     (case ChannelManager_GetWritersOfNode Hash node_name [] m g of
        None \<Rightarrow> None
      | Some (writers, g) \<Rightarrow>
          if writers = [] then Some (downstream_nodes, g)
          else
            let channels = remdups (map (\<lambda>w. str (ra_channel_name w)) writers)
            in case collect_channels (\<lambda>c acc. ChannelManager_GetReadersOfChannel Hash c acc m) channels [] g of
                 None \<Rightarrow> None
               | Some (readers, g) \<Rightarrow> Some (downstream_nodes @ map snd (nodes_of readers), g))"

abbreviation ChannelManager_GetFlowDirection :: "string \<Rightarrow> string \<Rightarrow> channel_manager \<Rightarrow> flow_direction" where
  "ChannelManager_GetFlowDirection lhs_node_name rhs_node_name m \<equiv>
     Graph_GetDirectionOf (chm_node_graph m) lhs_node_name rhs_node_name"

definition ChannelManager_IsMessageTypeMatching :: "string \<Rightarrow> string \<Rightarrow> channel_manager \<Rightarrow> bool" where
  "ChannelManager_IsMessageTypeMatching lhs rhs m =
     (if lhs = rhs then True
      else if lhs \<in> set (chm_exempted_msg_types m) then True
      else if rhs \<in> set (chm_exempted_msg_types m) then True
      else False)"

definition ChannelManager_Check :: "role_attributes \<Rightarrow> bool" where
  "ChannelManager_Check attr =
     (if ra_channel_name attr = None then False
      else if ra_channel_id attr = None then False
      else if ra_id attr = None then False
      else True)"

text \<open>\<open>ScanMessageType\<close> only logs; the model returns the attributes of the mismatching roles.\<close>

definition ChannelManager_ScanMessageType ::
  "change_msg \<Rightarrow> channel_manager \<Rightarrow> role_attributes list \<times> role_attributes list" where
  "ChannelManager_ScanMessageType msg m =
     (let key = num (ra_channel_id (cm_role_attr msg));
          mismatch = (\<lambda>a. \<not> ChannelManager_IsMessageTypeMatching
                             (str (ra_message_type (cm_role_attr msg))) (str (ra_message_type a)) m);
          existed_writers = snd (MultiValueWarehouse_Search_attrs (chm_channel_writers m) key []);
          existed_readers = snd (MultiValueWarehouse_Search_attrs (chm_channel_readers m) key [])
      in (filter mismatch existed_writers, filter mismatch existed_readers))"

definition RoleChannel :: "role_attributes \<Rightarrow> u64 \<Rightarrow> role" where
  "RoleChannel attr timestamp =
     \<lparr>role_kind = RoleWriter, role_attrs = attr, role_timestamp_ns = timestamp\<rparr>"

definition ChannelManager_DisposeJoin :: "change_msg \<Rightarrow> channel_manager \<Rightarrow> channel_manager" where
  "ChannelManager_DisposeJoin msg m =
     (let attr = cm_role_attr msg;
          v = str (ra_node_name attr);
          r = RoleChannel attr (cm_timestamp msg);
          e = \<lparr>e_src = [], e_dst = [], e_value = str (ra_channel_name attr)\<rparr>
      in if cm_role_type msg = ROLE_WRITER
         then
           let m = (if ra_proto_desc attr \<noteq> None \<and> str (ra_proto_desc attr) \<noteq> []
                    then m\<lparr>chm_registered_protos := chm_registered_protos m @ [str (ra_proto_desc attr)]\<rparr>
                    else m)
           in m\<lparr>chm_node_writers :=
                  snd (MultiValueWarehouse_Add (chm_node_writers m) (num (ra_node_id (role_attrs r))) r True),
                chm_channel_writers :=
                  snd (MultiValueWarehouse_Add (chm_channel_writers m) (num (ra_channel_id (role_attrs r))) r True),
                chm_node_graph := Graph_Insert (e\<lparr>e_src := v\<rparr>) (chm_node_graph m)\<rparr>
         else
           m\<lparr>chm_node_readers :=
               snd (MultiValueWarehouse_Add (chm_node_readers m) (num (ra_node_id (role_attrs r))) r True),
             chm_channel_readers :=
               snd (MultiValueWarehouse_Add (chm_channel_readers m) (num (ra_channel_id (role_attrs r))) r True),
             chm_node_graph := Graph_Insert (e\<lparr>e_dst := v\<rparr>) (chm_node_graph m)\<rparr>)"

definition ChannelManager_DisposeLeave :: "change_msg \<Rightarrow> channel_manager \<Rightarrow> channel_manager" where
  "ChannelManager_DisposeLeave msg m =
     (let attr = cm_role_attr msg;
          v = str (ra_node_name attr);
          r = RoleChannel attr 0;
          e = \<lparr>e_src = [], e_dst = [], e_value = str (ra_channel_name attr)\<rparr>
      in if cm_role_type msg = ROLE_WRITER
         then
           m\<lparr>chm_node_writers :=
               MultiValueWarehouse_Remove_role (chm_node_writers m) (num (ra_node_id (role_attrs r))) r,
             chm_channel_writers :=
               MultiValueWarehouse_Remove_role (chm_channel_writers m) (num (ra_channel_id (role_attrs r))) r,
             chm_node_graph := Graph_Delete (e\<lparr>e_src := v\<rparr>) (chm_node_graph m)\<rparr>
         else
           m\<lparr>chm_node_readers :=
               MultiValueWarehouse_Remove_role (chm_node_readers m) (num (ra_node_id (role_attrs r))) r,
             chm_channel_readers :=
               MultiValueWarehouse_Remove_role (chm_channel_readers m) (num (ra_channel_id (role_attrs r))) r,
             chm_node_graph := Graph_Delete (e\<lparr>e_dst := v\<rparr>) (chm_node_graph m)\<rparr>)"

definition ChannelManager_Dispose :: "change_msg \<Rightarrow> channel_manager \<Rightarrow> channel_manager" where
  "ChannelManager_Dispose msg m =
     Manager_Notify msg
       (if cm_operate_type msg = OPT_JOIN then ChannelManager_DisposeJoin msg m
        else ChannelManager_DisposeLeave msg m)"

fun dispose_leaves ::
  "role_type \<Rightarrow> (nat \<Rightarrow> u64) \<Rightarrow> nat \<Rightarrow> role list \<Rightarrow> channel_manager \<Rightarrow> channel_manager" where
  "dispose_leaves role_ty clock t [] m = m"
| "dispose_leaves role_ty clock t (r # rs) m =
     (let msg = Manager_Convert (clock t) (role_attrs r) role_ty OPT_LEAVE m
      in dispose_leaves role_ty clock (Suc t) rs (Manager_Notify msg (ChannelManager_DisposeLeave msg m)))"

definition ChannelManager_OnTopoModuleLeave ::
  "(nat \<Rightarrow> u64) \<Rightarrow> string \<Rightarrow> int \<Rightarrow> channel_manager \<Rightarrow> channel_manager" where
  "ChannelManager_OnTopoModuleLeave clock host_name process_id m =
     (if \<not> mg_is_discovery_started m then m
      else
        let attr = process_attributes host_name process_id;
            writers_to_remove = snd (MultiValueWarehouse_Search_target_roles (chm_channel_writers m) attr False []);
            readers_to_remove = snd (MultiValueWarehouse_Search_target_roles (chm_channel_readers m) attr False []);
            m = dispose_leaves ROLE_WRITER clock 0 writers_to_remove m
        in dispose_leaves ROLE_READER clock (length writers_to_remove) readers_to_remove m)"

section \<open>ServiceManager\<close>

record service_manager = manager +
  sm_servers :: warehouse_map
  sm_clients :: warehouse_map

definition ServiceManager_new :: "string \<Rightarrow> int \<Rightarrow> service_manager" where
  "ServiceManager_new host_name process_id =
     manager.extend
       ((Manager_new host_name process_id)
          \<lparr>mg_allowed_role := role_bit ROLE_SERVER OR role_bit ROLE_CLIENT,
           mg_change_type := CHANGE_SERVICE, mg_channel_name := ''service_change_broadcast''\<rparr>)
       (service_manager.fields [] [])"

abbreviation ServiceManager_HasService :: "(string \<Rightarrow> u64) \<Rightarrow> string \<Rightarrow> service_manager \<Rightarrow> bool" where
  "ServiceManager_HasService Hash service_name m \<equiv>
     (let key = Hash service_name in SingleValueWarehouse_Search (sm_servers m) key)"

abbreviation ServiceManager_GetServers :: "service_manager \<Rightarrow> role_attributes list \<Rightarrow> role_attributes list" where
  "ServiceManager_GetServers m servers \<equiv> SingleValueWarehouse_GetAllRoles_attr (sm_servers m) servers"

abbreviation ServiceManager_GetClients ::
  "(string \<Rightarrow> u64) \<Rightarrow> string \<Rightarrow> service_manager \<Rightarrow> role_attributes list \<Rightarrow> role_attributes list" where
  "ServiceManager_GetClients Hash service_name m clients \<equiv>
     (let key = Hash service_name in snd (MultiValueWarehouse_Search_attrs (sm_clients m) key clients))"

abbreviation ServiceManager_Check :: "role_attributes \<Rightarrow> bool" where
  "ServiceManager_Check attr \<equiv>
     (if ra_service_name attr = None then False else if ra_service_id attr = None then False else True)"

definition RoleService :: "role_attributes \<Rightarrow> role" where
  "RoleService attr = \<lparr>role_kind = RoleServer, role_attrs = attr, role_timestamp_ns = 0\<rparr>"

definition ServiceManager_DisposeJoin :: "change_msg \<Rightarrow> service_manager \<Rightarrow> service_manager" where
  "ServiceManager_DisposeJoin msg m =
     (let r = RoleService (cm_role_attr msg); key = num (ra_service_id (role_attrs r))
      in if cm_role_type msg = ROLE_SERVER
         then m\<lparr>sm_servers := snd (SingleValueWarehouse_Add (sm_servers m) key r True)\<rparr>
         else m\<lparr>sm_clients := snd (MultiValueWarehouse_Add (sm_clients m) key r True)\<rparr>)"

definition ServiceManager_DisposeLeave :: "change_msg \<Rightarrow> service_manager \<Rightarrow> service_manager" where
  "ServiceManager_DisposeLeave msg m =
     (let r = RoleService (cm_role_attr msg); key = num (ra_service_id (role_attrs r))
      in if cm_role_type msg = ROLE_SERVER
         then m\<lparr>sm_servers := SingleValueWarehouse_Remove (sm_servers m) key\<rparr>
         else m\<lparr>sm_clients := MultiValueWarehouse_Remove_role (sm_clients m) key r\<rparr>)"

definition ServiceManager_Dispose :: "change_msg \<Rightarrow> service_manager \<Rightarrow> service_manager" where
  "ServiceManager_Dispose msg m =
     Manager_Notify msg
       (if cm_operate_type msg = OPT_JOIN then ServiceManager_DisposeJoin msg m
        else ServiceManager_DisposeLeave msg m)"

definition ServiceManager_OnTopoModuleLeave ::
  "(nat \<Rightarrow> u64) \<Rightarrow> string \<Rightarrow> int \<Rightarrow> service_manager \<Rightarrow> service_manager" where
  "ServiceManager_OnTopoModuleLeave clock host_name process_id m =
     (if \<not> mg_is_discovery_started m then m
      else
        let attr = process_attributes host_name process_id;
            servers_to_remove = snd (SingleValueWarehouse_Search_target_roles (sm_servers m) attr False []);
            m = m\<lparr>sm_servers :=
                    fold (\<lambda>server w. SingleValueWarehouse_Remove w (num (ra_service_id (role_attrs server))))
                      servers_to_remove (sm_servers m)\<rparr>;
            clients_to_remove = snd (MultiValueWarehouse_Search_target_roles (sm_clients m) attr False []);
            m = m\<lparr>sm_clients :=
                    fold (\<lambda>client w. MultiValueWarehouse_Remove_role w
                            (num (ra_service_id (role_attrs client))) client)
                      clients_to_remove (sm_clients m)\<rparr>;
            m = notify_leaves ROLE_SERVER clock 0 servers_to_remove m
        in notify_leaves ROLE_CLIENT clock (length servers_to_remove) clients_to_remove m)"

section \<open>The tables of the channel manager\<close>

text \<open>
  The specification of the tables: the roles that joined and did not leave.  A message of leaving
  removes the roles that match its attributes.
\<close>

definition is_writer_msg :: "change_msg \<Rightarrow> bool" where
  "is_writer_msg msg \<longleftrightarrow> cm_role_type msg = ROLE_WRITER"

definition spec_change :: "bool \<Rightarrow> change_msg \<Rightarrow> role set \<Rightarrow> role set" where
  "spec_change writers msg S =
     (if is_writer_msg msg \<noteq> writers then S
      else if cm_operate_type msg = OPT_JOIN
      then insert (RoleChannel (cm_role_attr msg) (cm_timestamp msg)) S
      else {x \<in> S. \<not> Match x (cm_role_attr msg)})"

definition joined :: "bool \<Rightarrow> change_msg list \<Rightarrow> role set" where
  "joined writers msgs = fold (spec_change writers) msgs {}"

text \<open>Attributes that identify a reader or writer and its process completely.\<close>

definition complete :: "role_attributes \<Rightarrow> bool" where
  "complete attr \<longleftrightarrow>
     ra_node_id attr \<noteq> None \<and> ra_channel_id attr \<noteq> None \<and> ra_id attr \<noteq> None
     \<and> ra_host_name attr \<noteq> None \<and> ra_process_id attr \<noteq> None"

definition node_key :: "role \<Rightarrow> u64" where
  "node_key x = num (ra_node_id (role_attrs x))"

definition channel_key :: "role \<Rightarrow> u64" where
  "channel_key x = num (ra_channel_id (role_attrs x))"

definition filed :: "(role \<Rightarrow> u64) \<Rightarrow> role set \<Rightarrow> warehouse_map \<Rightarrow> bool" where
  "filed key S w \<longleftrightarrow> set w = (\<lambda>x. (key x, x)) ` S"

lemma filed_Add:
  "filed key S w \<Longrightarrow> k = key r \<Longrightarrow> filed key (insert r S) (snd (MultiValueWarehouse_Add w k r True))"
  by (simp add: filed_def MultiValueWarehouse_Add_def)

lemma filed_Remove_role:
  assumes "filed key S w" and "\<And>x. x \<in> S \<Longrightarrow> Match x (role_attrs r) \<Longrightarrow> key x = k"
  shows "filed key {x \<in> S. \<not> Match x (role_attrs r)} (MultiValueWarehouse_Remove_role w k r)"
  using assms unfolding filed_def multi.entries_remove_role [OF TrueI] by auto

lemma Match_keys:
  assumes "role_kind x = RoleWriter" and "Match x attr" and "complete attr"
  shows "node_key x = num (ra_node_id attr)" and "channel_key x = num (ra_channel_id attr)"
  using assms
  by (auto simp: Match_def RoleWriter_Match_def RoleBase_Match_def complete_def node_key_def
      channel_key_def split: if_splits)

text \<open>The state of the tables.\<close>

definition tables_ok :: "role set \<Rightarrow> role set \<Rightarrow> channel_manager \<Rightarrow> bool" where
  "tables_ok W R m \<longleftrightarrow>
     filed node_key W (chm_node_writers m) \<and> filed channel_key W (chm_channel_writers m)
     \<and> filed node_key R (chm_node_readers m) \<and> filed channel_key R (chm_channel_readers m)
     \<and> (\<forall>x \<in> W. role_kind x = RoleWriter \<and> complete (role_attrs x))
     \<and> (\<forall>x \<in> R. role_kind x = RoleWriter \<and> complete (role_attrs x))"

lemma tables_ok_Notify [simp]: "tables_ok W R (Manager_Notify msg m) = tables_ok W R m"
  by (simp add: tables_ok_def Manager_Notify_def)

lemma tables_ok_started [simp]: "tables_ok W R (m\<lparr>mg_is_discovery_started := b\<rparr>) = tables_ok W R m"
  by (simp add: tables_ok_def)

lemma tables_ok_Join:
  assumes "tables_ok W R m" and "complete (cm_role_attr msg)" and "cm_operate_type msg = OPT_JOIN"
  shows "tables_ok (spec_change True msg W) (spec_change False msg R) (ChannelManager_DisposeJoin msg m)"
proof -
  let ?r = "RoleChannel (cm_role_attr msg) (cm_timestamp msg)"
  have r: "role_kind ?r = RoleWriter" "role_attrs ?r = cm_role_attr msg"
    by (simp_all add: RoleChannel_def)
  show ?thesis
  proof (cases "is_writer_msg msg")
    case True
    then show ?thesis
      using assms r filed_Add [of node_key W "chm_node_writers m" _ ?r]
        filed_Add [of channel_key W "chm_channel_writers m" _ ?r]
      by (simp add: tables_ok_def ChannelManager_DisposeJoin_def Let_def spec_change_def is_writer_msg_def
          node_key_def channel_key_def)
  next
    case False
    then show ?thesis
      using assms r filed_Add [of node_key R "chm_node_readers m" _ ?r]
        filed_Add [of channel_key R "chm_channel_readers m" _ ?r]
      by (simp add: tables_ok_def ChannelManager_DisposeJoin_def Let_def spec_change_def is_writer_msg_def
          node_key_def channel_key_def)
  qed
qed

lemma tables_ok_Leave:
  assumes "tables_ok W R m" and "complete (cm_role_attr msg)" and "cm_operate_type msg = OPT_LEAVE"
  shows "tables_ok (spec_change True msg W) (spec_change False msg R) (ChannelManager_DisposeLeave msg m)"
proof -
  let ?r = "RoleChannel (cm_role_attr msg) 0"
  have r: "role_attrs ?r = cm_role_attr msg" by (simp add: RoleChannel_def)
  have keys: "node_key x = num (ra_node_id (cm_role_attr msg))"
    "channel_key x = num (ra_channel_id (cm_role_attr msg))"
    if "x \<in> W \<union> R" "Match x (role_attrs ?r)" for x
    using Match_keys [of x "cm_role_attr msg"] assms(1,2) that r by (auto simp: tables_ok_def)
  show ?thesis
  proof (cases "is_writer_msg msg")
    case True
    then show ?thesis
      using assms r keys filed_Remove_role [of node_key W "chm_node_writers m" ?r]
        filed_Remove_role [of channel_key W "chm_channel_writers m" ?r]
      by (auto simp: tables_ok_def ChannelManager_DisposeLeave_def Let_def spec_change_def is_writer_msg_def)
  next
    case False
    then show ?thesis
      using assms r keys filed_Remove_role [of node_key R "chm_node_readers m" ?r]
        filed_Remove_role [of channel_key R "chm_channel_readers m" ?r]
      by (auto simp: tables_ok_def ChannelManager_DisposeLeave_def Let_def spec_change_def is_writer_msg_def)
  qed
qed

lemma tables_ok_Dispose:
  assumes "tables_ok W R m" and "complete (cm_role_attr msg)"
  shows "tables_ok (spec_change True msg W) (spec_change False msg R) (ChannelManager_Dispose msg m)"
  using tables_ok_Join [OF assms] tables_ok_Leave [OF assms]
  by (cases "cm_operate_type msg") (simp_all add: ChannelManager_Dispose_def)

lemma tables_ok_run:
  assumes "tables_ok W R m" and "\<forall>msg \<in> set msgs. complete (cm_role_attr msg)"
  shows "tables_ok (fold (spec_change True) msgs W) (fold (spec_change False) msgs R)
           (fold ChannelManager_Dispose msgs m)"
  using assms
  by (induction msgs arbitrary: W R m) (simp_all add: tables_ok_Dispose)

lemma tables_ok_new: "tables_ok {} {} (ChannelManager_new h p)"
  by (simp add: tables_ok_def filed_def ChannelManager_new_def manager.extend_def channel_manager.fields_def
      Manager_new_def)

text \<open>
  C12: After any sequence of join and leave messages with complete attributes, the four tables of
  the channel manager hold exactly the writers and readers that joined and did not leave, the one
  under their channel id and the other under their node id; in particular the table by node and
  the table by channel always hold the same roles.
\<close>

theorem ChannelManager_tables_correct:
  assumes "\<forall>msg \<in> set msgs. complete (cm_role_attr msg)"
    and "m = fold ChannelManager_Dispose msgs (ChannelManager_new h p)"
  shows "set (chm_channel_writers m) = (\<lambda>x. (channel_key x, x)) ` joined True msgs
    \<and> set (chm_node_writers m) = (\<lambda>x. (node_key x, x)) ` joined True msgs
    \<and> set (chm_channel_readers m) = (\<lambda>x. (channel_key x, x)) ` joined False msgs
    \<and> set (chm_node_readers m) = (\<lambda>x. (node_key x, x)) ` joined False msgs"
  using tables_ok_run [OF tables_ok_new assms(1), of h p]
  by (simp add: tables_ok_def filed_def joined_def assms(2))

definition sample_attr :: "string \<Rightarrow> u64 \<Rightarrow> u64 \<Rightarrow> role_attributes" where
  "sample_attr node node_id writer_id =
     empty_attributes
       \<lparr>ra_host_name := Some ''h'', ra_process_id := Some 1, ra_node_name := Some node,
        ra_node_id := Some node_id, ra_channel_name := Some ''c'', ra_channel_id := Some 9,
        ra_id := Some writer_id\<rparr>"

definition sample_msg :: "role_type \<Rightarrow> operate_type \<Rightarrow> role_attributes \<Rightarrow> change_msg" where
  "sample_msg role_ty opt attr =
     \<lparr>cm_timestamp = 5, cm_change_type = CHANGE_CHANNEL, cm_operate_type = opt,
      cm_role_type = role_ty, cm_role_attr = attr\<rparr>"

lemma complete_sample: "complete (cm_role_attr (sample_msg role_ty opt (sample_attr node i w)))"
  by (simp add: sample_msg_def sample_attr_def complete_def empty_attributes_def)

theorem ChannelManager_tables_correct_witness:
  "set (chm_node_writers (fold ChannelManager_Dispose
      [sample_msg ROLE_WRITER OPT_JOIN (sample_attr ''A'' 1 7)] (ChannelManager_new ''h'' 1)))
   = {(1, RoleChannel (sample_attr ''A'' 1 7) 5)}"
  using ChannelManager_tables_correct [of "[sample_msg ROLE_WRITER OPT_JOIN (sample_attr ''A'' 1 7)]"
      _ "''h''" 1, OF _ refl] complete_sample
  by (simp add: joined_def spec_change_def is_writer_msg_def node_key_def sample_msg_def RoleChannel_def
      sample_attr_def)

section \<open>A process leaves\<close>

lemma Convert_complete:
  "complete attr \<Longrightarrow> cm_role_attr (Manager_Convert now attr role_ty opt m) = attr"
  by (auto simp: Manager_Convert_def complete_def)

lemma Convert_simps [simp]:
  "cm_role_type (Manager_Convert now attr role_ty opt m) = role_ty"
  "cm_operate_type (Manager_Convert now attr role_ty opt m) = opt"
  by (simp_all add: Manager_Convert_def Let_def)

definition without :: "role list \<Rightarrow> role set \<Rightarrow> role set" where
  "without rs S = {x \<in> S. \<not> (\<exists>r \<in> set rs. Match x (role_attrs r))}"

lemma tables_ok_dispose_leaves:
  assumes "tables_ok W R m" and "\<forall>r \<in> set rs. complete (role_attrs r)"
    and "role_ty = ROLE_WRITER \<or> role_ty = ROLE_READER"
  shows "tables_ok (if role_ty = ROLE_WRITER then without rs W else W)
           (if role_ty = ROLE_WRITER then R else without rs R) (dispose_leaves role_ty clock t rs m)"
  using assms(1,2)
proof (induction rs arbitrary: W R m t)
  case Nil
  then show ?case by (simp add: without_def)
next
  case (Cons r rs)
  let ?msg = "Manager_Convert (clock t) (role_attrs r) role_ty OPT_LEAVE m"
  have msg: "cm_role_attr ?msg = role_attrs r" using Cons.prems(2) by (simp add: Convert_complete)
  have "tables_ok (spec_change True ?msg W) (spec_change False ?msg R)
          (Manager_Notify ?msg (ChannelManager_DisposeLeave ?msg m))"
    using tables_ok_Leave [OF Cons.prems(1), of ?msg] Cons.prems(2) msg by simp
  then have next_ok: "tables_ok (if role_ty = ROLE_WRITER then {x \<in> W. \<not> Match x (role_attrs r)} else W)
      (if role_ty = ROLE_WRITER then R else {x \<in> R. \<not> Match x (role_attrs r)})
      (Manager_Notify ?msg (ChannelManager_DisposeLeave ?msg m))"
    using msg by (simp add: spec_change_def is_writer_msg_def split: if_splits)
  have step: "without (r # rs) S = without rs {x \<in> S. \<not> Match x (role_attrs r)}" for S
    by (auto simp: without_def)
  show ?case
    using Cons.IH [OF next_ok, of "Suc t"] Cons.prems(2) assms(3)
    by (simp add: Let_def step split: if_splits)
qed

lemma without_process:
  assumes "filed key S w" and "\<forall>x \<in> S. complete (role_attrs x)" and "target = process_attributes host pid"
  shows "without (snd (MultiValueWarehouse_Search_target_roles w target False [])) S
         = {x \<in> S. \<not> Match x target}"
proof -
  have found: "set (snd (MultiValueWarehouse_Search_target_roles w target False [])) = {x \<in> S. Match x target}"
    using assms(1) multi.search_target_iff [OF TrueI, of w target] by (auto simp: filed_def)
  have same: "Match x target \<longleftrightarrow> Match r target" if "Match x (role_attrs r)" "r \<in> S" for x r
    using Match_same_process [OF that(1), of host pid] assms(2,3) that(2) by (auto simp: complete_def)
  show ?thesis
    unfolding without_def found using same by auto
qed

lemma tables_ok_process_leave:
  assumes "\<forall>msg \<in> set msgs. complete (cm_role_attr msg)"
    and "m = fold ChannelManager_Dispose msgs (ChannelManager_new h p)"
    and "m' = ChannelManager_OnTopoModuleLeave clock host pid (m\<lparr>mg_is_discovery_started := True\<rparr>)"
  shows "tables_ok {x \<in> joined True msgs. \<not> Match x (process_attributes host pid)}
           {x \<in> joined False msgs. \<not> Match x (process_attributes host pid)} m'"
proof -
  let ?t = "process_attributes host pid"
  let ?W = "joined True msgs" and ?R = "joined False msgs"
  let ?m = "m\<lparr>mg_is_discovery_started := True\<rparr>"
  have ok: "tables_ok ?W ?R ?m"
    using tables_ok_run [OF tables_ok_new assms(1), of h p] by (simp add: joined_def assms(2))
  define ws where "ws = snd (MultiValueWarehouse_Search_target_roles (chm_channel_writers ?m) ?t False [])"
  define rs where "rs = snd (MultiValueWarehouse_Search_target_roles (chm_channel_readers ?m) ?t False [])"
  have filed: "filed channel_key ?W (chm_channel_writers ?m)" "filed channel_key ?R (chm_channel_readers ?m)"
    and comp: "\<forall>x \<in> ?W. complete (role_attrs x)" "\<forall>x \<in> ?R. complete (role_attrs x)"
    using ok by (simp_all add: tables_ok_def)
  have w: "without ws ?W = {x \<in> ?W. \<not> Match x ?t}" and r: "without rs ?R = {x \<in> ?R. \<not> Match x ?t}"
    unfolding ws_def rs_def by (rule without_process [OF filed(1) comp(1) refl], rule without_process [OF filed(2) comp(2) refl])
  have cws: "\<forall>x \<in> set ws. complete (role_attrs x)" and crs: "\<forall>x \<in> set rs. complete (role_attrs x)"
    using filed comp unfolding ws_def rs_def multi.search_target_iff [OF TrueI] filed_def by auto
  have m': "m' = dispose_leaves ROLE_READER clock (length ws) rs (dispose_leaves ROLE_WRITER clock 0 ws ?m)"
    by (simp add: assms(3) ChannelManager_OnTopoModuleLeave_def Let_def ws_def rs_def)
  have "tables_ok (without ws ?W) ?R (dispose_leaves ROLE_WRITER clock 0 ws ?m)"
    using tables_ok_dispose_leaves [OF ok cws, of ROLE_WRITER] by simp
  then have "tables_ok (without ws ?W) (without rs ?R) m'"
    unfolding m' using tables_ok_dispose_leaves [OF _ crs, of _ _ _ ROLE_READER] by simp
  then show "tables_ok {x \<in> ?W. \<not> Match x ?t} {x \<in> ?R. \<not> Match x ?t} m'"
    unfolding w r .
qed

text \<open>
  When a process leaves the topology, the channel manager forgets exactly the readers and
  writers of the process, in all four tables, provided discovery has been started.
\<close>

lemma ChannelManager_process_leave:
  assumes "\<forall>msg \<in> set msgs. complete (cm_role_attr msg)"
    and "m = fold ChannelManager_Dispose msgs (ChannelManager_new h p)"
    and "m' = ChannelManager_OnTopoModuleLeave clock host pid (m\<lparr>mg_is_discovery_started := True\<rparr>)"
  shows "\<forall>writers.
      let remaining = {x \<in> joined writers msgs. \<not> Match x (process_attributes host pid)}
      in set (if writers then chm_channel_writers m' else chm_channel_readers m')
           = (\<lambda>x. (channel_key x, x)) ` remaining
         \<and> set (if writers then chm_node_writers m' else chm_node_readers m')
           = (\<lambda>x. (node_key x, x)) ` remaining"
proof
  fix writers
  let ?t = "process_attributes host pid"
  show "let remaining = {x \<in> joined writers msgs. \<not> Match x ?t}
    in set (if writers then chm_channel_writers m' else chm_channel_readers m')
         = (\<lambda>x. (channel_key x, x)) ` remaining
       \<and> set (if writers then chm_node_writers m' else chm_node_readers m')
         = (\<lambda>x. (node_key x, x)) ` remaining"
    using tables_ok_process_leave [OF assms]
    by (cases writers) (simp_all add: tables_ok_def filed_def Let_def)
qed


section \<open>Duplicated nodes\<close>

definition msg_node :: "change_msg \<Rightarrow> u64" where
  "msg_node msg = num (ra_node_id (cm_role_attr msg))"

definition is_self :: "'x manager_scheme \<Rightarrow> role \<Rightarrow> bool" where
  "is_self m r \<longleftrightarrow>
     num (ra_process_id (role_attrs r)) = mg_process_id m \<and> str (ra_host_name (role_attrs r)) = mg_host_name m"

lemma role_attrs_RoleNode: "role_attrs (RoleNode msg) = cm_role_attr msg"
  by (simp add: RoleNode_def)

lemma role_timestamp_RoleNode: "role_timestamp_ns (RoleNode msg) = cm_timestamp msg"
  by (simp add: RoleNode_def)

lemma NodeManager_DisposeJoin_cases:
  "NodeManager_DisposeJoin msg m =
     (case map_of (nm_nodes m) (msg_node msg) of
        None \<Rightarrow> m\<lparr>nm_nodes := AList.update (msg_node msg) (RoleNode msg) (nm_nodes m)\<rparr>
      | Some old \<Rightarrow>
          if cm_timestamp msg < role_timestamp_ns old
          then m\<lparr>nm_nodes := AList.update (msg_node msg) (RoleNode msg) (nm_nodes m),
                 nm_async_shutdown := (nm_async_shutdown m \<or> is_self m old)\<rparr>
          else m\<lparr>nm_async_shutdown := (nm_async_shutdown m \<or> is_self m (RoleNode msg))\<rparr>)"
proof (cases "map_of (nm_nodes m) (msg_node msg)")
  case None
  then show ?thesis
    by (simp add: NodeManager_DisposeJoin_def Let_def SingleValueWarehouse_Add_def role_attrs_RoleNode msg_node_def)
next
  case (Some old)
  have key: "num (ra_node_id (role_attrs (RoleNode msg))) = msg_node msg"
    by (simp add: role_attrs_RoleNode msg_node_def)
  have add: "SingleValueWarehouse_Add (nm_nodes m) (msg_node msg) (RoleNode msg) False = (False, nm_nodes m)"
    "snd (SingleValueWarehouse_Add (nm_nodes m) (msg_node msg) (RoleNode msg) True)
       = AList.update (msg_node msg) (RoleNode msg) (nm_nodes m)"
    using Some by (simp_all add: SingleValueWarehouse_Add_def)
  have earlier: "RoleBase_IsEarlierThan (RoleNode msg) old \<longleftrightarrow> cm_timestamp msg < role_timestamp_ns old"
    by (simp add: role_timestamp_RoleNode)
  show ?thesis
    unfolding NodeManager_DisposeJoin_def Let_def key add(1) prod.case bool.case
      SingleValueWarehouse_Search_role_def Some option.case earlier add(2)
    by (cases "cm_timestamp msg < role_timestamp_ns old"; cases m) (auto simp: is_self_def)
qed

text \<open>The message with the earliest timestamp for a node, the first one in case of a tie.\<close>

definition keep_earlier :: "u64 \<Rightarrow> change_msg \<Rightarrow> change_msg option \<Rightarrow> change_msg option" where
  "keep_earlier k msg acc =
     (if msg_node msg \<noteq> k then acc
      else case acc of
             None \<Rightarrow> Some msg
           | Some old \<Rightarrow> if cm_timestamp msg < cm_timestamp old then Some msg else Some old)"

definition earliest :: "u64 \<Rightarrow> change_msg list \<Rightarrow> change_msg option" where
  "earliest k msgs = fold (keep_earlier k) msgs None"

lemma earliest_snoc: "earliest k (msgs @ [msg]) = keep_earlier k msg (earliest k msgs)"
  by (simp add: earliest_def)

lemma earliest_None: "earliest k msgs = None \<longleftrightarrow> (\<forall>msg \<in> set msgs. msg_node msg \<noteq> k)"
  by (induction msgs rule: rev_induct)
    (auto simp: earliest_snoc keep_earlier_def earliest_def split: option.splits if_splits)

lemma earliest_Some:
  "earliest k msgs = Some s \<Longrightarrow> s \<in> set msgs \<and> msg_node s = k
     \<and> (\<forall>msg \<in> set msgs. msg_node msg = k \<longrightarrow> cm_timestamp s \<le> cm_timestamp msg)"
proof (induction msgs arbitrary: s rule: rev_induct)
  case Nil
  then show ?case by (simp add: earliest_def)
next
  case (snoc msg msgs)
  show ?case
  proof (cases "earliest k msgs")
    case None
    then show ?thesis
      using snoc.prems earliest_None [of k msgs]
      by (auto simp: earliest_snoc keep_earlier_def split: if_splits)
  next
    case (Some old)
    then show ?thesis
      using snoc.prems snoc.IH [OF Some]
      by (auto simp: earliest_snoc keep_earlier_def split: if_splits)
  qed
qed

definition nodes_ok :: "change_msg list \<Rightarrow> node_manager \<Rightarrow> bool" where
  "nodes_ok msgs m \<longleftrightarrow>
     (\<forall>k. map_of (nm_nodes m) k = map_option RoleNode (earliest k msgs))
     \<and> (\<forall>msg \<in> set msgs. is_self m (RoleNode msg) \<longrightarrow> earliest (msg_node msg) msgs \<noteq> Some msg
          \<longrightarrow> nm_async_shutdown m)"

lemma nodes_ok_join:
  assumes "nodes_ok msgs m"
  shows "nodes_ok (msgs @ [msg]) (NodeManager_DisposeJoin msg m)"
proof -
  let ?m = "NodeManager_DisposeJoin msg m" and ?k = "msg_node msg"
  have self: "is_self ?m = is_self m"
    by (auto simp: NodeManager_DisposeJoin_cases is_self_def fun_eq_iff split: option.split)
  have at: "map_of (nm_nodes m) ?k = map_option RoleNode (earliest ?k msgs)"
    and lost: "\<And>x. x \<in> set msgs \<Longrightarrow> is_self m (RoleNode x) \<Longrightarrow> earliest (msg_node x) msgs \<noteq> Some x
        \<Longrightarrow> nm_async_shutdown m"
    using assms by (simp_all add: nodes_ok_def)
  have "map_of (nm_nodes ?m) k = map_option RoleNode (earliest k (msgs @ [msg]))" for k
    using assms at
    by (cases "earliest ?k msgs")
      (auto simp: nodes_ok_def NodeManager_DisposeJoin_cases update_conv earliest_snoc keep_earlier_def role_timestamp_RoleNode)
  moreover have "nm_async_shutdown ?m"
    if x: "x \<in> set (msgs @ [msg])" "is_self m (RoleNode x)" "earliest (msg_node x) (msgs @ [msg]) \<noteq> Some x" for x
  proof (cases "x \<in> set msgs \<and> earliest (msg_node x) msgs \<noteq> Some x")
    case True
    then have "nm_async_shutdown m" using lost x(2) by blast
    then show ?thesis by (auto simp: NodeManager_DisposeJoin_cases split: option.split)
  next
    case False
    then show ?thesis
      using x at
      by (cases "earliest ?k msgs")
        (auto simp: NodeManager_DisposeJoin_cases earliest_snoc keep_earlier_def role_timestamp_RoleNode split: if_splits)
  qed
  ultimately show ?thesis by (simp add: nodes_ok_def self)
qed

lemma nodes_ok_Notify: "nodes_ok msgs (Manager_Notify msg m) = nodes_ok msgs m"
  by (simp add: nodes_ok_def Manager_Notify_def is_self_def)

lemma nodes_ok_run:
  assumes "\<forall>msg \<in> set msgs. cm_operate_type msg = OPT_JOIN"
  shows "nodes_ok msgs (fold NodeManager_Dispose msgs (NodeManager_new h p))"
  using assms
proof (induction msgs rule: rev_induct)
  case Nil
  then show ?case
    by (simp add: nodes_ok_def NodeManager_new_def Manager_new_def manager.extend_def node_manager.fields_def
        earliest_def)
next
  case (snoc msg msgs)
  then show ?case
    by (simp add: NodeManager_Dispose_def nodes_ok_Notify nodes_ok_join)
qed

lemma is_self_run:
  "is_self (fold NodeManager_Dispose msgs (NodeManager_new h p)) r \<longleftrightarrow>
     num (ra_process_id (role_attrs r)) = p \<and> str (ra_host_name (role_attrs r)) = h"
proof -
  have step: "is_self (NodeManager_Dispose msg m) r = is_self m r" for msg m
    by (auto simp: is_self_def NodeManager_Dispose_def Manager_Notify_def NodeManager_DisposeJoin_cases
        NodeManager_DisposeLeave_def Let_def split: option.split)
  have "is_self (fold NodeManager_Dispose msgs m) r = is_self m r" for m
    by (induction msgs arbitrary: m) (simp_all add: step)
  then show ?thesis
    by (simp add: is_self_def NodeManager_new_def Manager_new_def manager.extend_def node_manager.fields_def)
qed

text \<open>
  Whatever the order in which the join messages of nodes with the same id arrive, the node
  manager ends up with the node of the earliest timestamp, and a process one of whose own nodes is
  not the one kept is marked for shutdown.
\<close>

theorem NodeManager_earliest_wins:
  assumes "\<forall>msg \<in> set msgs. cm_operate_type msg = OPT_JOIN"
    and "m = fold NodeManager_Dispose msgs (NodeManager_new h p)" and "msg \<in> set msgs"
  shows "\<exists>first \<in> set msgs.
      map_of (nm_nodes m) (msg_node msg) = Some (RoleNode first) \<and> msg_node first = msg_node msg
      \<and> (\<forall>other \<in> set msgs. msg_node other = msg_node msg \<longrightarrow> cm_timestamp first \<le> cm_timestamp other)
      \<and> (first \<noteq> msg \<longrightarrow> num (ra_process_id (cm_role_attr msg)) = p
            \<longrightarrow> str (ra_host_name (cm_role_attr msg)) = h \<longrightarrow> nm_async_shutdown m)"
proof -
  have ok: "nodes_ok msgs m" unfolding assms(2) by (rule nodes_ok_run [OF assms(1)])
  obtain first where first: "earliest (msg_node msg) msgs = Some first"
    using earliest_None [of "msg_node msg" msgs] assms(3) by (cases "earliest (msg_node msg) msgs") auto
  have "nm_async_shutdown m"
    if "first \<noteq> msg" "num (ra_process_id (cm_role_attr msg)) = p" "str (ra_host_name (cm_role_attr msg)) = h"
    using ok first that assms(2,3) is_self_run [of msgs h p "RoleNode msg"]
    by (auto simp: nodes_ok_def role_attrs_RoleNode)
  moreover have "map_of (nm_nodes m) (msg_node msg) = Some (RoleNode first)"
    using ok first by (simp add: nodes_ok_def)
  ultimately show ?thesis
    using earliest_Some [OF first] by blast
qed

definition sample_node :: "u64 \<Rightarrow> change_msg" where
  "sample_node t =
     \<lparr>cm_timestamp = t, cm_change_type = CHANGE_NODE, cm_operate_type = OPT_JOIN,
      cm_role_type = ROLE_NODE, cm_role_attr = sample_attr ''A'' 1 7\<rparr>"

theorem NodeManager_earliest_wins_witness:
  "nm_async_shutdown (fold NodeManager_Dispose [sample_node 5, sample_node 3] (NodeManager_new ''h'' 1))"
proof -
  define m where "m = fold NodeManager_Dispose [sample_node 5, sample_node 3] (NodeManager_new ''h'' 1)"
  have node: "cm_operate_type (sample_node t) = OPT_JOIN" "msg_node (sample_node t) = 1"
    "num (ra_process_id (cm_role_attr (sample_node t))) = 1" "str (ra_host_name (cm_role_attr (sample_node t))) = ''h''"
    "cm_timestamp (sample_node t) = t" for t
    by (simp_all add: sample_node_def sample_attr_def msg_node_def)
  have "sample_node 3 \<noteq> sample_node 5" using node(5) [of 3] node(5) [of 5] by auto
  then show ?thesis
    using NodeManager_earliest_wins [OF _ m_def, of "sample_node 5"]
    unfolding m_def [symmetric] by (auto simp: node)
qed


end
