(* ===== verification/StdString.thy ===== *)
theory StdString
  imports Prelude
begin

text \<open>
  The functions on strings of the C++ standard library that several components use: conversion of an
  \<open>int\<close> to decimal digits and back (\<open>std::to_string\<close>, \<open>std::stoi\<close>) and the loop over
  \<open>getline\<close> with a separator.  Conversion to an integer fails, as a thrown exception, when the string
  has no digits or the value does not fit an \<open>int\<close>.
\<close>

section \<open>Decimal numbers\<close>

definition digit_char :: "nat \<Rightarrow> char" where
  "digit_char d = char_of (48 + d)"

definition digit_value :: "char \<Rightarrow> nat" where
  "digit_value c = of_char c - 48"

definition is_digit :: "char \<Rightarrow> bool" where
  "is_digit c \<longleftrightarrow> (48 :: nat) \<le> of_char c \<and> of_char c \<le> (57 :: nat)"

text \<open>The library functions \<open>std::to_string\<close> and \<open>std::stoi\<close> for \<open>int\<close>.\<close>

fun digits :: "nat \<Rightarrow> string" where
  "digits n = (if n < 10 then [digit_char n] else digits (n div 10) @ [digit_char (n mod 10)])"

declare digits.simps [simp del]

definition to_string :: "int \<Rightarrow> string" where
  "to_string i = (if i < 0 then CHR ''-'' # digits (nat (- i)) else digits (nat i))"

definition digits_value :: "string \<Rightarrow> nat" where
  "digits_value ds = fold (\<lambda>c n. 10 * n + digit_value c) ds 0"

definition is_space :: "char \<Rightarrow> bool" where
  "is_space c \<longleftrightarrow> c = CHR '' '' \<or> ((9 :: nat) \<le> of_char c \<and> of_char c \<le> (13 :: nat))"

definition stoi :: "string \<Rightarrow> int option" where
  "stoi s =
     (let s = dropWhile is_space s;
          (negative, s) =
            (case s of
               c # rest \<Rightarrow> if c = CHR ''-'' then (True, rest) else if c = CHR ''+'' then (False, rest) else (False, s)
             | [] \<Rightarrow> (False, s));
          ds = takeWhile is_digit s;
          v = (if negative then - int (digits_value ds) else int (digits_value ds))
      in if ds = [] \<or> v < - 2147483648 \<or> 2147483647 < v then None else Some v)"

lemma of_char_digit: "d < 10 \<Longrightarrow> of_char (digit_char d) = 48 + d"
  by (simp add: digit_char_def of_char_of)

lemma is_digit_char: "d < 10 \<Longrightarrow> is_digit (digit_char d)"
  by (simp add: is_digit_def of_char_digit)

lemma digit_value_char: "d < 10 \<Longrightarrow> digit_value (digit_char d) = d"
  by (simp add: digit_value_def of_char_digit)

lemma digits_are_digits: "\<forall>c \<in> set (digits n). is_digit c"
  by (induction n rule: digits.induct) (subst digits.simps, auto simp: is_digit_char)

lemma digits_not_Nil: "digits n \<noteq> []"
  by (subst digits.simps) simp

lemma digits_value_digits: "digits_value (digits n) = n"
proof (induction n rule: digits.induct)
  case (1 n)
  show ?case
  proof (cases "n < 10")
    case True
    then show ?thesis by (subst digits.simps) (simp add: digits_value_def digit_value_char)
  next
    case False
    then show ?thesis
      using 1 [OF False] by (subst digits.simps) (simp add: digits_value_def digit_value_char)
  qed
qed

lemma is_digit_not_special: "is_digit c \<Longrightarrow> \<not> is_space c \<and> c \<noteq> CHR ''-'' \<and> c \<noteq> CHR ''+''"
  by (auto simp: is_digit_def is_space_def)

lemma digits_head:
  obtains c ds where "digits n = c # ds" "\<not> is_space c" "c \<noteq> CHR ''-''" "c \<noteq> CHR ''+''"
  using digits_not_Nil [of n] digits_are_digits [of n] is_digit_not_special by (cases "digits n") auto

lemma takeWhile_digits: "takeWhile is_digit (digits n) = digits n"
  using digits_are_digits [of n] by (simp add: takeWhile_eq_all_conv)

lemma stoi_to_string:
  assumes "- 2147483648 \<le> i" and "i \<le> 2147483647"
  shows "stoi (to_string i) = Some i"
proof (cases "i < 0")
  case True
  have "\<not> is_space CHR ''-''" by (simp add: is_space_def)
  then show ?thesis
    using True assms by (simp add: stoi_def to_string_def takeWhile_digits digits_not_Nil digits_value_digits)
next
  case False
  obtain c ds where "digits (nat i) = c # ds" "\<not> is_space c" "c \<noteq> CHR ''-''" "c \<noteq> CHR ''+''"
    by (rule digits_head)
  moreover from this(1) have "takeWhile is_digit (c # ds) = c # ds" "digits_value (c # ds) = nat i"
    using takeWhile_digits [of "nat i"] digits_value_digits [of "nat i"] by simp_all
  ultimately show ?thesis
    using False assms by (simp add: stoi_def to_string_def)
qed

section \<open>Splitting at a separator\<close>

text \<open>
  The pieces that repeated calls of \<open>getline\<close> return: a piece ends at a separator or at the end of
  the string, and there is no piece after a separator that ends the string.
\<close>

function getlines :: "char \<Rightarrow> string \<Rightarrow> string list" where
  "getlines sep [] = []"
| "getlines sep (c # cs) =
     takeWhile (\<lambda>x. x \<noteq> sep) (c # cs) # getlines sep (drop 1 (dropWhile (\<lambda>x. x \<noteq> sep) (c # cs)))"
  by pat_completeness auto
termination
proof (relation "measure (length \<circ> snd)")
  fix sep c :: char and cs :: string
  have "length (dropWhile (\<lambda>x. x \<noteq> sep) (c # cs)) \<le> length (c # cs)" by (rule length_dropWhile_le)
  then show "((sep, drop 1 (dropWhile (\<lambda>x. x \<noteq> sep) (c # cs))), sep, c # cs) \<in> measure (length \<circ> snd)"
    by simp
qed simp

lemma takeWhile_until: "sep \<notin> set s \<Longrightarrow> takeWhile (\<lambda>x. x \<noteq> sep) (s @ sep # rest) = s"
  by (induction s) auto

lemma dropWhile_until: "sep \<notin> set s \<Longrightarrow> dropWhile (\<lambda>x. x \<noteq> sep) (s @ sep # rest) = sep # rest"
  by (induction s) auto

lemma dropWhile_all: "sep \<notin> set s \<Longrightarrow> dropWhile (\<lambda>x. x \<noteq> sep) s = []"
  by (induction s) auto

lemma getlines_piece: "sep \<notin> set s \<Longrightarrow> s \<noteq> [] \<Longrightarrow> getlines sep s = [s]"
  by (cases s) (auto simp: dropWhile_all takeWhile_eq_all_conv)

lemma getlines_append: "sep \<notin> set s \<Longrightarrow> getlines sep (s @ sep # rest) = s # getlines sep rest"
  by (cases s) (auto simp: takeWhile_until dropWhile_until)

end
