(* ===== verification/Topology.thy ===== *)
theory Topology
  imports Discovery StdString
begin

text \<open>
  The topology manager (\<open>cyber/service_discovery/topology_manager.cc\<close>), which owns the node, channel
  and service managers of \<open>Discovery\<close>.  It learns from the RTPS layer which participants come and go.
  A participant is a process; its name is the host name and the process id joined by a plus sign.
  When a participant is removed the manager parses the name it had and tells the three managers
  that the process is gone.

  The theory shows that the name is parsed back to host and process id, and that after the removal
  of a participant the tables of all three managers have lost exactly the roles of that process.
\<close>

section \<open>Names of participants\<close>

definition participant_name :: "string \<Rightarrow> int \<Rightarrow> string" where
  "participant_name host_name process_id = host_name @ [CHR ''+''] @ to_string process_id"

definition ParseParticipantName :: "string \<Rightarrow> (string \<times> int) option" where
  "ParseParticipantName name =
     (if CHR ''+'' \<notin> set name then None
      else
        let host_name = takeWhile (\<lambda>c. c \<noteq> CHR ''+'') name;
            pid_str = drop (length host_name + 1) name
        in case stoi pid_str of None \<Rightarrow> None | Some process_id \<Rightarrow> Some (host_name, process_id))"

section \<open>State\<close>

datatype discovery_status =
  DISCOVERED_RTPSPARTICIPANT | CHANGED_QOS_RTPSPARTICIPANT | REMOVED_RTPSPARTICIPANT | DROPPED_RTPSPARTICIPANT

record part_info =
  pi_guid :: nat
  pi_status :: discovery_status
  pi_name :: string

record topology_manager =
  tm_init :: bool
  tm_node_manager :: "node_manager option"
  tm_channel_manager :: "channel_manager option"
  tm_service_manager :: "service_manager option"
  tm_participant :: "string option"
  tm_participant_running :: bool
  tm_listener :: bool
  tm_slots :: "nat list"
  tm_notified :: "(nat \<times> change_msg) list"
  tm_participant_names :: "(nat \<times> string) list"

text \<open>What the RTPS layer answers when the end points of a manager are created.\<close>

record endpoint_results =
  ep_pub_filled :: bool
  ep_pub_created :: bool
  ep_sub_filled :: bool
  ep_sub_created :: bool

definition start_discovery :: "bool \<Rightarrow> endpoint_results \<Rightarrow> 'x manager_scheme \<Rightarrow> bool \<times> 'x manager_scheme" where
  "start_discovery participant ep m =
     Manager_StartDiscovery participant (ep_pub_filled ep) (ep_pub_created ep) (ep_sub_filled ep)
       (ep_sub_created ep) m"

definition TopologyManager_CreateParticipant :: "string \<Rightarrow> int \<Rightarrow> topology_manager \<Rightarrow> topology_manager" where
  "TopologyManager_CreateParticipant host_name process_id tm =
     tm\<lparr>tm_listener := True, tm_participant := Some (participant_name host_name process_id),
        tm_participant_running := True\<rparr>"

definition init_failed :: "topology_manager \<Rightarrow> topology_manager" where
  "init_failed tm =
     tm\<lparr>tm_participant := None, tm_participant_running := False, tm_listener := False,
        tm_node_manager := None, tm_channel_manager := None, tm_service_manager := None,
        tm_init := False\<rparr>"

definition TopologyManager_Init ::
  "string \<Rightarrow> int \<Rightarrow> bool \<Rightarrow> endpoint_results \<Rightarrow> endpoint_results \<Rightarrow> endpoint_results \<Rightarrow> topology_manager
    \<Rightarrow> bool \<times> topology_manager" where
  "TopologyManager_Init host_name process_id rtps nodes channels services tm =
     (if tm_init tm then (True, tm)
      else
        let tm = TopologyManager_CreateParticipant host_name process_id (tm\<lparr>tm_init := True\<rparr>)
        in case start_discovery rtps nodes (NodeManager_new host_name process_id) of
             (False, nm) \<Rightarrow> (False, init_failed tm)
           | (True, nm) \<Rightarrow>
               (case start_discovery rtps channels (ChannelManager_new host_name process_id) of
                  (False, chm) \<Rightarrow> (False, init_failed tm)
                | (True, chm) \<Rightarrow>
                    (case start_discovery rtps services (ServiceManager_new host_name process_id) of
                       (False, sm) \<Rightarrow> (False, init_failed tm)
                     | (True, sm) \<Rightarrow>
                         (True, tm\<lparr>tm_node_manager := Some nm, tm_channel_manager := Some chm,
                                   tm_service_manager := Some sm\<rparr>))))"

definition TopologyManager_new ::
  "string \<Rightarrow> int \<Rightarrow> bool \<Rightarrow> endpoint_results \<Rightarrow> endpoint_results \<Rightarrow> endpoint_results \<Rightarrow> topology_manager" where
  "TopologyManager_new host_name process_id rtps nodes channels services =
     snd (TopologyManager_Init host_name process_id rtps nodes channels services
       \<lparr>tm_init = False, tm_node_manager = None, tm_channel_manager = None, tm_service_manager = None,
        tm_participant = None, tm_participant_running = False, tm_listener = False,
        tm_slots = [], tm_notified = [], tm_participant_names = []\<rparr>)"

definition TopologyManager_Shutdown :: "topology_manager \<Rightarrow> topology_manager" where
  "TopologyManager_Shutdown tm =
     (if \<not> tm_init tm then tm
      else tm\<lparr>tm_init := False,
              tm_node_manager := map_option Manager_Shutdown (tm_node_manager tm),
              tm_channel_manager := map_option Manager_Shutdown (tm_channel_manager tm),
              tm_service_manager := map_option Manager_Shutdown (tm_service_manager tm),
              tm_participant_running := False, tm_listener := False, tm_slots := []\<rparr>)"

abbreviation TopologyManager_AddChangeListener :: "nat \<Rightarrow> topology_manager \<Rightarrow> topology_manager" where
  "TopologyManager_AddChangeListener slot tm \<equiv> tm\<lparr>tm_slots := tm_slots tm @ [slot]\<rparr>"

abbreviation TopologyManager_RemoveChangeListener :: "nat \<Rightarrow> topology_manager \<Rightarrow> topology_manager" where
  "TopologyManager_RemoveChangeListener slot tm \<equiv> tm\<lparr>tm_slots := filter (\<lambda>s. s \<noteq> slot) (tm_slots tm)\<rparr>"

section \<open>Participants come and go\<close>

definition TopologyManager_Convert ::
  "u64 \<Rightarrow> part_info \<Rightarrow> topology_manager \<Rightarrow> change_msg option \<times> topology_manager" where
  "TopologyManager_Convert now info tm =
     (let guid = pi_guid info;
          (name, opt_type, tm) =
            (case pi_status info of
               DISCOVERED_RTPSPARTICIPANT \<Rightarrow>
                 (pi_name info, OPT_JOIN,
                  tm\<lparr>tm_participant_names := AList.update guid (pi_name info) (tm_participant_names tm)\<rparr>)
             | CHANGED_QOS_RTPSPARTICIPANT \<Rightarrow> ([], OPT_JOIN, tm)
             | _ \<Rightarrow>
                 (case map_of (tm_participant_names tm) guid of
                    Some name \<Rightarrow>
                      (name, OPT_LEAVE,
                       tm\<lparr>tm_participant_names := AList.delete guid (tm_participant_names tm)\<rparr>)
                  | None \<Rightarrow> ([], OPT_LEAVE, tm)))
      in case ParseParticipantName name of
           None \<Rightarrow> (None, tm)
         | Some (host_name, process_id) \<Rightarrow>
             (Some \<lparr>cm_timestamp = now, cm_change_type = CHANGE_PARTICIPANT, cm_operate_type = opt_type,
                    cm_role_type = ROLE_PARTICIPANT,
                    cm_role_attr = process_attributes host_name process_id\<rparr>, tm))"

definition TopologyManager_OnParticipantChange ::
  "u64 \<Rightarrow> (nat \<Rightarrow> u64) \<Rightarrow> (nat \<Rightarrow> u64) \<Rightarrow> (nat \<Rightarrow> u64) \<Rightarrow> part_info \<Rightarrow> topology_manager \<Rightarrow> topology_manager" where
  "TopologyManager_OnParticipantChange now nodes_clock channels_clock services_clock info tm =
     (case TopologyManager_Convert now info tm of
        (None, tm) \<Rightarrow> tm
      | (Some msg, tm) \<Rightarrow>
          if \<not> tm_init tm then tm
          else
            let host_name = str (ra_host_name (cm_role_attr msg));
                process_id = num (ra_process_id (cm_role_attr msg));
                tm = (if cm_operate_type msg = OPT_LEAVE
                      then tm\<lparr>tm_node_manager :=
                                map_option (NodeManager_OnTopoModuleLeave nodes_clock host_name process_id)
                                  (tm_node_manager tm),
                              tm_channel_manager :=
                                map_option (ChannelManager_OnTopoModuleLeave channels_clock host_name process_id)
                                  (tm_channel_manager tm),
                              tm_service_manager :=
                                map_option (ServiceManager_OnTopoModuleLeave services_clock host_name process_id)
                                  (tm_service_manager tm)\<rparr>
                      else tm)
            in tm\<lparr>tm_notified := tm_notified tm @ map (\<lambda>slot. (slot, msg)) (tm_slots tm)\<rparr>)"

section \<open>Names are parsed back\<close>

lemma ParseParticipantName_name:
  assumes "CHR ''+'' \<notin> set host" and "- 2147483648 \<le> pid" and "pid \<le> 2147483647"
  shows "ParseParticipantName (participant_name host pid) = Some (host, pid)"
proof -
  have "takeWhile (\<lambda>c. c \<noteq> CHR ''+'') (host @ CHR ''+'' # to_string pid) = host"
    by (rule takeWhile_until [OF assms(1)])
  then show ?thesis
    using stoi_to_string [OF assms(2,3)] by (simp add: ParseParticipantName_def participant_name_def)
qed

text \<open>
  The name a topology manager gives to its participant is parsed back, by the managers of the
  other processes, to the host name and the process id it was built from, whenever the host name
  has no plus sign.
\<close>

lemma participant_name_roundtrip:
  assumes "CHR ''+'' \<notin> set host" and "- 2147483648 \<le> pid" and "pid \<le> 2147483647"
  shows "\<exists>name. tm_participant (TopologyManager_CreateParticipant host pid tm) = Some name
           \<and> ParseParticipantName name = Some (host, pid)"
  using ParseParticipantName_name [OF assms] by (simp add: TopologyManager_CreateParticipant_def)

section \<open>Every table forgets a removed process\<close>

definition of_process :: "string \<Rightarrow> int \<Rightarrow> role \<Rightarrow> bool" where
  "of_process host pid x \<longleftrightarrow>
     str (ra_host_name (role_attrs x)) = host \<and> num (ra_process_id (role_attrs x)) = pid"

definition has_process :: "role_attributes \<Rightarrow> bool" where
  "has_process attr \<longleftrightarrow> ra_host_name attr \<noteq> None \<and> ra_process_id attr \<noteq> None"

definition service_key :: "role \<Rightarrow> u64" where
  "service_key x = num (ra_service_id (role_attrs x))"

text \<open>A table with at most one role per key, each under its own key.\<close>

definition table_ok :: "(role \<Rightarrow> u64) \<Rightarrow> warehouse_map \<Rightarrow> bool" where
  "table_ok key w \<longleftrightarrow> distinct (map fst w) \<and> (\<forall>(k, x) \<in> set w. k = key x)"

lemma table_ok_update: "table_ok key w \<Longrightarrow> k = key x \<Longrightarrow> table_ok key (AList.update k x w)"
  by (auto simp: table_ok_def distinct_update set_update_distinct)

lemma table_ok_delete: "table_ok key w \<Longrightarrow> table_ok key (AList.delete k w)"
  by (auto simp: table_ok_def distinct_delete set_delete_distinct)

lemma set_fold_delete:
  "set (fold (\<lambda>x w. AList.delete (key x) w) rs w) = {(k, x) \<in> set w. k \<notin> key ` set rs}"
  by (induction rs arbitrary: w) (auto simp: set_delete_distinct)

lemma table_remove_process:
  assumes "table_ok key w"
  shows "set (fold (\<lambda>x w. AList.delete (key x) w)
           (snd (SingleValueWarehouse_Search_target_roles w (process_attributes host pid) False [])) w)
         = {(k, x) \<in> set w. \<not> of_process host pid x}"
proof -
  have w: "distinct (map fst w)" "\<And>k x. (k, x) \<in> set w \<Longrightarrow> k = key x"
    using assms by (auto simp: table_ok_def)
  have "k \<in> key ` {y. \<exists>j. (j, y) \<in> set w \<and> Match y (process_attributes host pid)} \<longleftrightarrow> of_process host pid x"
    if x: "(k, x) \<in> set w" for k x
  proof
    assume "k \<in> key ` {y. \<exists>j. (j, y) \<in> set w \<and> Match y (process_attributes host pid)}"
    then obtain y j where y: "k = key y" "(j, y) \<in> set w" "Match y (process_attributes host pid)" by blast
    then have "(k, y) \<in> set w" using w(2) by blast
    then have "x = y" using x w(1) by (meson eq_key_imp_eq_value)
    then show "of_process host pid x" using y(3) by (simp add: Match_process of_process_def)
  next
    assume "of_process host pid x"
    then show "k \<in> key ` {y. \<exists>j. (j, y) \<in> set w \<and> Match y (process_attributes host pid)}"
      using x w(2) [OF x] by (auto simp: Match_process of_process_def)
  qed
  then show ?thesis
    unfolding set_fold_delete single.search_target_iff [OF w(1)] by auto
qed

text \<open>The tables of nodes and services after any messages.\<close>

lemma nm_nodes_Notify [simp]:
  "nm_nodes (Manager_Notify msg nm) = nm_nodes nm"
  "nm_nodes (notify_leaves role_ty clock t rs nm) = nm_nodes nm"
  by (simp add: Manager_Notify_def)
    (induction role_ty clock t rs nm rule: notify_leaves.induct, simp_all add: Manager_Notify_def)

lemma sm_tables_Notify [simp]:
  "sm_servers (Manager_Notify msg sm) = sm_servers sm" "sm_clients (Manager_Notify msg sm) = sm_clients sm"
  by (simp_all add: Manager_Notify_def)

lemma sm_tables_notify_leaves [simp]:
  "sm_servers (notify_leaves role_ty clock t rs sm) = sm_servers sm"
  "sm_clients (notify_leaves role_ty clock t rs sm) = sm_clients sm"
  by (induction role_ty clock t rs sm rule: notify_leaves.induct) simp_all

lemma nodes_table_ok: "table_ok node_key (nm_nodes (fold NodeManager_Dispose msgs (NodeManager_new h p)))"
proof -
  have "table_ok node_key (nm_nodes (NodeManager_Dispose msg nm))" if "table_ok node_key (nm_nodes nm)" for msg nm
  proof -
    have key: "msg_node msg = node_key (RoleNode msg)"
      by (simp add: msg_node_def node_key_def role_attrs_RoleNode)
    have "table_ok node_key (nm_nodes (NodeManager_DisposeJoin msg nm))"
      using that table_ok_update [OF that key] by (auto simp: NodeManager_DisposeJoin_cases split: option.split)
    moreover have "table_ok node_key (nm_nodes (NodeManager_DisposeLeave msg nm))"
      using table_ok_delete [OF that]
      by (simp add: NodeManager_DisposeLeave_def Let_def SingleValueWarehouse_Remove_def)
    ultimately show ?thesis by (simp add: NodeManager_Dispose_def)
  qed
  then have "table_ok node_key (nm_nodes nm) \<Longrightarrow> table_ok node_key (nm_nodes (fold NodeManager_Dispose msgs nm))"
    for nm by (induction msgs arbitrary: nm) simp_all
  moreover have "table_ok node_key (nm_nodes (NodeManager_new h p))"
    by (simp add: NodeManager_new_def manager.extend_def node_manager.fields_def table_ok_def)
  ultimately show ?thesis .
qed

definition services_ok :: "service_manager \<Rightarrow> bool" where
  "services_ok sm \<longleftrightarrow> table_ok service_key (sm_servers sm)
     \<and> (\<forall>(k, x) \<in> set (sm_clients sm). k = service_key x \<and> has_process (role_attrs x))"

lemma services_table_ok:
  assumes "\<forall>msg \<in> set msgs. has_process (cm_role_attr msg)"
  shows "services_ok (fold ServiceManager_Dispose msgs (ServiceManager_new h p))"
proof -
  have "services_ok (ServiceManager_Dispose msg sm)" if "services_ok sm" "has_process (cm_role_attr msg)" for msg sm
  proof -
    let ?r = "RoleService (cm_role_attr msg)"
    have r: "num (ra_service_id (role_attrs ?r)) = service_key ?r" "has_process (role_attrs ?r)"
      using that(2) by (simp_all add: RoleService_def service_key_def)
    have "services_ok (ServiceManager_DisposeJoin msg sm)"
      using that(1) table_ok_update [of service_key "sm_servers sm", OF _ refl] r(2)
      by (simp add: services_ok_def ServiceManager_DisposeJoin_def Let_def SingleValueWarehouse_Add_def
          MultiValueWarehouse_Add_def r(1))
    moreover have "services_ok (ServiceManager_DisposeLeave msg sm)"
      using that(1) table_ok_delete [of service_key "sm_servers sm"]
      by (auto simp: services_ok_def ServiceManager_DisposeLeave_def Let_def SingleValueWarehouse_Remove_def
          MultiValueWarehouse_Remove_role_filter)
    ultimately show ?thesis
      by (simp add: ServiceManager_Dispose_def services_ok_def)
  qed
  then have "services_ok sm \<Longrightarrow> services_ok (fold ServiceManager_Dispose msgs sm)" for sm
    using assms by (induction msgs arbitrary: sm) simp_all
  moreover have "services_ok (ServiceManager_new h p)"
    by (simp add: ServiceManager_new_def manager.extend_def service_manager.fields_def services_ok_def table_ok_def)
  ultimately show ?thesis .
qed

text \<open>Each manager forgets the process.\<close>

lemma NodeManager_leave:
  assumes "table_ok node_key (nm_nodes nm)" and "mg_is_discovery_started nm"
  shows "set (nm_nodes (NodeManager_OnTopoModuleLeave clock host pid nm))
         = {(k, x) \<in> set (nm_nodes nm). \<not> of_process host pid x}"
  using table_remove_process [OF assms(1), of host pid] assms(2)
  by (simp add: NodeManager_OnTopoModuleLeave_def Let_def SingleValueWarehouse_Remove_def
      node_key_def [symmetric])

lemma ServiceManager_leave:
  assumes "services_ok sm" and "mg_is_discovery_started sm"
  shows "set (sm_servers (ServiceManager_OnTopoModuleLeave clock host pid sm))
         = {(k, x) \<in> set (sm_servers sm). \<not> of_process host pid x}"
    and "set (sm_clients (ServiceManager_OnTopoModuleLeave clock host pid sm))
         = {(k, x) \<in> set (sm_clients sm). \<not> of_process host pid x}"
proof -
  have servers: "table_ok service_key (sm_servers sm)" using assms(1) by (simp add: services_ok_def)
  show "set (sm_servers (ServiceManager_OnTopoModuleLeave clock host pid sm))
         = {(k, x) \<in> set (sm_servers sm). \<not> of_process host pid x}"
    using table_remove_process [OF servers, of host pid] assms(2)
    by (simp add: ServiceManager_OnTopoModuleLeave_def Let_def SingleValueWarehouse_Remove_def
        service_key_def [symmetric])
  have "set (fold (\<lambda>r w. MultiValueWarehouse_Remove_role w (service_key r) r)
      (snd (MultiValueWarehouse_Search_target_roles (sm_clients sm) (process_attributes host pid) False []))
      (sm_clients sm)) = {(k, x) \<in> set (sm_clients sm). \<not> Match x (process_attributes host pid)}"
    using multi.remove_process [OF TrueI _ _ refl, of service_key "sm_clients sm" host pid] assms(1)
    by (auto simp: multi.remove_all_def multi.keyed_def services_ok_def has_process_def)
  then show "set (sm_clients (ServiceManager_OnTopoModuleLeave clock host pid sm))
         = {(k, x) \<in> set (sm_clients sm). \<not> of_process host pid x}"
    using assms(2)
    by (simp add: ServiceManager_OnTopoModuleLeave_def Let_def service_key_def Match_process of_process_def)
qed

lemma ChannelManager_leave:
  assumes "\<forall>msg \<in> set msgs. complete (cm_role_attr msg)"
    and "chm = (fold ChannelManager_Dispose msgs (ChannelManager_new h p))\<lparr>mg_is_discovery_started := True\<rparr>"
    and "chm' = ChannelManager_OnTopoModuleLeave clock host pid chm"
    and "table \<in> {chm_node_writers, chm_node_readers, chm_channel_writers, chm_channel_readers}"
  shows "snd ` set (table chm') = {x \<in> snd ` set (table chm). \<not> of_process host pid x}"
proof -
  have before: "tables_ok (joined True msgs) (joined False msgs) chm"
    using tables_ok_run [OF tables_ok_new assms(1), of h p] by (simp add: joined_def assms(2))
  note after = tables_ok_process_leave [OF assms(1) refl assms(3) [unfolded assms(2)]]
  show ?thesis
    using assms(4) before after by (auto simp: tables_ok_def filed_def image_image Match_process of_process_def)
qed

text \<open>The roles a topology manager knows of, in any table of its managers.\<close>

definition known_roles :: "topology_manager \<Rightarrow> role set" where
  "known_roles tm =
     (case tm_node_manager tm of None \<Rightarrow> {} | Some nm \<Rightarrow> snd ` set (nm_nodes nm))
     \<union> (case tm_channel_manager tm of
          None \<Rightarrow> {}
        | Some chm \<Rightarrow>
            snd ` set (chm_node_writers chm) \<union> snd ` set (chm_node_readers chm)
            \<union> snd ` set (chm_channel_writers chm) \<union> snd ` set (chm_channel_readers chm))
     \<union> (case tm_service_manager tm of
          None \<Rightarrow> {} | Some sm \<Rightarrow> snd ` set (sm_servers sm) \<union> snd ` set (sm_clients sm))"

text \<open>
  C11: When the RTPS layer reports that a participant is gone whose name was recorded when it was
  discovered, the node, channel and service managers together forget exactly the nodes, readers,
  writers, servers and clients of that host and process id, whatever messages they have seen, and
  the participant is no longer recorded.
\<close>

theorem TopologyManager_process_removed:
  assumes "\<forall>msg \<in> set cmsgs. complete (cm_role_attr msg)"
    and "\<forall>msg \<in> set smsgs. has_process (cm_role_attr msg)"
    and "tm_init tm"
    and "tm_node_manager tm =
      Some ((fold NodeManager_Dispose nmsgs (NodeManager_new h p))\<lparr>mg_is_discovery_started := True\<rparr>)"
    and "tm_channel_manager tm =
      Some ((fold ChannelManager_Dispose cmsgs (ChannelManager_new h p))\<lparr>mg_is_discovery_started := True\<rparr>)"
    and "tm_service_manager tm =
      Some ((fold ServiceManager_Dispose smsgs (ServiceManager_new h p))\<lparr>mg_is_discovery_started := True\<rparr>)"
    and "pi_status info = REMOVED_RTPSPARTICIPANT \<or> pi_status info = DROPPED_RTPSPARTICIPANT"
    and "map_of (tm_participant_names tm) (pi_guid info) = Some (participant_name host pid)"
    and "CHR ''+'' \<notin> set host" and "- 2147483648 \<le> pid" and "pid \<le> 2147483647"
    and "tm' = TopologyManager_OnParticipantChange now c1 c2 c3 info tm"
  shows "known_roles tm' = {x \<in> known_roles tm. \<not> of_process host pid x}
         \<and> map_of (tm_participant_names tm') (pi_guid info) = None"
proof -
  let ?nm = "(fold NodeManager_Dispose nmsgs (NodeManager_new h p))\<lparr>mg_is_discovery_started := True\<rparr>"
  let ?chm = "(fold ChannelManager_Dispose cmsgs (ChannelManager_new h p))\<lparr>mg_is_discovery_started := True\<rparr>"
  let ?sm = "(fold ServiceManager_Dispose smsgs (ServiceManager_new h p))\<lparr>mg_is_discovery_started := True\<rparr>"
  have attrs: "str (ra_host_name (process_attributes host pid)) = host"
    "num (ra_process_id (process_attributes host pid)) = pid"
    by (simp_all add: process_attributes_def)
  have tm': "tm_node_manager tm' = Some (NodeManager_OnTopoModuleLeave c1 host pid ?nm)"
    "tm_channel_manager tm' = Some (ChannelManager_OnTopoModuleLeave c2 host pid ?chm)"
    "tm_service_manager tm' = Some (ServiceManager_OnTopoModuleLeave c3 host pid ?sm)"
    "tm_participant_names tm' = AList.delete (pi_guid info) (tm_participant_names tm)"
    using assms(7) assms(3-6,8) ParseParticipantName_name [OF assms(9-11)] attrs
    unfolding assms(12) TopologyManager_OnParticipantChange_def TopologyManager_Convert_def Let_def
    by (elim disjE; simp)+
  have nodes: "snd ` set (nm_nodes (NodeManager_OnTopoModuleLeave c1 host pid ?nm))
      = {x \<in> snd ` set (nm_nodes ?nm). \<not> of_process host pid x}"
    using NodeManager_leave [of ?nm c1 host pid] nodes_table_ok [of nmsgs h p] by force
  have "services_ok ?sm" using services_table_ok [OF assms(2), of h p] by (simp add: services_ok_def)
  note services = ServiceManager_leave [OF this, of c3 host pid]
  have servers: "snd ` set (sm_servers (ServiceManager_OnTopoModuleLeave c3 host pid ?sm))
      = {x \<in> snd ` set (sm_servers ?sm). \<not> of_process host pid x}"
    using services(1) by force
  have clients: "snd ` set (sm_clients (ServiceManager_OnTopoModuleLeave c3 host pid ?sm))
      = {x \<in> snd ` set (sm_clients ?sm). \<not> of_process host pid x}"
    using services(2) by force
  note channels = ChannelManager_leave [OF assms(1) refl refl, of _ c2 host pid h p]
  have "known_roles tm' = {x \<in> known_roles tm. \<not> of_process host pid x}"
    unfolding known_roles_def tm' assms(4-6) option.case nodes servers clients
    by (subst (1 2 3 4) channels) blast+
  moreover have "map_of (tm_participant_names tm') (pi_guid info) = None"
    unfolding tm' by (simp add: delete_conv)
  ultimately show ?thesis ..
qed

definition sample_topology :: topology_manager where
  "sample_topology =
     \<lparr>tm_init = True,
      tm_node_manager =
        Some ((fold NodeManager_Dispose [sample_node 5] (NodeManager_new ''b'' 9))\<lparr>mg_is_discovery_started := True\<rparr>),
      tm_channel_manager =
        Some ((fold ChannelManager_Dispose [] (ChannelManager_new ''b'' 9))\<lparr>mg_is_discovery_started := True\<rparr>),
      tm_service_manager =
        Some ((fold ServiceManager_Dispose [] (ServiceManager_new ''b'' 9))\<lparr>mg_is_discovery_started := True\<rparr>),
      tm_participant = Some ''b+9'', tm_participant_running = True, tm_listener = True, tm_slots = [],
      tm_notified = [], tm_participant_names = [(4, participant_name ''h'' 1)]\<rparr>"

theorem TopologyManager_process_removed_witness:
  "known_roles sample_topology = {RoleNode (sample_node 5)}
   \<and> known_roles (TopologyManager_OnParticipantChange 0 (\<lambda>t. 0) (\<lambda>t. 0) (\<lambda>t. 0)
       \<lparr>pi_guid = 4, pi_status = REMOVED_RTPSPARTICIPANT, pi_name = []\<rparr> sample_topology) = {}"
proof -
  have "nm_nodes (NodeManager_Dispose (sample_node 5) (NodeManager_new ''b'' 9)) = [(1, RoleNode (sample_node 5))]"
    by code_simp
  then have before: "known_roles sample_topology = {RoleNode (sample_node 5)}"
    by (simp add: known_roles_def sample_topology_def ChannelManager_new_def ServiceManager_new_def
        manager.extend_def channel_manager.fields_def service_manager.fields_def)
  have "of_process ''h'' 1 (RoleNode (sample_node 5))"
    by (simp add: of_process_def role_attrs_RoleNode sample_node_def sample_attr_def)
  then show ?thesis
    using TopologyManager_process_removed [of "[]" "[]" sample_topology "[sample_node 5]" "''b''" 9
        "\<lparr>pi_guid = 4, pi_status = REMOVED_RTPSPARTICIPANT, pi_name = []\<rparr>" "''h''" 1,
        OF _ _ _ _ _ _ _ _ _ _ _ refl] before
    by (auto simp: sample_topology_def)
qed

end
