(* ===== verification/Croutine.thy ===== *)
theory Croutine
  imports Prelude
begin

text \<open>
  Coroutines (\<open>cyber/croutine/croutine.h\<close>, \<open>croutine.cc\<close>) and the routine that processes the
  messages of a channel (\<open>routine_factory.h\<close>).  Switching the stack is not modelled: what a routine
  does between being resumed and yielding is an argument.

  A routine waits for data in the state \<open>DATA_WAIT\<close>.  A writer first stores its message and then
  calls \<open>NotifyProcessor\<close>, which reads the state of the routine and, if it is \<open>DATA_WAIT\<close>, clears the
  atomic flag \<open>updated_\<close>; the scheduler sees the cleared flag in \<open>UpdateState\<close>.  These steps happen
  without a common lock.  The theory shows that no wake-up is lost in any interleaving, because the
  routine enters \<open>DATA_WAIT\<close> before it looks for a message.
\<close>

section \<open>Coroutines\<close>

datatype routine_state = READY | FINISHED | SLEEP | IO_WAIT | DATA_WAIT

record croutine =
  cr_name :: string
  cr_wake_time :: int
  cr_state :: routine_state
  cr_lock :: bool
  cr_updated :: bool
  cr_force_stop :: bool
  cr_processor_id :: int
  cr_priority :: nat
  cr_id :: u64
  cr_group_name :: string

definition CRoutine_new :: "int \<Rightarrow> croutine" where
  "CRoutine_new now =
     \<lparr>cr_name = [], cr_wake_time = now, cr_state = READY, cr_lock = False, cr_updated = True,
      cr_force_stop = False, cr_processor_id = -1, cr_priority = 0, cr_id = 0, cr_group_name = []\<rparr>"

definition CRoutine_Yield :: "routine_state \<Rightarrow> croutine \<Rightarrow> croutine" where
  "CRoutine_Yield state r = r\<lparr>cr_state := state\<rparr>"

abbreviation CRoutine_HangUp :: "croutine \<Rightarrow> croutine" where
  "CRoutine_HangUp r \<equiv> CRoutine_Yield DATA_WAIT r"

abbreviation CRoutine_Sleep :: "int \<Rightarrow> int \<Rightarrow> croutine \<Rightarrow> croutine" where
  "CRoutine_Sleep now sleep_duration r \<equiv> CRoutine_Yield SLEEP (r\<lparr>cr_wake_time := now + sleep_duration\<rparr>)"

abbreviation CRoutine_Wake :: "croutine \<Rightarrow> croutine" where
  "CRoutine_Wake r \<equiv> r\<lparr>cr_state := READY\<rparr>"

definition CRoutine_Stop :: "croutine \<Rightarrow> croutine" where
  "CRoutine_Stop r = r\<lparr>cr_force_stop := True\<rparr>"

definition CRoutine_Acquire :: "croutine \<Rightarrow> bool \<times> croutine" where
  "CRoutine_Acquire r = (\<not> cr_lock r, r\<lparr>cr_lock := True\<rparr>)"

definition CRoutine_Release :: "croutine \<Rightarrow> croutine" where
  "CRoutine_Release r = r\<lparr>cr_lock := False\<rparr>"

definition CRoutine_SetUpdateFlag :: "croutine \<Rightarrow> croutine" where
  "CRoutine_SetUpdateFlag r = r\<lparr>cr_updated := False\<rparr>"

definition CRoutine_UpdateState :: "int \<Rightarrow> croutine \<Rightarrow> routine_state \<times> croutine" where
  "CRoutine_UpdateState now r =
     (if cr_state r = SLEEP \<and> cr_wake_time r < now
      then (READY, r\<lparr>cr_state := READY\<rparr>)
      else
        let r = (if \<not> cr_updated r
                 then (if cr_state r = DATA_WAIT \<or> cr_state r = IO_WAIT
                       then r\<lparr>cr_updated := True, cr_state := READY\<rparr>
                       else r\<lparr>cr_updated := True\<rparr>)
                 else r)
        in (cr_state r, r))"

text \<open>The argument \<open>run\<close> is the part of the routine's function up to its next \<open>Yield\<close>.\<close>

definition CRoutine_Resume :: "(croutine \<Rightarrow> croutine) \<Rightarrow> croutine \<Rightarrow> routine_state \<times> croutine" where
  "CRoutine_Resume run r =
     (if cr_force_stop r then (FINISHED, r\<lparr>cr_state := FINISHED\<rparr>)
      else if cr_state r \<noteq> READY then (cr_state r, r)
      else let r = run r in (cr_state r, r))"

abbreviation CRoutineEntry :: "(croutine \<Rightarrow> croutine) \<Rightarrow> croutine \<Rightarrow> croutine" where
  "CRoutineEntry run r \<equiv> CRoutine_Yield FINISHED (run r)"

lemma UpdateState_fields [simp]:
  "cr_id (snd (CRoutine_UpdateState now r)) = cr_id r"
  "cr_lock (snd (CRoutine_UpdateState now r)) = cr_lock r"
  "cr_priority (snd (CRoutine_UpdateState now r)) = cr_priority r"
  "cr_group_name (snd (CRoutine_UpdateState now r)) = cr_group_name r"
  "cr_processor_id (snd (CRoutine_UpdateState now r)) = cr_processor_id r"
  "cr_wake_time (snd (CRoutine_UpdateState now r)) = cr_wake_time r"
  "cr_force_stop (snd (CRoutine_UpdateState now r)) = cr_force_stop r"
  by (simp_all add: CRoutine_UpdateState_def Let_def)

lemma UpdateState_state [simp]: "cr_state (snd (CRoutine_UpdateState now r)) = fst (CRoutine_UpdateState now r)"
  by (simp add: CRoutine_UpdateState_def Let_def)

lemma UpdateState_READY_iff:
  "fst (CRoutine_UpdateState now r) = READY \<longleftrightarrow>
     cr_state r = READY \<or> (cr_state r = SLEEP \<and> cr_wake_time r < now)
     \<or> (\<not> cr_updated r \<and> (cr_state r = DATA_WAIT \<or> cr_state r = IO_WAIT))"
  by (auto simp: CRoutine_UpdateState_def Let_def)

section \<open>The routine of a channel\<close>

text \<open>
  Where the routine is: suspended, about to set \<open>DATA_WAIT\<close>, about to call \<open>TryFetch\<close>, or in the
  user's function.
\<close>

datatype phase = Suspended | At_set | At_fetch | In_function

text \<open>
  The routine, the number of messages not yet fetched, the number of writers that have stored a
  message and not yet looked at the state of the routine, and the number of writers that saw
  \<open>DATA_WAIT\<close> and have not yet cleared the flag.
\<close>

record channel_routine =
  ch_routine :: croutine
  ch_phase :: phase
  ch_unread :: nat
  ch_stored :: nat
  ch_seen :: nat

definition channel_start :: "int \<Rightarrow> channel_routine" where
  "channel_start now =
     \<lparr>ch_routine = CRoutine_new now, ch_phase = Suspended, ch_unread = 0, ch_stored = 0, ch_seen = 0\<rparr>"

text \<open>The loop of the routine, one atomic action at a time.  \<open>TryFetch\<close> skips to a later message
  when the reader is slow, so it takes any number of messages, but at least one if there is one.\<close>

definition routine_set :: "channel_routine \<Rightarrow> channel_routine" where
  "routine_set s = s\<lparr>ch_routine := (ch_routine s)\<lparr>cr_state := DATA_WAIT\<rparr>, ch_phase := At_fetch\<rparr>"

definition routine_fetch :: "nat \<Rightarrow> channel_routine \<Rightarrow> channel_routine" where
  "routine_fetch n s =
     (if ch_unread s = 0 then s\<lparr>ch_phase := Suspended\<rparr>
      else s\<lparr>ch_unread := ch_unread s - max 1 n, ch_phase := In_function\<rparr>)"

definition routine_yield :: "channel_routine \<Rightarrow> channel_routine" where
  "routine_yield s = s\<lparr>ch_routine := CRoutine_Yield READY (ch_routine s), ch_phase := Suspended\<rparr>"

text \<open>A writer stores a message, reads the state and clears the flag.\<close>

definition writer_store :: "channel_routine \<Rightarrow> channel_routine" where
  "writer_store s = s\<lparr>ch_unread := Suc (ch_unread s), ch_stored := Suc (ch_stored s)\<rparr>"

definition writer_look :: "channel_routine \<Rightarrow> channel_routine" where
  "writer_look s =
     (if cr_state (ch_routine s) = DATA_WAIT
      then s\<lparr>ch_stored := ch_stored s - 1, ch_seen := Suc (ch_seen s)\<rparr>
      else s\<lparr>ch_stored := ch_stored s - 1\<rparr>)"

definition writer_flag :: "channel_routine \<Rightarrow> channel_routine" where
  "writer_flag s = s\<lparr>ch_routine := CRoutine_SetUpdateFlag (ch_routine s), ch_seen := ch_seen s - 1\<rparr>"

text \<open>The scheduler looks at the suspended routine and resumes it if it is ready.\<close>

definition scheduler_visit :: "int \<Rightarrow> channel_routine \<Rightarrow> channel_routine" where
  "scheduler_visit now s =
     (case CRoutine_UpdateState now (ch_routine s) of
        (state, r) \<Rightarrow>
          if state = READY then s\<lparr>ch_routine := r, ch_phase := At_set\<rparr> else s\<lparr>ch_routine := r\<rparr>)"

inductive channel_step :: "channel_routine \<Rightarrow> channel_routine \<Rightarrow> bool" where
  set: "ch_phase s = At_set \<Longrightarrow> channel_step s (routine_set s)"
| fetch: "ch_phase s = At_fetch \<Longrightarrow> channel_step s (routine_fetch n s)"
| yield: "ch_phase s = In_function \<Longrightarrow> channel_step s (routine_yield s)"
| store: "channel_step s (writer_store s)"
| look: "0 < ch_stored s \<Longrightarrow> channel_step s (writer_look s)"
| flag: "0 < ch_seen s \<Longrightarrow> channel_step s (writer_flag s)"
| visit: "ch_phase s = Suspended \<Longrightarrow> channel_step s (scheduler_visit now s)"

text \<open>A waiting routine with an unread message has a writer on the way or a cleared flag.\<close>

definition channel_inv :: "channel_routine \<Rightarrow> bool" where
  "channel_inv s \<longleftrightarrow>
     (ch_phase s = Suspended \<longrightarrow> cr_state (ch_routine s) = READY \<or> cr_state (ch_routine s) = DATA_WAIT)
     \<and> (ch_phase s = At_fetch \<longrightarrow> cr_state (ch_routine s) = DATA_WAIT)
     \<and> (ch_phase s = Suspended \<and> cr_state (ch_routine s) = DATA_WAIT \<and> 0 < ch_unread s
        \<longrightarrow> 0 < ch_stored s \<or> 0 < ch_seen s \<or> \<not> cr_updated (ch_routine s))"

lemma channel_inv_step: "channel_step s t \<Longrightarrow> channel_inv s \<Longrightarrow> channel_inv t"
  by (cases rule: channel_step.cases, assumption)
    (auto simp: channel_inv_def routine_set_def routine_fetch_def routine_yield_def writer_store_def
      writer_look_def writer_flag_def scheduler_visit_def CRoutine_Yield_def CRoutine_SetUpdateFlag_def
      CRoutine_UpdateState_def Let_def split: if_splits)

lemma channel_inv_reachable: "channel_step\<^sup>*\<^sup>* (channel_start now) s \<Longrightarrow> channel_inv s"
proof (induction rule: rtranclp_induct)
  case base
  show ?case by (simp add: channel_inv_def channel_start_def CRoutine_new_def)
next
  case (step y z)
  then show ?case using channel_inv_step by blast
qed

text \<open>
  C3: No wake-up is lost.  In every state that writers, scheduler and routine can reach in any
  interleaving, if a message has not been fetched, all writers have finished notifying and the
  routine is suspended, then the next visit of the scheduler resumes it.
\<close>

theorem no_lost_wakeup:
  assumes "channel_step\<^sup>*\<^sup>* (channel_start t0) s"
    and "0 < ch_unread s" and "ch_stored s = 0" and "ch_seen s = 0" and "ch_phase s = Suspended"
  shows "ch_phase (scheduler_visit now s) = At_set"
  using channel_inv_reachable [OF assms(1)] assms(2-)
  by (auto simp: channel_inv_def scheduler_visit_def CRoutine_UpdateState_def Let_def)

text \<open>A run in which the message arrives after the routine has looked for one.\<close>

definition sample_wait :: "channel_routine" where
  "sample_wait = routine_fetch 0 (routine_set (scheduler_visit 0 (channel_start 0)))"

theorem no_lost_wakeup_witness:
  "ch_phase (scheduler_visit 9 (writer_flag (writer_look (writer_store sample_wait)))) = At_set"
proof (rule no_lost_wakeup)
  show "channel_step\<^sup>*\<^sup>* (channel_start 0) (writer_flag (writer_look (writer_store sample_wait)))"
    unfolding sample_wait_def
    by (rule rtranclp.rtrancl_into_rtrancl, rule rtranclp.rtrancl_into_rtrancl,
        rule rtranclp.rtrancl_into_rtrancl, rule rtranclp.rtrancl_into_rtrancl,
        rule rtranclp.rtrancl_into_rtrancl, rule rtranclp.rtrancl_into_rtrancl, rule rtranclp.rtrancl_refl,
        rule channel_step.visit, code_simp, rule channel_step.set, code_simp, rule channel_step.fetch, code_simp,
        rule channel_step.store, rule channel_step.look, code_simp, rule channel_step.flag, code_simp)
qed code_simp+

end
