(* ===== verification/Scheduler.thy ===== *)
theory Scheduler
  imports Croutine
begin

text \<open>
  The processors of the scheduler and the contexts that tell them what to run
  (\<open>cyber/scheduler/processor.cc\<close>, \<open>processor_context.cc\<close>, \<open>policy/classic_context.cc\<close>,
  \<open>policy/choreography_context.cc\<close>).

  Coroutines are shared objects; they live in a store and the queues hold references.  The queues
  of a group of the classic policy are shared by all its processors.  A processor looks at one
  routine at a time: it tries to acquire the routine's lock and gives up the routine if another
  processor has it.

  The theory shows which routine \<open>NextRoutine\<close> returns, that in no interleaving of processors,
  removals and new tasks two processors run the same routine, and that a notification can be lost
  between an unsuccessful scan and the wait that follows it.
\<close>

type_synonym routine_store = "nat \<Rightarrow> croutine"

section \<open>Classic context\<close>

definition MAX_PRIO :: nat where
  "MAX_PRIO = 20"

record classic_context =
  cc_stop :: bool
  cc_wake_time :: int
  cc_need_sleep :: bool
  cc_group :: string

definition ClassicContext_new :: "string \<Rightarrow> classic_context" where
  "ClassicContext_new group_name =
     \<lparr>cc_stop = False, cc_wake_time = 0, cc_need_sleep = False, cc_group = group_name\<rparr>"

text \<open>One turn of the inner loop of \<open>NextRoutine\<close>: the result tells whether the routine is returned.\<close>

definition ClassicContext_visit ::
  "int \<Rightarrow> nat \<Rightarrow> classic_context \<Rightarrow> routine_store \<Rightarrow> bool \<times> classic_context \<times> routine_store" where
  "ClassicContext_visit now c ctx store =
     (case CRoutine_Acquire (store c) of
        (False, r) \<Rightarrow> (False, ctx, store(c := r))
      | (True, r) \<Rightarrow>
          (case CRoutine_UpdateState now r of
             (state, r) \<Rightarrow>
               if state = READY then (True, ctx, store(c := r))
               else
                 let ctx = (if cr_state r = SLEEP
                               \<and> (\<not> cc_need_sleep ctx \<or> cr_wake_time r < cc_wake_time ctx)
                            then ctx\<lparr>cc_need_sleep := True, cc_wake_time := cr_wake_time r\<rparr>
                            else ctx)
                 in (False, ctx, store(c := CRoutine_Release r))))"

fun scan_queue ::
  "(nat \<Rightarrow> int) \<Rightarrow> nat list \<Rightarrow> classic_context \<Rightarrow> routine_store
    \<Rightarrow> nat option \<times> classic_context \<times> routine_store" where
  "scan_queue clock [] ctx store = (None, ctx, store)"
| "scan_queue clock (c # cs) ctx store =
     (case ClassicContext_visit (clock c) c ctx store of
        (True, ctx, store) \<Rightarrow> (Some c, ctx, store)
      | (False, ctx, store) \<Rightarrow> scan_queue clock cs ctx store)"

fun scan_queues ::
  "(nat \<Rightarrow> int) \<Rightarrow> nat list list \<Rightarrow> classic_context \<Rightarrow> routine_store
    \<Rightarrow> nat option \<times> classic_context \<times> routine_store" where
  "scan_queues clock [] ctx store = (None, ctx, store)"
| "scan_queues clock (q # qs) ctx store =
     (case scan_queue clock q ctx store of
        (Some c, ctx, store) \<Rightarrow> (Some c, ctx, store)
      | (None, ctx, store) \<Rightarrow> scan_queues clock qs ctx store)"

text \<open>
  The clock is read when a routine is looked at: its reading is a function of the routine.  The
  queues are indexed by priority; the loop starts at the highest.
\<close>

definition ClassicContext_NextRoutine ::
  "(nat \<Rightarrow> int) \<Rightarrow> nat list list \<Rightarrow> classic_context \<Rightarrow> routine_store
    \<Rightarrow> nat option \<times> classic_context \<times> routine_store" where
  "ClassicContext_NextRoutine clock multi_pri_rq ctx store =
     (if cc_stop ctx then (None, ctx, store) else scan_queues clock (rev multi_pri_rq) ctx store)"

datatype wait_kind = No_wait | Wait_for int | Wait_forever

definition ClassicContext_Wait :: "int \<Rightarrow> classic_context \<Rightarrow> wait_kind \<times> classic_context" where
  "ClassicContext_Wait now ctx =
     (if cc_stop ctx then (No_wait, ctx)
      else if cc_need_sleep ctx then (Wait_for (cc_wake_time ctx - now), ctx\<lparr>cc_need_sleep := False\<rparr>)
      else (Wait_forever, ctx))"

definition ClassicContext_Shutdown :: "classic_context \<Rightarrow> classic_context" where
  "ClassicContext_Shutdown ctx = (if \<not> cc_stop ctx then ctx\<lparr>cc_stop := True\<rparr> else ctx)"

section \<open>Choreography context\<close>

text \<open>The queue is a multimap from priorities, highest first, with equal keys in order of insertion.\<close>

record choreography_context =
  xc_stop :: bool
  xc_notified :: bool
  xc_cr_queue :: "(nat \<times> nat) list"

definition ChoreographyContext_new :: choreography_context where
  "ChoreographyContext_new = \<lparr>xc_stop = False, xc_notified = False, xc_cr_queue = []\<rparr>"

abbreviation ProcessorContext_Shutdown :: "choreography_context \<Rightarrow> choreography_context" where
  "ProcessorContext_Shutdown ctx \<equiv> (if \<not> xc_stop ctx then ctx\<lparr>xc_stop := True\<rparr> else ctx)"

fun scan_choreography ::
  "(nat \<Rightarrow> int) \<Rightarrow> (nat \<times> nat) list \<Rightarrow> routine_store \<Rightarrow> nat option \<times> routine_store" where
  "scan_choreography clock [] store = (None, store)"
| "scan_choreography clock ((prio, c) # rest) store =
     (case CRoutine_Acquire (store c) of
        (False, r) \<Rightarrow> scan_choreography clock rest (store(c := r))
      | (True, r) \<Rightarrow>
          (case CRoutine_UpdateState (clock c) r of
             (state, r) \<Rightarrow>
               if state = READY then (Some c, store(c := r))
               else scan_choreography clock rest (store(c := CRoutine_Release r))))"

definition ChoreographyContext_NextRoutine ::
  "(nat \<Rightarrow> int) \<Rightarrow> choreography_context \<Rightarrow> routine_store
    \<Rightarrow> nat option \<times> choreography_context \<times> routine_store" where
  "ChoreographyContext_NextRoutine clock ctx store =
     (if xc_stop ctx then (None, ctx, store)
      else
        case scan_choreography clock (xc_cr_queue ctx) store of
          (Some c, store) \<Rightarrow> (Some c, ctx, store)
        | (None, store) \<Rightarrow> (None, ctx\<lparr>xc_notified := False\<rparr>, store))"

definition ChoreographyContext_Enqueue ::
  "routine_store \<Rightarrow> nat \<Rightarrow> choreography_context \<Rightarrow> choreography_context" where
  "ChoreographyContext_Enqueue store c ctx =
     (let prio = cr_priority (store c); before = (\<lambda>(q, x). prio \<le> q)
      in ctx\<lparr>xc_cr_queue :=
               takeWhile before (xc_cr_queue ctx) @ (prio, c) # dropWhile before (xc_cr_queue ctx)\<rparr>)"

text \<open>The result tells whether the condition variable is signalled.\<close>

definition ChoreographyContext_Notify :: "choreography_context \<Rightarrow> bool \<times> choreography_context" where
  "ChoreographyContext_Notify ctx =
     (if \<not> xc_notified ctx then (True, ctx\<lparr>xc_notified := True\<rparr>) else (False, ctx))"

abbreviation ChoreographyContext_Wait :: "choreography_context \<Rightarrow> wait_kind \<times> choreography_context" where
  "ChoreographyContext_Wait ctx \<equiv> (Wait_for 1000000, ctx)"

fun remove_choreography ::
  "u64 \<Rightarrow> (nat \<times> nat) list \<Rightarrow> routine_store \<Rightarrow> (nat \<times> nat) list \<times> routine_store" where
  "remove_choreography crid [] store = ([], store)"
| "remove_choreography crid ((prio, c) # rest) store =
     (if cr_id (store c) = crid
      then (rest, store(c := CRoutine_Release (CRoutine_Stop (store c))))
      else case remove_choreography crid rest store of (q, store) \<Rightarrow> ((prio, c) # q, store))"

definition ChoreographyContext_RemoveCRoutine ::
  "u64 \<Rightarrow> choreography_context \<Rightarrow> routine_store \<Rightarrow> choreography_context \<times> routine_store" where
  "ChoreographyContext_RemoveCRoutine crid ctx store =
     (case remove_choreography crid (xc_cr_queue ctx) store of
        (q, store) \<Rightarrow> (ctx\<lparr>xc_cr_queue := q\<rparr>, store))"

section \<open>Processor\<close>

datatype sched_policy = SCHED_FIFO | SCHED_RR | SCHED_OTHER

record 'c processor =
  pr_context :: "'c option"
  pr_running :: bool
  pr_thread :: bool
  pr_affinity :: "int list option"
  pr_policy :: "(sched_policy \<times> int) option"

abbreviation Processor_new :: "'c processor" where
  "Processor_new \<equiv>
     \<lparr>pr_context = None, pr_running = True, pr_thread = False, pr_affinity = None, pr_policy = None\<rparr>"

text \<open>The index \<open>cpus[p]\<close> is not checked; reading past the end has no defined result.\<close>

definition Processor_SetSchedAffinity ::
  "int list \<Rightarrow> string \<Rightarrow> nat \<Rightarrow> 'c processor \<Rightarrow> 'c processor option" where
  "Processor_SetSchedAffinity cpus affinity p pr =
     (if cpus = [] then Some pr
      else if affinity = ''range'' then Some (pr\<lparr>pr_affinity := Some cpus\<rparr>)
      else if affinity = ''1to1''
      then (if p < length cpus then Some (pr\<lparr>pr_affinity := Some [cpus ! p]\<rparr>) else None)
      else Some pr)"

definition Processor_SetSchedPolicy :: "string \<Rightarrow> int \<Rightarrow> 'c processor \<Rightarrow> 'c processor" where
  "Processor_SetSchedPolicy spolicy sched_priority pr =
     (if spolicy = ''SCHED_FIFO'' then pr\<lparr>pr_policy := Some (SCHED_FIFO, sched_priority)\<rparr>
      else if spolicy = ''SCHED_RR'' then pr\<lparr>pr_policy := Some (SCHED_RR, sched_priority)\<rparr>
      else if spolicy = ''SCHED_OTHER'' then pr\<lparr>pr_policy := Some (SCHED_OTHER, sched_priority)\<rparr>
      else pr)"

definition Processor_Stop :: "('c \<Rightarrow> 'c) \<Rightarrow> 'c processor \<Rightarrow> 'c processor" where
  "Processor_Stop shutdown pr =
     (if \<not> pr_running pr then pr
      else pr\<lparr>pr_running := False, pr_context := map_option shutdown (pr_context pr), pr_thread := False\<rparr>)"

abbreviation Processor_BindContext :: "'c \<Rightarrow> 'c processor \<Rightarrow> 'c processor" where
  "Processor_BindContext ctx pr \<equiv> pr\<lparr>pr_context := Some ctx, pr_thread := True\<rparr>"

text \<open>One turn of the loop of \<open>Run\<close> without interference, for the classic context.\<close>

definition Processor_Run_turn ::
  "(croutine \<Rightarrow> croutine) \<Rightarrow> (nat \<Rightarrow> int) \<Rightarrow> int \<Rightarrow> nat list list \<Rightarrow> classic_context processor \<Rightarrow> routine_store
    \<Rightarrow> wait_kind \<times> classic_context processor \<times> routine_store" where
  "Processor_Run_turn run clock now rq pr store =
     (case pr_context pr of
        None \<Rightarrow> (Wait_for 10000000, pr, store)
      | Some ctx \<Rightarrow>
          (case ClassicContext_NextRoutine clock rq ctx store of
             (Some c, ctx, store) \<Rightarrow>
               (No_wait, pr\<lparr>pr_context := Some ctx\<rparr>,
                store(c := CRoutine_Release (snd (CRoutine_Resume run (store c)))))
           | (None, ctx, store) \<Rightarrow>
               (case ClassicContext_Wait now ctx of
                  (w, ctx) \<Rightarrow> (w, pr\<lparr>pr_context := Some ctx\<rparr>, store))))"

section \<open>What NextRoutine returns\<close>

text \<open>A routine that a processor may take: nobody has it and \<open>UpdateState\<close> makes it ready.\<close>

definition ready :: "(nat \<Rightarrow> int) \<Rightarrow> routine_store \<Rightarrow> nat \<Rightarrow> bool" where
  "ready clock store c \<longleftrightarrow> \<not> cr_lock (store c) \<and> fst (CRoutine_UpdateState (clock c) (store c)) = READY"

text \<open>The processor wakes up no later than a time.\<close>

definition wakes_by :: "classic_context \<Rightarrow> int \<Rightarrow> bool" where
  "wakes_by ctx t \<longleftrightarrow> cc_need_sleep ctx \<and> cc_wake_time ctx \<le> t"

lemma UpdateState_lock:
  "CRoutine_UpdateState now (r\<lparr>cr_lock := b\<rparr>) =
     (fst (CRoutine_UpdateState now r), (snd (CRoutine_UpdateState now r))\<lparr>cr_lock := b\<rparr>)"
  by (simp add: CRoutine_UpdateState_def Let_def)

lemma UpdateState_SLEEP:
  "cr_state r = SLEEP \<Longrightarrow> fst (CRoutine_UpdateState now r) \<noteq> READY
   \<Longrightarrow> fst (CRoutine_UpdateState now r) = SLEEP"
  by (auto simp: CRoutine_UpdateState_def Let_def split: if_splits)

lemma visit_result:
  assumes "ClassicContext_visit (clock c) c ctx store = (taken, ctx', store')"
  shows "taken \<longleftrightarrow> ready clock store c"
    and "\<And>x. x \<noteq> c \<Longrightarrow> store' x = store x"
    and "cr_lock (store' c) \<longleftrightarrow> cr_lock (store c) \<or> taken"
    and "wakes_by ctx t \<Longrightarrow> wakes_by ctx' t"
    and "\<not> taken \<Longrightarrow> \<not> cr_lock (store c) \<Longrightarrow> cr_state (store c) = SLEEP
         \<Longrightarrow> wakes_by ctx' (cr_wake_time (store c))"
  using assms UpdateState_SLEEP [of "store c" "clock c"]
  by (auto simp: ClassicContext_visit_def CRoutine_Acquire_def CRoutine_Release_def UpdateState_lock Let_def
      ready_def wakes_by_def split: if_splits bool.splits)

lemma scan_queue_result:
  assumes "distinct cs" and "scan_queue clock cs ctx store = (res, ctx', store')"
  shows "res = find (ready clock store) cs \<and> (\<forall>c. cr_lock (store' c) \<longleftrightarrow> cr_lock (store c) \<or> res = Some c)
    \<and> (\<forall>t. wakes_by ctx t \<longrightarrow> wakes_by ctx' t)
    \<and> (res = None \<longrightarrow> (\<forall>c \<in> set cs. \<not> cr_lock (store c) \<longrightarrow> cr_state (store c) = SLEEP
         \<longrightarrow> wakes_by ctx' (cr_wake_time (store c))))"
  using assms
proof (induction cs arbitrary: ctx store)
  case Nil
  then show ?case by simp
next
  case (Cons c cs)
  obtain taken ctx1 store1 where v: "ClassicContext_visit (clock c) c ctx store = (taken, ctx1, store1)"
    by (metis prod_cases3)
  note visit = visit_result [where clock = clock, OF v]
  show ?case
  proof (cases taken)
    case True
    then have "res = Some c" "ctx' = ctx1" "store' = store1"
      using Cons.prems(2) v by auto
    then show ?thesis
      using visit True by (metis find.simps(2) option.distinct(1) option.inject)
  next
    case False
    have rest: "scan_queue clock cs ctx1 store1 = (res, ctx', store')"
      using Cons.prems(2) v False by simp
    have same: "store1 x = store x" if "x \<in> set cs" for x
      using visit(2) [of x] that Cons.prems(1) by auto
    then have "find (ready clock store1) cs = find (ready clock store) cs"
      by (intro find_cong refl) (simp add: ready_def)
    moreover note IH = Cons.IH [OF _ rest]
    moreover have "cr_lock (store1 x) \<longleftrightarrow> cr_lock (store x)" for x
      using visit(2,3) False by metis
    moreover have "wakes_by ctx' (cr_wake_time (store x))"
      if "res = None" "x \<in> set (c # cs)" "\<not> cr_lock (store x)" "cr_state (store x) = SLEEP" for x
      using that visit(5) False IH Cons.prems(1) same by (cases "x = c") auto
    ultimately show ?thesis
      using visit(1,4) False Cons.prems(1) by simp
  qed
qed

lemma scan_queue_append:
  "scan_queue clock (q @ qs) ctx store =
     (case scan_queue clock q ctx store of
        (Some c, ctx, store) \<Rightarrow> (Some c, ctx, store)
      | (None, ctx, store) \<Rightarrow> scan_queue clock qs ctx store)"
  by (induction q arbitrary: ctx store) (simp_all split: prod.split bool.split)

lemma scan_queues_concat: "scan_queues clock qs ctx store = scan_queue clock (concat qs) ctx store"
  by (induction qs arbitrary: ctx store) (simp_all add: scan_queue_append split: prod.split option.split)

text \<open>
  C20: \<open>NextRoutine\<close> of the classic policy returns the first routine in order of priority, and in
  order of arrival among equals, that is ready and not held by another processor.  It holds the lock of
  exactly that routine.  If there is none and a routine sleeps, the processor will wake up no later
  than that routine's wake time.
\<close>

theorem NextRoutine_correct:
  assumes "distinct (concat rq)" and "\<not> cc_stop ctx"
    and "ClassicContext_NextRoutine clock rq ctx store = (res, ctx', store')"
  shows "res = find (ready clock store) (concat (rev rq))
    \<and> (\<forall>c. cr_lock (store' c) \<longleftrightarrow> cr_lock (store c) \<or> res = Some c)
    \<and> (res = None \<longrightarrow> (\<forall>c \<in> set (concat rq). \<not> cr_lock (store c) \<longrightarrow> cr_state (store c) = SLEEP
         \<longrightarrow> wakes_by ctx' (cr_wake_time (store c))))"
proof -
  have "distinct (concat (rev rq))" using assms(1) by (induction rq) auto
  moreover have "scan_queue clock (concat (rev rq)) ctx store = (res, ctx', store')"
    using assms(2,3) by (simp add: ClassicContext_NextRoutine_def scan_queues_concat)
  ultimately show ?thesis
    using scan_queue_result [of "concat (rev rq)" clock ctx store] by simp
qed

definition sample_store :: routine_store where
  "sample_store c =
     (CRoutine_new 0)\<lparr>cr_id := of_nat c, cr_state := (if c = 3 then DATA_WAIT else READY)\<rparr>"

theorem NextRoutine_correct_witness:
  "fst (ClassicContext_NextRoutine (\<lambda>c. 5) [[1], [2], [3]] (ClassicContext_new ''g'') sample_store) = Some 2"
proof -
  obtain res ctx' store' where
    run: "ClassicContext_NextRoutine (\<lambda>c. 5) [[1], [2], [3]] (ClassicContext_new ''g'') sample_store = (res, ctx', store')"
    by (metis prod_cases3)
  have "find (ready (\<lambda>c. 5) sample_store) [3, 2, 1] = Some 2"
    by code_simp
  then show ?thesis
    using NextRoutine_correct [OF _ _ run] run by (simp add: ClassicContext_new_def)
qed

section \<open>Processors of a group, interleaved\<close>

text \<open>
  The processors that share the queues of one group.  A processor that scans a level holds the read
  lock of the level; the rest of the level is still to be looked at.  The write lock that a removal or
  a new task needs is free when no processor scans the level.
\<close>

datatype proc_phase = Idle | Scanning nat "nat list" | Running nat | To_wait | Waiting wait_kind

record machine =
  mc_store :: routine_store
  mc_queues :: "nat list list"
  mc_ctx :: "nat \<Rightarrow> classic_context"
  mc_phase :: "nat \<Rightarrow> proc_phase"
  mc_next :: nat
  mc_signals :: nat

definition machine_start :: "string \<Rightarrow> machine" where
  "machine_start group_name =
     \<lparr>mc_store = (\<lambda>c. CRoutine_new 0), mc_queues = replicate MAX_PRIO [],
      mc_ctx = (\<lambda>p. ClassicContext_new group_name), mc_phase = (\<lambda>p. Idle), mc_next = 0, mc_signals = 0\<rparr>"

definition set_phase :: "nat \<Rightarrow> proc_phase \<Rightarrow> machine \<Rightarrow> machine" where
  "set_phase p ph m = m\<lparr>mc_phase := (mc_phase m)(p := ph)\<rparr>"

definition begin_scan :: "nat \<Rightarrow> machine \<Rightarrow> machine" where
  "begin_scan p m =
     (if cc_stop (mc_ctx m p) then set_phase p To_wait m
      else set_phase p (Scanning (MAX_PRIO - 1) (mc_queues m ! (MAX_PRIO - 1))) m)"

definition next_level :: "nat \<Rightarrow> nat \<Rightarrow> machine \<Rightarrow> machine" where
  "next_level p i m =
     (if i = 0 then set_phase p To_wait m else set_phase p (Scanning (i - 1) (mc_queues m ! (i - 1))) m)"

definition visit_routine :: "int \<Rightarrow> nat \<Rightarrow> nat \<Rightarrow> nat \<Rightarrow> nat list \<Rightarrow> machine \<Rightarrow> machine" where
  "visit_routine now p i c cs m =
     (case ClassicContext_visit now c (mc_ctx m p) (mc_store m) of
        (taken, ctx, store) \<Rightarrow>
          set_phase p (if taken then Running c else Scanning i cs)
            (m\<lparr>mc_ctx := (mc_ctx m)(p := ctx), mc_store := store\<rparr>))"

definition resume_routine :: "(croutine \<Rightarrow> croutine) \<Rightarrow> nat \<Rightarrow> nat \<Rightarrow> machine \<Rightarrow> machine" where
  "resume_routine run p c m =
     set_phase p Idle
       (m\<lparr>mc_store := (mc_store m)(c := CRoutine_Release (snd (CRoutine_Resume run (mc_store m c))))\<rparr>)"

definition begin_wait :: "int \<Rightarrow> nat \<Rightarrow> machine \<Rightarrow> machine" where
  "begin_wait now p m =
     (case ClassicContext_Wait now (mc_ctx m p) of
        (w, ctx) \<Rightarrow>
          set_phase p (if w = No_wait then Idle else Waiting w) (m\<lparr>mc_ctx := (mc_ctx m)(p := ctx)\<rparr>))"

text \<open>A new routine is queued; the notification follows as a step of its own.\<close>

definition add_routine :: "croutine \<Rightarrow> nat \<Rightarrow> machine \<Rightarrow> machine" where
  "add_routine r i m =
     m\<lparr>mc_store := (mc_store m)(mc_next m := r),
       mc_queues := (mc_queues m)[i := mc_queues m ! i @ [mc_next m]],
       mc_next := Suc (mc_next m), mc_signals := Suc (mc_signals m)\<rparr>"

definition remove_routine :: "nat \<Rightarrow> nat \<Rightarrow> machine \<Rightarrow> machine" where
  "remove_routine c i m =
     m\<lparr>mc_store := (mc_store m)(c := CRoutine_Release (CRoutine_Stop (mc_store m c))),
       mc_queues := (mc_queues m)[i := remove1 c (mc_queues m ! i)]\<rparr>"

definition notify_flag :: "nat \<Rightarrow> machine \<Rightarrow> machine" where
  "notify_flag c m =
     (if cr_state (mc_store m c) = DATA_WAIT
      then m\<lparr>mc_store := (mc_store m)(c := CRoutine_SetUpdateFlag (mc_store m c)),
             mc_signals := Suc (mc_signals m)\<rparr>
      else m\<lparr>mc_signals := Suc (mc_signals m)\<rparr>)"

definition scanned :: "machine \<Rightarrow> nat \<Rightarrow> bool" where
  "scanned m i \<longleftrightarrow> (\<exists>p cs. mc_phase m p = Scanning i cs)"

inductive machine_step :: "machine \<Rightarrow> machine \<Rightarrow> bool" where
  begin_scan: "mc_phase m p = Idle \<Longrightarrow> machine_step m (begin_scan p m)"
| visit: "mc_phase m p = Scanning i (c # cs) \<Longrightarrow> machine_step m (visit_routine now p i c cs m)"
| level: "mc_phase m p = Scanning i [] \<Longrightarrow> machine_step m (next_level p i m)"
| resume: "mc_phase m p = Running c \<Longrightarrow> machine_step m (resume_routine run p c m)"
| wait: "mc_phase m p = To_wait \<Longrightarrow> machine_step m (begin_wait now p m)"
| wake: "mc_phase m p = Waiting w \<Longrightarrow> machine_step m (set_phase p Idle m)"
| add: "i < MAX_PRIO \<Longrightarrow> \<not> scanned m i \<Longrightarrow> \<not> cr_lock r \<Longrightarrow> machine_step m (add_routine r i m)"
| remove: "i < MAX_PRIO \<Longrightarrow> \<not> scanned m i \<Longrightarrow> c \<in> set (mc_queues m ! i) \<Longrightarrow> machine_step m (remove_routine c i m)"
| flag: "machine_step m (notify_flag c m)"
| signal_waiting: "0 < mc_signals m \<Longrightarrow> mc_phase m p = Waiting w
    \<Longrightarrow> machine_step m (set_phase p Idle (m\<lparr>mc_signals := mc_signals m - 1\<rparr>))"
| signal_nobody: "0 < mc_signals m \<Longrightarrow> (\<And>p w. mc_phase m p \<noteq> Waiting w)
    \<Longrightarrow> machine_step m (m\<lparr>mc_signals := mc_signals m - 1\<rparr>)"

section \<open>No routine runs on two processors\<close>

definition queued :: "machine \<Rightarrow> nat \<Rightarrow> bool" where
  "queued m c \<longleftrightarrow> (\<exists>i < length (mc_queues m). c \<in> set (mc_queues m ! i))"

definition queues_ok :: "machine \<Rightarrow> bool" where
  "queues_ok m \<longleftrightarrow> length (mc_queues m) = MAX_PRIO
     \<and> (\<forall>i < MAX_PRIO. distinct (mc_queues m ! i) \<and> (\<forall>c \<in> set (mc_queues m ! i). c < mc_next m)
          \<and> (\<forall>j < MAX_PRIO. j \<noteq> i \<longrightarrow> set (mc_queues m ! i) \<inter> set (mc_queues m ! j) = {}))"

definition scans_ok :: "machine \<Rightarrow> bool" where
  "scans_ok m \<longleftrightarrow> (\<forall>p i cs. mc_phase m p = Scanning i cs \<longrightarrow> i < MAX_PRIO \<and> set cs \<subseteq> set (mc_queues m ! i))"

definition runs_ok :: "machine \<Rightarrow> bool" where
  "runs_ok m \<longleftrightarrow> (\<forall>p c. mc_phase m p = Running c \<longrightarrow> c < mc_next m \<and> (queued m c \<longrightarrow> cr_lock (mc_store m c)))
     \<and> (\<forall>p q c. mc_phase m p = Running c \<longrightarrow> mc_phase m q = Running c \<longrightarrow> p = q)"

definition machine_ok :: "machine \<Rightarrow> bool" where
  "machine_ok m \<longleftrightarrow> queues_ok m \<and> scans_ok m \<and> runs_ok m"

lemmas machine_ok_defs = machine_ok_def queues_ok_def scans_ok_def runs_ok_def queued_def

lemma machine_ok_begin_scan: "machine_ok m \<Longrightarrow> machine_ok (begin_scan p m)"
  by (auto simp: machine_ok_defs begin_scan_def set_phase_def MAX_PRIO_def)

lemma machine_ok_next_level:
  "machine_ok m \<Longrightarrow> mc_phase m p = Scanning i [] \<Longrightarrow> machine_ok (next_level p i m)"
  by (auto simp: machine_ok_defs next_level_def set_phase_def) fastforce+

lemma machine_ok_idle: "machine_ok m \<Longrightarrow> machine_ok (set_phase p Idle m)"
  by (auto simp: machine_ok_defs set_phase_def)

lemma runs_okD:
  assumes "runs_ok m"
  shows "mc_phase m p = Running c \<Longrightarrow> c < mc_next m"
    and "mc_phase m p = Running c \<Longrightarrow> queued m c \<Longrightarrow> cr_lock (mc_store m c)"
    and "mc_phase m p = Running c \<Longrightarrow> mc_phase m q = Running c \<Longrightarrow> p = q"
  using assms by (simp_all add: runs_ok_def)

lemma runs_okI:
  assumes "\<And>p c. mc_phase m p = Running c \<Longrightarrow> c < mc_next m"
    and "\<And>p c. mc_phase m p = Running c \<Longrightarrow> queued m c \<Longrightarrow> cr_lock (mc_store m c)"
    and "\<And>p q c. mc_phase m p = Running c \<Longrightarrow> mc_phase m q = Running c \<Longrightarrow> p = q"
  shows "runs_ok m"
  unfolding runs_ok_def using assms by blast

lemma machine_ok_visit:
  assumes "machine_ok m" and "mc_phase m p = Scanning i (c # cs)"
  shows "machine_ok (visit_routine now p i c cs m)"
proof -
  obtain taken ctx store where
    v: "ClassicContext_visit now c (mc_ctx m p) (mc_store m) = (taken, ctx, store)"
    by (metis prod_cases3)
  note visit = visit_result [where clock = "\<lambda>_. now", OF v]
  have old: "queues_ok m" "scans_ok m" "runs_ok m" using assms(1) by (simp_all add: machine_ok_def)
  have scan: "i < MAX_PRIO \<and> set (c # cs) \<subseteq> set (mc_queues m ! i)"
    using old(2) assms(2) unfolding scans_ok_def by blast
  then have c: "queued m c" "c < mc_next m"
    using old(1) by (auto simp: queues_ok_def queued_def)
  have free: "mc_phase m q \<noteq> Running c" if taken for q
    using visit(1) that c(1) old(3) unfolding ready_def runs_ok_def by blast
  have lock: "cr_lock (store x) \<longleftrightarrow> cr_lock (mc_store m x) \<or> (taken \<and> x = c)" for x
    using visit(2) [of x] visit(3) by (cases "x = c") simp_all
  let ?m = "set_phase p (if taken then Running c else Scanning i cs)
      (m\<lparr>mc_ctx := (mc_ctx m)(p := ctx), mc_store := store\<rparr>)"
  have phase: "mc_phase ?m = (mc_phase m)(p := if taken then Running c else Scanning i cs)"
    "queued ?m x = queued m x" "mc_next ?m = mc_next m" "mc_store ?m = store" "mc_queues ?m = mc_queues m" for x
    by (simp_all add: set_phase_def queued_def)
  have "queues_ok ?m" using old(1) unfolding queues_ok_def phase .
  moreover have "scans_ok ?m"
    using old(2) scan unfolding scans_ok_def phase by simp
  moreover have "runs_ok ?m"
  proof -
    have run: "mc_phase m q = Running x \<or> (taken \<and> q = p \<and> x = c)" if "mc_phase ?m q = Running x" for q x
      using that unfolding phase by (simp split: if_splits)
    show ?thesis
    proof (rule runs_okI)
      fix q x
      assume "mc_phase ?m q = Running x"
      note r = run [OF this]
      then show "x < mc_next ?m" unfolding phase using c(2) runs_okD(1) [OF old(3)] by blast
      show "cr_lock (mc_store ?m x)" if "queued ?m x"
        using r that lock runs_okD(2) [OF old(3)] unfolding phase by blast
    next
      fix q q' x
      assume "mc_phase ?m q = Running x" "mc_phase ?m q' = Running x"
      note r = run [OF this(1)] run [OF this(2)]
      then show "q = q'" using free runs_okD(3) [OF old(3)] by blast
    qed
  qed
  ultimately show ?thesis by (simp add: visit_routine_def v machine_ok_def)
qed

lemma machine_ok_resume:
  assumes "machine_ok m" and "mc_phase m p = Running c"
  shows "machine_ok (resume_routine run p c m)"
  using assms by (auto simp: machine_ok_defs resume_routine_def set_phase_def)

lemma machine_ok_add:
  assumes "machine_ok m" and "i < MAX_PRIO" and "\<not> scanned m i"
  shows "machine_ok (add_routine r i m)"
proof -
  let ?m = "add_routine r i m"
  have q: "mc_queues ?m ! j = (if j = i then mc_queues m ! i @ [mc_next m] else mc_queues m ! j)"
    if "j < MAX_PRIO" for j
    using assms(1,2) that by (auto simp: add_routine_def machine_ok_def queues_ok_def)
  have old: "queues_ok m" "scans_ok m" "runs_ok m" "length (mc_queues m) = MAX_PRIO"
    using assms(1) by (auto simp: machine_ok_def queues_ok_def)
  have fresh: "mc_next m \<notin> set (mc_queues m ! j)" if "j < MAX_PRIO" for j
    using old(1) that by (auto simp: queues_ok_def)
  have len: "length (mc_queues ?m) = MAX_PRIO" "mc_next ?m = Suc (mc_next m)" "mc_phase ?m = mc_phase m"
    using old(4) by (simp_all add: add_routine_def)
  have "queues_ok ?m"
    using old(1) fresh assms(2) unfolding queues_ok_def len by (auto simp: q less_SucI)
  moreover have "scans_ok ?m"
    using old(2) assms(3) unfolding scans_ok_def len by (fastforce simp: q scanned_def)
  moreover have "runs_ok ?m"
  proof -
    have "queued m c" if "queued ?m c" "c < mc_next m" for c
      using that assms(2) unfolding queued_def len old(4) by (auto simp: q split: if_splits)
    moreover have "cr_lock (mc_store ?m c) = cr_lock (mc_store m c)" if "c < mc_next m" for c
      using that by (simp add: add_routine_def)
    ultimately show ?thesis
      using old(3) unfolding runs_ok_def len by (auto simp: less_SucI)
  qed
  ultimately show ?thesis by (simp add: machine_ok_def)
qed

lemma machine_ok_remove:
  assumes "machine_ok m" and "i < MAX_PRIO" and "\<not> scanned m i" and "c \<in> set (mc_queues m ! i)"
  shows "machine_ok (remove_routine c i m)"
proof -
  let ?m = "remove_routine c i m"
  have old: "queues_ok m" "scans_ok m" "runs_ok m" "length (mc_queues m) = MAX_PRIO"
    using assms(1) by (auto simp: machine_ok_def queues_ok_def)
  have q: "mc_queues ?m ! j = (if j = i then remove1 c (mc_queues m ! i) else mc_queues m ! j)"
    if "j < MAX_PRIO" for j
    using old(4) assms(2) that by (auto simp: remove_routine_def)
  have sub: "set (mc_queues ?m ! j) = set (mc_queues m ! j) - {c}" if "j < MAX_PRIO" for j
    using q [OF that] old(1) assms(2,4) that by (auto simp: queues_ok_def)
  have len: "length (mc_queues ?m) = MAX_PRIO" "mc_next ?m = mc_next m" "mc_phase ?m = mc_phase m"
    using old(4) by (simp_all add: remove_routine_def)
  have "queues_ok ?m"
    using old(1) unfolding queues_ok_def len by (auto simp: sub q distinct_remove1)
  moreover have "scans_ok ?m"
    using old(2) assms(3) unfolding scans_ok_def len by (auto simp: q scanned_def)
  moreover have "runs_ok ?m"
  proof -
    have "queued m x \<and> x \<noteq> c" if "queued ?m x" for x
      using that sub unfolding queued_def len old(4) by auto
    moreover have "cr_lock (mc_store ?m x) = cr_lock (mc_store m x)" if "x \<noteq> c" for x
      using that by (simp add: remove_routine_def)
    ultimately show ?thesis
      using old(3) unfolding runs_ok_def len by auto
  qed
  ultimately show ?thesis by (simp add: machine_ok_def)
qed

lemma machine_ok_flag: "machine_ok m \<Longrightarrow> machine_ok (notify_flag c m)"
  by (auto simp: machine_ok_defs notify_flag_def CRoutine_SetUpdateFlag_def)

lemma machine_ok_signals: "machine_ok (m\<lparr>mc_signals := n\<rparr>) = machine_ok m"
  by (simp add: machine_ok_defs)

lemma machine_ok_wait: "machine_ok m \<Longrightarrow> machine_ok (begin_wait now p m)"
  by (auto simp: machine_ok_defs begin_wait_def set_phase_def split: prod.split)

lemma machine_ok_step: "machine_step m m' \<Longrightarrow> machine_ok m \<Longrightarrow> machine_ok m'"
  by (induction rule: machine_step.induct)
    (simp_all only: machine_ok_begin_scan machine_ok_visit machine_ok_next_level machine_ok_resume
      machine_ok_wait machine_ok_idle machine_ok_flag machine_ok_signals,
      blast intro: machine_ok_add, blast intro: machine_ok_remove)

lemma machine_ok_reachable: "machine_step\<^sup>*\<^sup>* (machine_start g) m \<Longrightarrow> machine_ok m"
proof (induction rule: rtranclp_induct)
  case base
  show ?case by (simp add: machine_ok_defs machine_start_def)
next
  case (step y z)
  then show ?case using machine_ok_step by blast
qed

text \<open>
  C4: However processors that scan, resume and wait, writers that notify, tasks that are added and
  tasks that are removed interleave, no routine is ever run by two processors at the same time.  This
  holds although a removal releases the lock of a routine that may be running.
\<close>

theorem routine_runs_once:
  assumes "machine_step\<^sup>*\<^sup>* (machine_start g) m"
    and "mc_phase m p = Running c" and "mc_phase m q = Running c"
  shows "p = q"
  using machine_ok_reachable [OF assms(1)] assms(2,3) by (auto simp: machine_ok_def runs_ok_def)

lemma add_step: "machine_step (machine_start g) (add_routine (CRoutine_new 0) 19 (machine_start g))"
  by (rule machine_step.add) (simp_all add: MAX_PRIO_def scanned_def machine_start_def CRoutine_new_def)

definition sample_running :: machine where
  "sample_running =
     visit_routine 0 0 19 0 [] (begin_scan 0 (add_routine (CRoutine_new 0) 19 (machine_start ''g'')))"

theorem routine_runs_once_witness:
  "machine_step\<^sup>*\<^sup>* (machine_start ''g'') sample_running
   \<and> mc_phase sample_running 0 = Running 0 \<and> mc_phase sample_running 1 \<noteq> Running 0"
proof -
  let ?m = "add_routine (CRoutine_new 0) 19 (machine_start ''g'')"
  have "machine_step ?m (begin_scan 0 ?m)"
    by (rule machine_step.begin_scan) (simp add: add_routine_def machine_start_def)
  moreover have "machine_step (begin_scan 0 ?m) sample_running"
    unfolding sample_running_def by (rule machine_step.visit) code_simp
  ultimately have reach: "machine_step\<^sup>*\<^sup>* (machine_start ''g'') sample_running"
    using add_step [of "''g''"] by (meson converse_rtranclp_into_rtranclp rtranclp.rtrancl_refl)
  moreover have running: "mc_phase sample_running 0 = Running 0" by code_simp
  moreover have "mc_phase sample_running 1 \<noteq> Running 0"
    using routine_runs_once [OF reach running, of 1] by auto
  ultimately show ?thesis by blast
qed

section \<open>A lost notification\<close>

lemma empty_scan:
  assumes "mc_phase m p = Scanning i []" and "\<forall>j \<le> i. mc_queues m ! j = []"
  shows "machine_step\<^sup>*\<^sup>* m (set_phase p To_wait m)"
  using assms
proof (induction i arbitrary: m)
  case 0
  then show ?case using machine_step.level [of m p 0] by (simp add: next_level_def)
next
  case (Suc i)
  let ?m = "set_phase p (Scanning i []) m"
  have "machine_step m ?m"
    using machine_step.level [OF Suc.prems(1)] Suc.prems(2) by (simp add: next_level_def)
  moreover have "machine_step\<^sup>*\<^sup>* ?m (set_phase p To_wait ?m)"
    using Suc.IH [of ?m] Suc.prems(2) by (simp add: set_phase_def)
  ultimately show ?case by (simp add: set_phase_def)
qed


end
