(* ===== verification/SchedulerPolicy.thy ===== *)
theory SchedulerPolicy
  imports Scheduler GlobalData StdString "HOL-Library.AList"
begin

text \<open>
  The schedulers (\<open>cyber/scheduler/scheduler.cc\<close>, \<open>policy/scheduler_classic.cc\<close>,
  \<open>policy/scheduler_choreography.cc\<close>, \<open>scheduler_factory.cc\<close>): creating processors from the
  configuration, dispatching a task to a queue, notifying and removing it.

  The base class is a record and the two policies extend it; the virtual operations are arguments of
  the operations of the base class.  An operation that exits the process, throws or has no defined
  behaviour gives a \<open>failure\<close>.

  For the classic policy the theory shows that the registered routines are exactly the queued ones,
  each in the queue of its group and priority.  For the choreography policy it shows that a task
  bound to a processor that does not exist is accepted, but can be neither notified nor removed.
  Removing a task by name removes another task when the hashes of the names collide.
\<close>

section \<open>Configuration\<close>

record inner_thread =
  it_cpuset :: string
  it_policy :: string
  it_prio :: nat

record classic_task =
  ct_prio :: nat
  ct_group_name :: string

record sched_group =
  sg_name :: string
  sg_processor_num :: nat
  sg_affinity :: string
  sg_cpuset :: string
  sg_processor_policy :: string
  sg_processor_prio :: int
  sg_tasks :: "(string \<times> nat) list"

record choreography_task =
  xt_processor :: "int option"
  xt_prio :: nat

record choreography_conf =
  xf_processor_num :: nat
  xf_affinity :: string
  xf_processor_policy :: string
  xf_processor_prio :: int
  xf_cpuset :: string
  xf_pool_processor_num :: nat
  xf_pool_affinity :: string
  xf_pool_processor_policy :: string
  xf_pool_processor_prio :: int
  xf_pool_cpuset :: string
  xf_tasks :: "(string \<times> choreography_task) list"

record scheduler_conf =
  sf_policy :: string
  sf_process_level_cpuset :: "string option"
  sf_threads :: "(string \<times> inner_thread) list"
  sf_groups :: "sched_group list"
  sf_choreography :: choreography_conf

section \<open>The base class\<close>

datatype proc_context = Classic classic_context | Choreography choreography_context

record scheduler =
  sc_stop :: bool
  sc_id_cr :: "(u64 \<times> nat) list"
  sc_id_map_mutex :: "nat atomic_hash_map"
  sc_mutexes :: nat
  sc_pctxs :: "proc_context list"
  sc_processors :: "nat processor list"
  sc_inner_thr_confs :: "(string \<times> inner_thread) list"
  sc_process_level_cpuset :: string
  sc_main_affinity :: "int list option"
  sc_proc_num :: u32
  sc_task_pool_size :: u32
  sc_cr_group :: "string \<Rightarrow> nat list list"
  sc_store :: routine_store
  sc_next :: nat
  sc_notified :: "string list"
  sc_callbacks :: "u64 list"

definition Scheduler_new :: scheduler where
  "Scheduler_new =
     \<lparr>sc_stop = False, sc_id_cr = [], sc_id_map_mutex = AtomicHashMap_new 128, sc_mutexes = 0,
      sc_pctxs = [], sc_processors = [], sc_inner_thr_confs = [], sc_process_level_cpuset = [],
      sc_main_affinity = None, sc_proc_num = 0, sc_task_pool_size = 0,
      sc_cr_group = (\<lambda>g. replicate MAX_PRIO []), sc_store = (\<lambda>c. CRoutine_new 0), sc_next = 0,
      sc_notified = [], sc_callbacks = []\<rparr>"

text \<open>A list of processors is given as single numbers and ranges separated by commas.\<close>

definition parse_range :: "string \<Rightarrow> int list outcome" where
  "parse_range line =
     (let range = getlines (CHR ''-'') line
      in if length range = 1
         then (case stoi (range ! 0) of None \<Rightarrow> Inl Exception | Some i \<Rightarrow> Inr [i])
         else if length range = 2
         then (case stoi (range ! 0) of
                 None \<Rightarrow> Inl Exception
               | Some i \<Rightarrow>
                   (case stoi (range ! 1) of
                      None \<Rightarrow> Inl Exception
                    | Some e \<Rightarrow> if i \<le> e \<and> e = 2147483647 then Inl Undefined else Inr [i..e]))
         else Inl Exit)"

fun parse_ranges :: "string list \<Rightarrow> int list \<Rightarrow> int list outcome" where
  "parse_ranges [] cpuset = Inr cpuset"
| "parse_ranges (line # rest) cpuset =
     bind_outcome (parse_range line) (\<lambda>cpus. parse_ranges rest (cpuset @ cpus))"

definition Scheduler_ParseCpuset :: "string \<Rightarrow> int list \<Rightarrow> int list outcome" where
  "Scheduler_ParseCpuset s cpuset = parse_ranges (getlines (CHR '','') s) cpuset"

definition Scheduler_ProcessLevelResourceControl :: "'x scheduler_scheme \<Rightarrow> 'x scheduler_scheme outcome" where
  "Scheduler_ProcessLevelResourceControl sc =
     bind_outcome (Scheduler_ParseCpuset (sc_process_level_cpuset sc) [])
       (\<lambda>cpus. Inr (sc\<lparr>sc_main_affinity := Some cpus\<rparr>))"

text \<open>The attributes given to a thread: its processors and, for two policies, policy and priority.\<close>

definition Scheduler_SetInnerThreadAttr ::
  "string \<Rightarrow> 'x scheduler_scheme \<Rightarrow> (int list \<times> (sched_policy \<times> int) option) option outcome" where
  "Scheduler_SetInnerThreadAttr name sc =
     (case map_of (sc_inner_thr_confs sc) name of
        None \<Rightarrow> Inr None
      | Some th_conf \<Rightarrow>
          bind_outcome (Scheduler_ParseCpuset (it_cpuset th_conf) [])
            (\<lambda>cpus.
               if it_policy th_conf = ''SCHED_FIFO''
               then Inr (Some (cpus, Some (SCHED_FIFO, int (it_prio th_conf))))
               else if it_policy th_conf = ''SCHED_RR''
               then Inr (Some (cpus, Some (SCHED_RR, int (it_prio th_conf))))
               else Inr (Some (cpus, None))))"

text \<open>The mutex of an id is created on first use.\<close>

definition with_id_mutex :: "u64 \<Rightarrow> 'x scheduler_scheme \<Rightarrow> 'x scheduler_scheme" where
  "with_id_mutex crid sc =
     (case AtomicHashMap_Get (sc_id_map_mutex sc) crid of
        Some wrapper \<Rightarrow> sc
      | None \<Rightarrow>
          sc\<lparr>sc_id_map_mutex := AtomicHashMap_Set (sc_id_map_mutex sc) crid (sc_mutexes sc),
             sc_mutexes := Suc (sc_mutexes sc)\<rparr>)"

text \<open>A new routine object.\<close>

definition new_routine :: "int \<Rightarrow> u64 \<Rightarrow> string \<Rightarrow> 'x scheduler_scheme \<Rightarrow> 'x scheduler_scheme" where
  "new_routine now task_id name sc =
     sc\<lparr>sc_store := (sc_store sc)(sc_next sc := (CRoutine_new now)\<lparr>cr_id := task_id, cr_name := name\<rparr>),
        sc_next := Suc (sc_next sc)\<rparr>"

definition Scheduler_CreateTask ::
  "(nat \<Rightarrow> 'x scheduler_scheme \<Rightarrow> (bool \<times> 'x scheduler_scheme) outcome) \<Rightarrow> (string \<Rightarrow> u64) \<Rightarrow> int \<Rightarrow> string
    \<Rightarrow> bool \<Rightarrow> 'x scheduler_scheme \<Rightarrow> global_data
    \<Rightarrow> ((bool \<times> 'x scheduler_scheme) outcome \<times> global_data) option" where
  "Scheduler_CreateTask dispatch Hash now name visitor sc g =
     (if sc_stop sc then Some (Inr (False, sc), g)
      else
        case RegisterTaskName Hash name g of
          None \<Rightarrow> None
        | Some (task_id, g) \<Rightarrow>
            Some (bind_outcome (dispatch (sc_next sc) (new_routine now task_id name sc))
                 (\<lambda>(ok, sc).
                    if \<not> ok then Inr (False, sc)
                    else if visitor then Inr (True, sc\<lparr>sc_callbacks := sc_callbacks sc @ [task_id]\<rparr>)
                    else Inr (True, sc)), g))"

definition Scheduler_NotifyTask ::
  "(u64 \<Rightarrow> 'x scheduler_scheme \<Rightarrow> (bool \<times> 'x scheduler_scheme) outcome) \<Rightarrow> u64 \<Rightarrow> 'x scheduler_scheme
    \<Rightarrow> (bool \<times> 'x scheduler_scheme) outcome" where
  "Scheduler_NotifyTask notify_processor crid sc =
     (if sc_stop sc then Inr (True, sc) else notify_processor crid sc)"

fun shutdown_context :: "proc_context \<Rightarrow> proc_context" where
  "shutdown_context (Classic ctx) = Classic (ClassicContext_Shutdown ctx)"
| "shutdown_context (Choreography ctx) = Choreography (ProcessorContext_Shutdown ctx)"

fun remove_all_routines ::
  "(u64 \<Rightarrow> 'x scheduler_scheme \<Rightarrow> (bool \<times> 'x scheduler_scheme) outcome) \<Rightarrow> u64 list \<Rightarrow> 'x scheduler_scheme
    \<Rightarrow> 'x scheduler_scheme outcome" where
  "remove_all_routines remove [] sc = Inr sc"
| "remove_all_routines remove (i # is) sc =
     bind_outcome (remove i sc) (\<lambda>(ok, sc). remove_all_routines remove is sc)"

definition Scheduler_Shutdown ::
  "(u64 \<Rightarrow> 'x scheduler_scheme \<Rightarrow> (bool \<times> 'x scheduler_scheme) outcome) \<Rightarrow> 'x scheduler_scheme
    \<Rightarrow> 'x scheduler_scheme outcome" where
  "Scheduler_Shutdown remove sc =
     (if sc_stop sc then Inr sc
      else
        let sc = sc\<lparr>sc_stop := True, sc_pctxs := map shutdown_context (sc_pctxs sc)\<rparr>;
            cr_list = map (\<lambda>(i, c). cr_id (sc_store sc c)) (sc_id_cr sc)
        in bind_outcome (remove_all_routines remove cr_list sc)
             (\<lambda>sc. Inr (sc\<lparr>sc_processors := [], sc_pctxs := []\<rparr>)))"

section \<open>Creating processors\<close>

definition create_processor ::
  "proc_context \<Rightarrow> int list \<Rightarrow> string \<Rightarrow> string \<Rightarrow> int \<Rightarrow> nat \<Rightarrow> 'x scheduler_scheme \<Rightarrow> 'x scheduler_scheme outcome"
where
  "create_processor ctx cpuset affinity policy prio i sc =
     (let proc = Processor_BindContext (length (sc_pctxs sc)) Processor_new
      in case Processor_SetSchedAffinity cpuset affinity i proc of
           None \<Rightarrow> Inl Undefined
         | Some proc \<Rightarrow>
             Inr (sc\<lparr>sc_pctxs := sc_pctxs sc @ [ctx],
                     sc_processors := sc_processors sc @ [Processor_SetSchedPolicy policy prio proc]\<rparr>))"

fun create_processors ::
  "proc_context \<Rightarrow> int list \<Rightarrow> string \<Rightarrow> string \<Rightarrow> int \<Rightarrow> nat list \<Rightarrow> 'x scheduler_scheme
    \<Rightarrow> 'x scheduler_scheme outcome" where
  "create_processors ctx cpuset affinity policy prio [] sc = Inr sc"
| "create_processors ctx cpuset affinity policy prio (i # is) sc =
     bind_outcome (create_processor ctx cpuset affinity policy prio i sc)
       (create_processors ctx cpuset affinity policy prio is)"

section \<open>Removing a routine from a queue\<close>

text \<open>The first routine of the queue with the id is stopped, taken out and released.\<close>

fun remove_from_queue :: "u64 \<Rightarrow> nat list \<Rightarrow> routine_store \<Rightarrow> (nat list \<times> routine_store) option" where
  "remove_from_queue crid [] store = None"
| "remove_from_queue crid (c # cs) store =
     (if cr_id (store c) = crid
      then Some (cs, store(c := CRoutine_Release (CRoutine_Stop (store c))))
      else map_option (map_prod (\<lambda>q. c # q) id) (remove_from_queue crid cs store))"

definition remove_from_group :: "u64 \<Rightarrow> string \<Rightarrow> nat \<Rightarrow> 'x scheduler_scheme \<Rightarrow> (bool \<times> 'x scheduler_scheme) outcome" where
  "remove_from_group crid group_name prio sc =
     (if MAX_PRIO \<le> prio then Inl Exception
      else
        case remove_from_queue crid (sc_cr_group sc group_name ! prio) (sc_store sc) of
          None \<Rightarrow> Inr (False, sc)
        | Some (q, store) \<Rightarrow>
            Inr (True, sc\<lparr>sc_store := store,
                          sc_cr_group := (sc_cr_group sc)(group_name := (sc_cr_group sc group_name)[prio := q])\<rparr>))"

definition add_to_group :: "nat \<Rightarrow> string \<Rightarrow> nat \<Rightarrow> 'x scheduler_scheme \<Rightarrow> 'x scheduler_scheme outcome" where
  "add_to_group c group_name prio sc =
     (if MAX_PRIO \<le> prio then Inl Exception
      else Inr (sc\<lparr>sc_cr_group :=
        (sc_cr_group sc)(group_name := (sc_cr_group sc group_name)[prio := sc_cr_group sc group_name ! prio @ [c]])\<rparr>))"

definition set_routine :: "nat \<Rightarrow> croutine \<Rightarrow> 'x scheduler_scheme \<Rightarrow> 'x scheduler_scheme" where
  "set_routine c r sc = sc\<lparr>sc_store := (sc_store sc)(c := r)\<rparr>"

section \<open>The classic policy\<close>

record scheduler_classic = scheduler +
  cl_cr_confs :: "(string \<times> classic_task) list"
  cl_groups :: "sched_group list"

abbreviation DEFAULT_GROUP_NAME :: string where
  "DEFAULT_GROUP_NAME \<equiv> ''default_grp''"

fun classic_processors :: "sched_group list \<Rightarrow> scheduler_classic \<Rightarrow> scheduler_classic outcome" where
  "classic_processors [] sc = Inr sc"
| "classic_processors (grp # groups) sc =
     (let sc = (if sc_task_pool_size sc = 0 then sc\<lparr>sc_task_pool_size := of_nat (sg_processor_num grp)\<rparr> else sc)
      in bind_outcome (Scheduler_ParseCpuset (sg_cpuset grp) [])
           (\<lambda>cpuset.
              bind_outcome
                (create_processors (Classic (ClassicContext_new (sg_name grp))) cpuset (sg_affinity grp)
                   (sg_processor_policy grp) (sg_processor_prio grp) [0..<sg_processor_num grp] sc)
                (classic_processors groups)))"

definition SchedulerClassic_CreateProcessor :: "scheduler_classic \<Rightarrow> scheduler_classic outcome" where
  "SchedulerClassic_CreateProcessor sc = classic_processors (cl_groups sc) sc"

definition group_confs :: "sched_group \<Rightarrow> (string \<times> classic_task) list \<Rightarrow> (string \<times> classic_task) list" where
  "group_confs grp confs =
     fold (\<lambda>(name, prio). AList.update name \<lparr>ct_prio = prio, ct_group_name = sg_name grp\<rparr>) (sg_tasks grp) confs"

definition default_group :: "nat \<Rightarrow> sched_group" where
  "default_group proc_num =
     \<lparr>sg_name = DEFAULT_GROUP_NAME, sg_processor_num = proc_num, sg_affinity = [], sg_cpuset = [],
      sg_processor_policy = [], sg_processor_prio = 0, sg_tasks = []\<rparr>"

definition process_level_control :: "string option \<Rightarrow> 'x scheduler_scheme \<Rightarrow> 'x scheduler_scheme outcome" where
  "process_level_control cpuset sc =
     (case cpuset of
        None \<Rightarrow> Inr sc
      | Some s \<Rightarrow> Scheduler_ProcessLevelResourceControl (sc\<lparr>sc_process_level_cpuset := s\<rparr>))"

definition SchedulerClassic_new :: "scheduler_conf option \<Rightarrow> nat option \<Rightarrow> scheduler_classic outcome" where
  "SchedulerClassic_new cfg default_proc_num =
     (let sc = scheduler.extend Scheduler_new (scheduler_classic.fields [] [])
      in bind_outcome
           (case cfg of
              Some cfg \<Rightarrow>
                bind_outcome
                  (process_level_control (sf_process_level_cpuset cfg)
                     (sc\<lparr>sc_inner_thr_confs := fold (\<lambda>(n, t). AList.update n t) (sf_threads cfg) []\<rparr>))
                  (\<lambda>sc. Inr (sc\<lparr>cl_groups := sf_groups cfg, cl_cr_confs := fold group_confs (sf_groups cfg) []\<rparr>))
            | None \<Rightarrow>
                let proc_num = (case default_proc_num of None \<Rightarrow> 2 | Some n \<Rightarrow> n)
                in Inr (sc\<lparr>sc_task_pool_size := of_nat proc_num, cl_groups := [default_group proc_num]\<rparr>))
           SchedulerClassic_CreateProcessor)"

text \<open>The routine gets the priority and group of its configuration.\<close>

definition classic_configure :: "scheduler_classic \<Rightarrow> croutine \<Rightarrow> croutine outcome" where
  "classic_configure sc cr =
     bind_outcome
       (case map_of (cl_cr_confs sc) (cr_name cr) of
          Some task \<Rightarrow> Inr (cr\<lparr>cr_priority := ct_prio task, cr_group_name := ct_group_name task\<rparr>)
        | None \<Rightarrow>
            (case cl_groups sc of
               [] \<Rightarrow> Inl Undefined
             | grp # groups \<Rightarrow> Inr (cr\<lparr>cr_group_name := sg_name grp\<rparr>)))
       (\<lambda>cr. Inr (if MAX_PRIO \<le> cr_priority cr then cr\<lparr>cr_priority := MAX_PRIO - 1\<rparr> else cr))"

definition SchedulerClassic_DispatchTask ::
  "nat \<Rightarrow> scheduler_classic \<Rightarrow> (bool \<times> scheduler_classic) outcome" where
  "SchedulerClassic_DispatchTask c sc =
     (let crid = cr_id (sc_store sc c); sc = with_id_mutex crid sc
      in if map_of (sc_id_cr sc) crid \<noteq> None then Inr (False, sc)
         else
           let sc = sc\<lparr>sc_id_cr := AList.update crid c (sc_id_cr sc)\<rparr>
           in bind_outcome (classic_configure sc (sc_store sc c))
                (\<lambda>cr. bind_outcome (add_to_group c (cr_group_name cr) (cr_priority cr) (set_routine c cr sc))
                   (\<lambda>sc. Inr (True, sc\<lparr>sc_notified := sc_notified sc @ [cr_group_name cr]\<rparr>))))"

definition SchedulerClassic_NotifyProcessor ::
  "u64 \<Rightarrow> scheduler_classic \<Rightarrow> (bool \<times> scheduler_classic) outcome" where
  "SchedulerClassic_NotifyProcessor crid sc =
     (if sc_stop sc then Inr (True, sc)
      else
        case map_of (sc_id_cr sc) crid of
          None \<Rightarrow> Inr (False, sc)
        | Some c \<Rightarrow>
            let cr = sc_store sc c;
                sc = (if cr_state cr = DATA_WAIT then set_routine c (CRoutine_SetUpdateFlag cr) sc else sc)
            in Inr (True, sc\<lparr>sc_notified := sc_notified sc @ [cr_group_name cr]\<rparr>))"

definition SchedulerClassic_RemoveCRoutine ::
  "u64 \<Rightarrow> scheduler_classic \<Rightarrow> (bool \<times> scheduler_classic) outcome" where
  "SchedulerClassic_RemoveCRoutine crid sc =
     (let sc = with_id_mutex crid sc
      in case map_of (sc_id_cr sc) crid of
           None \<Rightarrow> Inr (False, sc)
         | Some c \<Rightarrow>
             let prio = cr_priority (sc_store sc c); group_name = cr_group_name (sc_store sc c);
                 sc = set_routine c (CRoutine_Stop (sc_store sc c)) sc;
                 sc = sc\<lparr>sc_id_cr := AList.delete crid (sc_id_cr sc)\<rparr>
             in remove_from_group crid group_name prio sc)"

definition SchedulerClassic_RemoveTask ::
  "(string \<Rightarrow> u64) \<Rightarrow> string \<Rightarrow> scheduler_classic \<Rightarrow> (bool \<times> scheduler_classic) outcome" where
  "SchedulerClassic_RemoveTask Hash name sc =
     (if sc_stop sc then Inr (True, sc) else SchedulerClassic_RemoveCRoutine (Hash name) sc)"

section \<open>The choreography policy\<close>

record scheduler_choreography = scheduler +
  xl_cr_confs :: "(string \<times> choreography_task) list"

definition SchedulerChoreography_CreateProcessor ::
  "choreography_conf \<Rightarrow> int list \<Rightarrow> int list \<Rightarrow> scheduler_choreography \<Rightarrow> scheduler_choreography outcome" where
  "SchedulerChoreography_CreateProcessor conf cpuset pool_cpuset sc =
     bind_outcome
       (create_processors (Choreography ChoreographyContext_new) cpuset (xf_affinity conf)
          (xf_processor_policy conf) (xf_processor_prio conf) [0..<unat (sc_proc_num sc)] sc)
       (\<lambda>sc.
          create_processors (Classic (ClassicContext_new DEFAULT_GROUP_NAME)) pool_cpuset (xf_pool_affinity conf)
            (xf_pool_processor_policy conf) (xf_pool_processor_prio conf) [0..<unat (sc_task_pool_size sc)] sc)"

definition empty_choreography_conf :: choreography_conf where
  "empty_choreography_conf =
     \<lparr>xf_processor_num = 0, xf_affinity = [], xf_processor_policy = [], xf_processor_prio = 0, xf_cpuset = [],
      xf_pool_processor_num = 0, xf_pool_affinity = [], xf_pool_processor_policy = [],
      xf_pool_processor_prio = 0, xf_pool_cpuset = [], xf_tasks = []\<rparr>"

definition SchedulerChoreography_new :: "scheduler_conf option \<Rightarrow> nat option \<Rightarrow> scheduler_choreography outcome" where
  "SchedulerChoreography_new cfg default_proc_num =
     (let sc = scheduler.extend Scheduler_new (scheduler_choreography.fields []);
          conf = (case cfg of Some cfg \<Rightarrow> sf_choreography cfg | None \<Rightarrow> empty_choreography_conf)
      in bind_outcome
           (case cfg of
              None \<Rightarrow> Inr sc
            | Some cfg \<Rightarrow>
                process_level_control (sf_process_level_cpuset cfg)
                  (sc\<lparr>sc_inner_thr_confs := fold (\<lambda>(n, t). AList.update n t) (sf_threads cfg) []\<rparr>))
           (\<lambda>sc.
              bind_outcome (Scheduler_ParseCpuset (xf_cpuset conf) [])
                (\<lambda>cpuset.
                   bind_outcome (Scheduler_ParseCpuset (xf_pool_cpuset conf) [])
                     (\<lambda>pool_cpuset.
                        let sc = sc\<lparr>sc_proc_num := of_nat (xf_processor_num conf),
                                   sc_task_pool_size := of_nat (xf_pool_processor_num conf),
                                   xl_cr_confs := fold (\<lambda>(n, t). AList.update n t) (xf_tasks conf) []\<rparr>;
                            sc = (if sc_proc_num sc = 0
                                  then let n = of_nat (case default_proc_num of None \<Rightarrow> 2 | Some n \<Rightarrow> n)
                                       in sc\<lparr>sc_proc_num := n, sc_task_pool_size := n\<rparr>
                                  else sc)
                        in SchedulerChoreography_CreateProcessor conf cpuset pool_cpuset sc))))"

text \<open>
  Taking a context of the vector as a choreography context: the cast is not checked, so it has no
  defined behaviour when the index is out of range or the context belongs to the pool.
\<close>

definition choreography_at :: "int \<Rightarrow> 'x scheduler_scheme \<Rightarrow> choreography_context outcome" where
  "choreography_at pid sc =
     (if 0 \<le> pid \<and> nat pid < length (sc_pctxs sc)
      then (case sc_pctxs sc ! nat pid of Choreography ctx \<Rightarrow> Inr ctx | Classic ctx \<Rightarrow> Inl Undefined)
      else Inl Undefined)"

definition set_choreography :: "int \<Rightarrow> choreography_context \<Rightarrow> 'x scheduler_scheme \<Rightarrow> 'x scheduler_scheme" where
  "set_choreography pid ctx sc = sc\<lparr>sc_pctxs := (sc_pctxs sc)[nat pid := Choreography ctx]\<rparr>"

definition choreography_configure :: "scheduler_choreography \<Rightarrow> croutine \<Rightarrow> croutine" where
  "choreography_configure sc cr =
     (case map_of (xl_cr_confs sc) (cr_name cr) of
        None \<Rightarrow> cr
      | Some taskconf \<Rightarrow>
          let cr = cr\<lparr>cr_priority := xt_prio taskconf\<rparr>
          in case xt_processor taskconf of None \<Rightarrow> cr | Some p \<Rightarrow> cr\<lparr>cr_processor_id := p\<rparr>)"

definition SchedulerChoreography_DispatchTask ::
  "nat \<Rightarrow> scheduler_choreography \<Rightarrow> (bool \<times> scheduler_choreography) outcome" where
  "SchedulerChoreography_DispatchTask c sc =
     (let crid = cr_id (sc_store sc c); sc = with_id_mutex crid sc;
          cr = choreography_configure sc (sc_store sc c); sc = set_routine c cr sc
      in if map_of (sc_id_cr sc) crid \<noteq> None then Inr (False, sc)
         else
           let sc = sc\<lparr>sc_id_cr := AList.update crid c (sc_id_cr sc)\<rparr>;
               pid = (word_of_int (cr_processor_id cr) :: u32)
           in if pid < sc_proc_num sc
              then bind_outcome (choreography_at (uint pid) sc)
                     (\<lambda>ctx. Inr (True, set_choreography (uint pid)
                                        (ChoreographyContext_Enqueue (sc_store sc) c ctx) sc))
              else
                let cr = (if MAX_PRIO \<le> cr_priority cr then cr\<lparr>cr_priority := MAX_PRIO - 1\<rparr> else cr);
                    cr = cr\<lparr>cr_group_name := DEFAULT_GROUP_NAME\<rparr>
                in bind_outcome (add_to_group c DEFAULT_GROUP_NAME (cr_priority cr) (set_routine c cr sc))
                     (\<lambda>sc. Inr (True, sc)))"

definition SchedulerChoreography_RemoveCRoutine ::
  "u64 \<Rightarrow> scheduler_choreography \<Rightarrow> (bool \<times> scheduler_choreography) outcome" where
  "SchedulerChoreography_RemoveCRoutine crid sc =
     (let sc = with_id_mutex crid sc
      in case map_of (sc_id_cr sc) crid of
           None \<Rightarrow> Inr (False, sc)
         | Some c \<Rightarrow>
             let prio = cr_priority (sc_store sc c); pid = cr_processor_id (sc_store sc c);
                 group_name = cr_group_name (sc_store sc c);
                 sc = set_routine c (CRoutine_Stop (sc_store sc c)) sc;
                 sc = sc\<lparr>sc_id_cr := AList.delete crid (sc_id_cr sc)\<rparr>
             in if pid = - 1 then remove_from_group crid group_name prio sc
                else bind_outcome (choreography_at pid sc)
                       (\<lambda>ctx. case ChoreographyContext_RemoveCRoutine crid ctx (sc_store sc) of
                                (ctx, store) \<Rightarrow>
                                  Inr (True, set_choreography pid ctx (sc\<lparr>sc_store := store\<rparr>))))"

definition SchedulerChoreography_RemoveTask ::
  "(string \<Rightarrow> u64) \<Rightarrow> string \<Rightarrow> scheduler_choreography \<Rightarrow> (bool \<times> scheduler_choreography) outcome" where
  "SchedulerChoreography_RemoveTask Hash name sc =
     (if sc_stop sc then Inr (True, sc) else SchedulerChoreography_RemoveCRoutine (Hash name) sc)"

definition SchedulerChoreography_NotifyProcessor ::
  "u64 \<Rightarrow> scheduler_choreography \<Rightarrow> (bool \<times> scheduler_choreography) outcome" where
  "SchedulerChoreography_NotifyProcessor crid sc =
     (if sc_stop sc then Inr (True, sc)
      else
        case map_of (sc_id_cr sc) crid of
          None \<Rightarrow> Inr (False, sc)
        | Some c \<Rightarrow>
            let cr = sc_store sc c;
                sc = (if cr_state cr = DATA_WAIT then set_routine c (CRoutine_SetUpdateFlag cr) sc else sc)
            in if cr_processor_id cr \<noteq> - 1
               then bind_outcome (choreography_at (cr_processor_id cr) sc)
                      (\<lambda>ctx. Inr (True, set_choreography (cr_processor_id cr) (snd (ChoreographyContext_Notify ctx)) sc))
               else Inr (True, sc\<lparr>sc_notified := sc_notified sc @ [cr_group_name cr]\<rparr>))"

section \<open>The factory\<close>

datatype any_scheduler = Classic_scheduler scheduler_classic | Choreography_scheduler scheduler_choreography

definition Instance :: "scheduler_conf option \<Rightarrow> nat option \<Rightarrow> any_scheduler option \<Rightarrow> any_scheduler outcome" where
  "Instance cfg default_proc_num obj =
     (case obj of
        Some sc \<Rightarrow> Inr sc
      | None \<Rightarrow>
          let policy = (case cfg of Some cfg \<Rightarrow> sf_policy cfg | None \<Rightarrow> ''classic'')
          in if policy = ''choreography''
             then bind_outcome (SchedulerChoreography_new cfg default_proc_num) (\<lambda>sc. Inr (Choreography_scheduler sc))
             else bind_outcome (SchedulerClassic_new cfg default_proc_num) (\<lambda>sc. Inr (Classic_scheduler sc)))"

definition CleanUp :: "any_scheduler option \<Rightarrow> any_scheduler option outcome" where
  "CleanUp obj =
     (case obj of
        None \<Rightarrow> Inr None
      | Some (Classic_scheduler sc) \<Rightarrow>
          bind_outcome (Scheduler_Shutdown SchedulerClassic_RemoveCRoutine sc)
            (\<lambda>sc. Inr (Some (Classic_scheduler sc)))
      | Some (Choreography_scheduler sc) \<Rightarrow>
          bind_outcome (Scheduler_Shutdown SchedulerChoreography_RemoveCRoutine sc)
            (\<lambda>sc. Inr (Some (Choreography_scheduler sc))))"

section \<open>Registered routines are the queued ones\<close>

definition registered :: "'x scheduler_scheme \<Rightarrow> nat \<Rightarrow> bool" where
  "registered sc c \<longleftrightarrow> (cr_id (sc_store sc c), c) \<in> set (sc_id_cr sc)"

definition in_queue :: "'x scheduler_scheme \<Rightarrow> string \<Rightarrow> nat \<Rightarrow> nat \<Rightarrow> bool" where
  "in_queue sc g i c \<longleftrightarrow> c \<in> set (sc_cr_group sc g ! i)"

definition ids_ok :: "'x scheduler_scheme \<Rightarrow> bool" where
  "ids_ok sc \<longleftrightarrow> distinct (map fst (sc_id_cr sc))
     \<and> (\<forall>(i, c) \<in> set (sc_id_cr sc). c < sc_next sc \<and> cr_id (sc_store sc c) = i
          \<and> cr_priority (sc_store sc c) < MAX_PRIO)"

definition groups_ok :: "'x scheduler_scheme \<Rightarrow> bool" where
  "groups_ok sc \<longleftrightarrow>
     (\<forall>g. length (sc_cr_group sc g) = MAX_PRIO)
     \<and> (\<forall>g. \<forall>i < MAX_PRIO. distinct (sc_cr_group sc g ! i))
     \<and> (\<forall>g c. \<forall>i < MAX_PRIO. in_queue sc g i c \<longleftrightarrow>
          registered sc c \<and> cr_group_name (sc_store sc c) = g \<and> cr_priority (sc_store sc c) = i)"

lemma with_id_mutex_fields [simp]:
  "sc_id_cr (with_id_mutex crid sc) = sc_id_cr sc" "sc_store (with_id_mutex crid sc) = sc_store sc"
  "sc_cr_group (with_id_mutex crid sc) = sc_cr_group sc" "sc_next (with_id_mutex crid sc) = sc_next sc"
  "sc_stop (with_id_mutex crid sc) = sc_stop sc"
  by (simp_all add: with_id_mutex_def split: option.split)

lemma ids_okD:
  assumes "ids_ok sc" and "(i, c) \<in> set (sc_id_cr sc)"
  shows "c < sc_next sc" and "cr_id (sc_store sc c) = i" and "cr_priority (sc_store sc c) < MAX_PRIO"
    and "registered sc c"
  using assms by (auto simp: ids_ok_def registered_def)

lemma ids_okI:
  assumes "distinct (map fst (sc_id_cr sc))"
    and "\<And>i c. (i, c) \<in> set (sc_id_cr sc) \<Longrightarrow>
      c < sc_next sc \<and> cr_id (sc_store sc c) = i \<and> cr_priority (sc_store sc c) < MAX_PRIO"
  shows "ids_ok sc"
  using assms by (auto simp: ids_ok_def)

lemma groups_okD:
  assumes "groups_ok sc"
  shows "length (sc_cr_group sc g) = MAX_PRIO" and "i < MAX_PRIO \<Longrightarrow> distinct (sc_cr_group sc g ! i)"
    and "i < MAX_PRIO \<Longrightarrow> in_queue sc g i c \<longleftrightarrow>
          registered sc c \<and> cr_group_name (sc_store sc c) = g \<and> cr_priority (sc_store sc c) = i"
  using assms by (simp_all add: groups_ok_def)

lemma groups_okI:
  assumes "\<And>g. length (sc_cr_group sc g) = MAX_PRIO" and "\<And>g i. i < MAX_PRIO \<Longrightarrow> distinct (sc_cr_group sc g ! i)"
    and "\<And>g i c. i < MAX_PRIO \<Longrightarrow> in_queue sc g i c \<longleftrightarrow>
          registered sc c \<and> cr_group_name (sc_store sc c) = g \<and> cr_priority (sc_store sc c) = i"
  shows "groups_ok sc"
  using assms by (simp add: groups_ok_def)

text \<open>The invariant depends on four fields only.\<close>

lemma sched_cong:
  assumes "sc_id_cr sc' = sc_id_cr sc" and "sc_cr_group sc' = sc_cr_group sc" and "sc_next sc \<le> sc_next sc'"
    and "\<And>c. c < sc_next sc \<Longrightarrow> cr_id (sc_store sc' c) = cr_id (sc_store sc c)
          \<and> cr_priority (sc_store sc' c) = cr_priority (sc_store sc c)
          \<and> cr_group_name (sc_store sc' c) = cr_group_name (sc_store sc c)"
    and "ids_ok sc" and "groups_ok sc"
  shows "ids_ok sc' \<and> groups_ok sc'"
proof
  note old = ids_okD [OF assms(5)]
  have reg: "registered sc' c \<longleftrightarrow> registered sc c" for c
    unfolding registered_def assms(1) using old(1) assms(4) by metis
  have known: "registered sc c \<Longrightarrow> c < sc_next sc" for c
    unfolding registered_def by (rule old(1))
  show "ids_ok sc'"
  proof (rule ids_okI)
    show "distinct (map fst (sc_id_cr sc'))" using assms(1,5) by (simp add: ids_ok_def)
  next
    fix i c
    assume "(i, c) \<in> set (sc_id_cr sc')"
    then have "(i, c) \<in> set (sc_id_cr sc)" by (simp add: assms(1))
    note this = old [OF this]
    then show "c < sc_next sc' \<and> cr_id (sc_store sc' c) = i \<and> cr_priority (sc_store sc' c) < MAX_PRIO"
      using assms(3,4) by simp
  qed
  show "groups_ok sc'"
  proof (rule groups_okI)
    fix g i c
    assume i: "i < MAX_PRIO"
    have "in_queue sc' g i c = in_queue sc g i c" by (simp add: in_queue_def assms(2))
    then show "in_queue sc' g i c \<longleftrightarrow>
        registered sc' c \<and> cr_group_name (sc_store sc' c) = g \<and> cr_priority (sc_store sc' c) = i"
      unfolding reg groups_okD(3) [OF assms(6) i] using known [of c] assms(4) [of c] by auto
  qed (simp_all add: assms(2) groups_okD [OF assms(6)])
qed

lemma classic_configure_result:
  "classic_configure sc cr = Inr cr' \<Longrightarrow> cr_id cr' = cr_id cr \<and> cr_priority cr' < MAX_PRIO"
  by (auto simp: classic_configure_def MAX_PRIO_def split: option.splits list.splits if_splits)

lemma set_delete_conv: "set (AList.delete k al) = {(i, x) \<in> set al. i \<noteq> k}"
  by (auto simp: AList.delete_eq)

lemma nth_group_update:
  "length (G h) = n \<Longrightarrow> i < n \<Longrightarrow> (G(h := (G h)[p := q])) g ! i = (if g = h \<and> i = p then q else G g ! i)"
  by (cases "i = p") auto

lemma update_new_key: "map_of al k = None \<Longrightarrow> AList.update k v al = al @ [(k, v)]"
  by (induction al) (auto split: if_splits)

lemma enqueue_ok:
  assumes "ids_ok sc" and "groups_ok sc" and "c < sc_next sc" and "c \<notin> snd ` set (sc_id_cr sc)"
    and "map_of (sc_id_cr sc) (cr_id cr) = None" and "prio < MAX_PRIO"
    and "cr_priority cr = prio" and "cr_group_name cr = grp"
    and "sc_id_cr sc' = AList.update (cr_id cr) c (sc_id_cr sc)" and "sc_store sc' = (sc_store sc)(c := cr)"
    and "sc_next sc' = sc_next sc"
    and "sc_cr_group sc' = (sc_cr_group sc)(grp := (sc_cr_group sc grp)[prio := sc_cr_group sc grp ! prio @ [c]])"
  shows "ids_ok sc' \<and> groups_ok sc'"
proof
  have ids: "sc_id_cr sc' = sc_id_cr sc @ [(cr_id cr, c)]"
    unfolding assms(9) by (rule update_new_key [OF assms(5)])
  have other: "x \<noteq> c" if "(i, x) \<in> set (sc_id_cr sc)" for i x
    using that assms(4) by force
  have unknown: "\<not> registered sc c" using other unfolding registered_def by blast
  have reg: "registered sc' x \<longleftrightarrow> registered sc x \<or> x = c" for x
    using other [of _ x] by (cases "x = c") (auto simp: registered_def ids assms(10))
  show "ids_ok sc'"
  proof (rule ids_okI)
    show "distinct (map fst (sc_id_cr sc'))"
      using assms(1,5) by (auto simp: ids ids_ok_def map_of_eq_None_iff)
  next
    fix i x
    assume "(i, x) \<in> set (sc_id_cr sc')"
    then consider "(i, x) \<in> set (sc_id_cr sc)" | "i = cr_id cr" "x = c" by (auto simp: ids)
    then show "x < sc_next sc' \<and> cr_id (sc_store sc' x) = i \<and> cr_priority (sc_store sc' x) < MAX_PRIO"
    proof cases
      case 1
      then show ?thesis using ids_okD [OF assms(1) 1] other [OF 1] by (simp add: assms(10,11))
    next
      case 2
      then show ?thesis using assms(3,6,7) by (simp add: assms(10,11))
    qed
  qed
  show "groups_ok sc'"
  proof (rule groups_okI)
    fix g i x
    assume i: "i < MAX_PRIO"
    have "in_queue sc' g i x \<longleftrightarrow> in_queue sc g i x \<or> (g = grp \<and> i = prio \<and> x = c)"
      unfolding in_queue_def assms(12) nth_group_update [where G = "sc_cr_group sc", OF groups_okD(1) [OF assms(2)] i] by auto
    then show "in_queue sc' g i x \<longleftrightarrow>
        registered sc' x \<and> cr_group_name (sc_store sc' x) = g \<and> cr_priority (sc_store sc' x) = i"
      unfolding groups_okD(3) [OF assms(2) i] reg
      using unknown assms(7,8) by (cases "x = c") (auto simp: assms(10))
  next
    fix g i
    assume i: "i < MAX_PRIO"
    have "c \<notin> set (sc_cr_group sc g ! i)"
      using groups_okD(3) [OF assms(2) i, of g c] unknown by (simp add: in_queue_def)
    then show "distinct (sc_cr_group sc' g ! i)"
      unfolding assms(12) nth_group_update [where G = "sc_cr_group sc", OF groups_okD(1) [OF assms(2)] i]
      using groups_okD(2) [OF assms(2) i] by auto
  qed (simp add: assms(12) groups_okD(1) [OF assms(2)])
qed

lemma DispatchTask_ok:
  assumes "ids_ok sc" and "groups_ok sc" and "c < sc_next sc" and "c \<notin> snd ` set (sc_id_cr sc)"
    and "SchedulerClassic_DispatchTask c sc = Inr (ok, sc')"
  shows "ids_ok sc' \<and> groups_ok sc'"
proof (cases "map_of (sc_id_cr sc) (cr_id (sc_store sc c))")
  case (Some x)
  then have "sc' = with_id_mutex (cr_id (sc_store sc c)) sc"
    using assms(5) by (simp add: SchedulerClassic_DispatchTask_def Let_def)
  then show ?thesis by (intro sched_cong [of _ sc]) (simp_all add: assms)
next
  case None
  let ?sc = "with_id_mutex (cr_id (sc_store sc c)) sc"
  let ?sc1 = "?sc\<lparr>sc_id_cr := AList.update (cr_id (sc_store sc c)) c (sc_id_cr sc)\<rparr>"
  obtain cr where cr: "classic_configure ?sc1 (sc_store sc c) = Inr cr"
    using assms(5) None
    by (cases "classic_configure ?sc1 (sc_store sc c)") (simp_all add: SchedulerClassic_DispatchTask_def Let_def)
  note conf = classic_configure_result [OF cr]
  have "\<not> MAX_PRIO \<le> cr_priority cr" using conf by simp
  then have sc': "sc' = (?sc1\<lparr>sc_store := (sc_store sc)(c := cr),
      sc_cr_group := (sc_cr_group sc)(cr_group_name cr :=
        (sc_cr_group sc (cr_group_name cr))[cr_priority cr := sc_cr_group sc (cr_group_name cr) ! cr_priority cr @ [c]]),
      sc_notified := sc_notified ?sc1 @ [cr_group_name cr]\<rparr>)"
    using assms(5) None cr
    by (simp add: SchedulerClassic_DispatchTask_def Let_def add_to_group_def set_routine_def)
  show ?thesis
    by (rule enqueue_ok [OF assms(1-4) _ _ refl refl, of cr]) (use conf None in \<open>simp_all add: sc'\<close>)
qed

lemma remove_from_queue_result:
  assumes "c \<in> set q" and "cr_id (store c) = crid" and "\<forall>x \<in> set q. x \<noteq> c \<longrightarrow> cr_id (store x) \<noteq> crid"
  shows "remove_from_queue crid q store = Some (remove1 c q, store(c := CRoutine_Release (CRoutine_Stop (store c))))"
  using assms by (induction q) auto

lemma RemoveCRoutine_registered:
  assumes "ids_ok sc" and "groups_ok sc" and "map_of (sc_id_cr sc) crid = Some c"
  obtains sc' where "SchedulerClassic_RemoveCRoutine crid sc = Inr (True, sc')" "ids_ok sc'" "groups_ok sc'"
    "sc_id_cr sc' = AList.delete crid (sc_id_cr sc)"
proof -
  have mem: "(crid, c) \<in> set (sc_id_cr sc)" using assms(3) by (rule map_of_SomeD)
  note c = ids_okD [OF assms(1) mem]
  let ?g = "cr_group_name (sc_store sc c)" and ?i = "cr_priority (sc_store sc c)"
  let ?store = "(sc_store sc)(c := CRoutine_Stop (sc_store sc c))"
  have inq: "c \<in> set (sc_cr_group sc ?g ! ?i)"
    using groups_okD(3) [OF assms(2) c(3), of ?g c] c(4) by (simp add: in_queue_def)
  have unique: "x = c" if "registered sc x" "cr_id (sc_store sc x) = crid" for x
    using that mem assms(1) unfolding registered_def ids_ok_def by (metis eq_key_imp_eq_value)
  have only: "cr_id (sc_store sc x) \<noteq> crid" if "x \<in> set (sc_cr_group sc ?g ! ?i)" "x \<noteq> c" for x
    using that unique [of x] groups_okD(3) [OF assms(2) c(3), of ?g x] by (auto simp: in_queue_def)
  have found: "remove_from_queue crid (sc_cr_group sc ?g ! ?i) ?store
      = Some (remove1 c (sc_cr_group sc ?g ! ?i), ?store(c := CRoutine_Release (CRoutine_Stop (?store c))))"
    by (rule remove_from_queue_result [OF inq]) (use only c(2) in \<open>auto simp: CRoutine_Stop_def\<close>)
  define sc' where "sc' = (with_id_mutex crid sc)\<lparr>sc_id_cr := AList.delete crid (sc_id_cr sc),
      sc_store := ?store(c := CRoutine_Release (CRoutine_Stop (?store c))),
      sc_cr_group := (sc_cr_group sc)(?g := (sc_cr_group sc ?g)[?i := remove1 c (sc_cr_group sc ?g ! ?i)])\<rparr>"
  have groups: "sc_cr_group sc'
      = (sc_cr_group sc)(?g := (sc_cr_group sc ?g)[?i := remove1 c (sc_cr_group sc ?g ! ?i)])"
    by (simp add: sc'_def)
  have remove: "SchedulerClassic_RemoveCRoutine crid sc = Inr (True, sc')"
    using assms(3) c(3) found
    by (simp add: SchedulerClassic_RemoveCRoutine_def Let_def remove_from_group_def set_routine_def sc'_def)
  have fields: "sc_id_cr sc' = AList.delete crid (sc_id_cr sc)" "sc_next sc' = sc_next sc"
    "cr_id (sc_store sc' x) = cr_id (sc_store sc x)" "cr_priority (sc_store sc' x) = cr_priority (sc_store sc x)"
    "cr_group_name (sc_store sc' x) = cr_group_name (sc_store sc x)" for x
    by (simp_all add: sc'_def CRoutine_Stop_def CRoutine_Release_def)
  have ids: "ids_ok sc'"
  proof (rule ids_okI)
    show "distinct (map fst (sc_id_cr sc'))"
      using assms(1) by (simp add: fields(1) distinct_delete ids_ok_def)
    show "x < sc_next sc' \<and> cr_id (sc_store sc' x) = i \<and> cr_priority (sc_store sc' x) < MAX_PRIO"
      if "(i, x) \<in> set (sc_id_cr sc')" for i x
    proof -
      have "(i, x) \<in> set (sc_id_cr sc)" using that by (simp add: fields(1) set_delete_conv)
      from ids_okD [OF assms(1) this] show ?thesis by (simp add: fields(2-4))
    qed
  qed
  have "groups_ok sc'"
  proof (rule groups_okI)
    fix g i x
    assume i: "i < MAX_PRIO"
    have "in_queue sc' g i x \<longleftrightarrow> in_queue sc g i x \<and> x \<noteq> c"
    proof (cases "g = ?g \<and> i = ?i")
      case True
      then show ?thesis
        unfolding in_queue_def groups nth_group_update [where G = "sc_cr_group sc", OF groups_okD(1) [OF assms(2)] i]
        using groups_okD(2) [OF assms(2) c(3)] by simp
    next
      case False
      then have "c \<notin> set (sc_cr_group sc g ! i)"
        using groups_okD(3) [OF assms(2) i, of g c] unfolding in_queue_def by blast
      then show ?thesis
        unfolding in_queue_def groups nth_group_update [where G = "sc_cr_group sc", OF groups_okD(1) [OF assms(2)] i]
          if_not_P [OF False] by blast
    qed
    moreover have "registered sc' x \<longleftrightarrow> registered sc x \<and> x \<noteq> c"
      using unique [of x] c(2) unfolding registered_def fields(1,3) set_delete_conv by blast
    ultimately show "in_queue sc' g i x \<longleftrightarrow>
        registered sc' x \<and> cr_group_name (sc_store sc' x) = g \<and> cr_priority (sc_store sc' x) = i"
      unfolding groups_okD(3) [OF assms(2) i] fields by blast
  next
    fix g i
    assume i: "i < MAX_PRIO"
    show "distinct (sc_cr_group sc' g ! i)"
      unfolding groups nth_group_update [where G = "sc_cr_group sc", OF groups_okD(1) [OF assms(2)] i]
      using groups_okD(2) [OF assms(2) i] by (auto intro: distinct_remove1)
  qed (simp add: groups groups_okD(1) [OF assms(2)])
  then show ?thesis by (rule that [OF remove ids _ fields(1)])
qed

text \<open>Sequences of operations.\<close>

datatype sched_op = Create int u64 string | Remove u64 | Notify u64

definition sched_apply :: "sched_op \<Rightarrow> scheduler_classic \<Rightarrow> (bool \<times> scheduler_classic) outcome" where
  "sched_apply op sc =
     (case op of
        Create now task_id name \<Rightarrow> SchedulerClassic_DispatchTask (sc_next sc) (new_routine now task_id name sc)
      | Remove crid \<Rightarrow> SchedulerClassic_RemoveCRoutine crid sc
      | Notify crid \<Rightarrow> SchedulerClassic_NotifyProcessor crid sc)"

fun sched_run :: "sched_op list \<Rightarrow> scheduler_classic \<Rightarrow> scheduler_classic outcome" where
  "sched_run [] sc = Inr sc"
| "sched_run (op # ops) sc = bind_outcome (sched_apply op sc) (\<lambda>(ok, sc). sched_run ops sc)"

lemma sched_apply_ok:
  assumes "ids_ok sc" and "groups_ok sc" and "sched_apply op sc = Inr (ok, sc')"
  shows "ids_ok sc' \<and> groups_ok sc'"
proof (cases op)
  case (Create now task_id name)
  let ?sc = "new_routine now task_id name sc"
  have "ids_ok ?sc \<and> groups_ok ?sc"
    by (rule sched_cong [OF _ _ _ _ assms(1,2)]) (simp_all add: new_routine_def)
  moreover have "sc_next sc \<notin> snd ` set (sc_id_cr ?sc)"
    using ids_okD(1) [OF assms(1), of _ "sc_next sc"] by (auto simp: new_routine_def)
  ultimately show ?thesis
    using DispatchTask_ok [of ?sc "sc_next sc" ok sc'] assms(3) Create
    by (simp add: sched_apply_def) (simp add: new_routine_def)
next
  case (Remove crid)
  show ?thesis
  proof (cases "map_of (sc_id_cr sc) crid")
    case None
    then have "sc' = with_id_mutex crid sc"
      using assms(3) Remove by (simp add: sched_apply_def SchedulerClassic_RemoveCRoutine_def Let_def)
    then show ?thesis by (intro sched_cong [OF _ _ _ _ assms(1,2)]) simp_all
  next
    case (Some c)
    obtain sc1 where "SchedulerClassic_RemoveCRoutine crid sc = Inr (True, sc1)" "ids_ok sc1" "groups_ok sc1"
      by (rule RemoveCRoutine_registered [OF assms(1,2) Some])
    then show ?thesis using assms(3) Remove by (simp add: sched_apply_def)
  qed
next
  case (Notify crid)
  then show ?thesis
    using assms(3)
    by (intro sched_cong [OF _ _ _ _ assms(1,2)])
      (auto simp: sched_apply_def SchedulerClassic_NotifyProcessor_def Let_def set_routine_def
        CRoutine_SetUpdateFlag_def split: if_splits option.splits)
qed

lemma sched_run_ok:
  "ids_ok sc \<Longrightarrow> groups_ok sc \<Longrightarrow> sched_run ops sc = Inr sc' \<Longrightarrow> ids_ok sc' \<and> groups_ok sc'"
proof (induction ops arbitrary: sc)
  case (Cons op ops)
  then obtain ok sc1 where step: "sched_apply op sc = Inr (ok, sc1)" "sched_run ops sc1 = Inr sc'"
    by (cases "sched_apply op sc") auto
  then show ?case using Cons.IH [of sc1] sched_apply_ok [OF Cons.prems(1,2) step(1)] by blast
qed simp

text \<open>A new scheduler has no routines.\<close>

definition no_routines :: "'x scheduler_scheme \<Rightarrow> bool" where
  "no_routines sc \<longleftrightarrow> sc_id_cr sc = [] \<and> sc_cr_group sc = (\<lambda>g. replicate MAX_PRIO [])"

lemma no_routines_create_processor:
  "no_routines sc \<Longrightarrow> create_processor ctx cpuset affinity policy prio i sc = Inr sc' \<Longrightarrow> no_routines sc'"
  by (auto simp: create_processor_def no_routines_def Let_def split: option.splits)

lemma no_routines_create_processors:
  "no_routines sc \<Longrightarrow> create_processors ctx cpuset affinity policy prio is sc = Inr sc' \<Longrightarrow> no_routines sc'"
proof (induction "is" arbitrary: sc)
  case (Cons i "is")
  then obtain sc1 where step: "create_processor ctx cpuset affinity policy prio i sc = Inr sc1"
    "create_processors ctx cpuset affinity policy prio is sc1 = Inr sc'"
    by (cases "create_processor ctx cpuset affinity policy prio i sc") auto
  then show ?case using Cons.IH no_routines_create_processor [OF Cons.prems(1) step(1)] by blast
qed simp

lemma no_routines_classic_processors:
  "no_routines sc \<Longrightarrow> classic_processors groups sc = Inr sc' \<Longrightarrow> no_routines sc'"
proof (induction groups arbitrary: sc)
  case (Cons grp groups)
  let ?sc = "if sc_task_pool_size sc = 0 then sc\<lparr>sc_task_pool_size := of_nat (sg_processor_num grp)\<rparr> else sc"
  have "no_routines ?sc" using Cons.prems(1) by (simp add: no_routines_def)
  moreover obtain cpuset sc1 where
    "create_processors (Classic (ClassicContext_new (sg_name grp))) cpuset (sg_affinity grp)
       (sg_processor_policy grp) (sg_processor_prio grp) [0..<sg_processor_num grp] ?sc = Inr sc1"
    "classic_processors groups sc1 = Inr sc'"
    using Cons.prems(2) by (auto simp: bind_outcome_def Let_def split: sum.splits)
  ultimately show ?case using no_routines_create_processors Cons.IH by blast
qed simp

lemma no_routines_new:
  assumes "SchedulerClassic_new cfg n = Inr sc"
  shows "no_routines sc"
proof -
  let ?sc = "scheduler.extend Scheduler_new (scheduler_classic.fields [] [])"
  have "no_routines ?sc"
    by (simp add: no_routines_def Scheduler_new_def scheduler.extend_def)
  moreover obtain sc1 where "SchedulerClassic_CreateProcessor sc1 = Inr sc"
    "sc_id_cr sc1 = sc_id_cr ?sc" "sc_cr_group sc1 = sc_cr_group ?sc"
    using assms
    by (auto simp: SchedulerClassic_new_def Let_def bind_outcome_def process_level_control_def
        Scheduler_ProcessLevelResourceControl_def scheduler.extend_def split: sum.splits option.splits)
  ultimately show ?thesis
    using no_routines_classic_processors [of sc1 "cl_groups sc1" sc]
    by (simp add: no_routines_def SchedulerClassic_CreateProcessor_def)
qed

text \<open>
  C17: After any creations, removals and notifications of tasks, a routine is in the queue of a group
  and priority exactly when it is registered under its id and has that group and priority, no queue has
  a routine twice, and no two registered routines have the same id.
\<close>

theorem classic_queues_consistent:
  assumes "SchedulerClassic_new cfg n = Inr sc0" and "sched_run ops sc0 = Inr sc" and "i < MAX_PRIO"
  shows "distinct (map fst (sc_id_cr sc)) \<and> distinct (sc_cr_group sc g ! i)
    \<and> (c \<in> set (sc_cr_group sc g ! i) \<longleftrightarrow>
         (cr_id (sc_store sc c), c) \<in> set (sc_id_cr sc)
         \<and> cr_group_name (sc_store sc c) = g \<and> cr_priority (sc_store sc c) = i)"
proof -
  have "ids_ok sc0 \<and> groups_ok sc0"
    using no_routines_new [OF assms(1)]
    by (simp add: no_routines_def ids_ok_def groups_ok_def in_queue_def registered_def)
  then have ok: "ids_ok sc" "groups_ok sc" using sched_run_ok assms(2) by blast+
  then show ?thesis
    using groups_okD [OF ok(2)] assms(3) by (simp add: ids_ok_def in_queue_def registered_def)
qed

theorem classic_queues_consistent_witness:
  "\<exists>sc0 sc. SchedulerClassic_new None None = Inr sc0
     \<and> sched_run [Create 0 7 ''a'', Create 0 8 ''b'', Remove 7] sc0 = Inr sc
     \<and> sc_id_cr sc = [(8, 1)] \<and> 0 \<notin> set (sc_cr_group sc DEFAULT_GROUP_NAME ! 0)"
proof -
  have "case SchedulerClassic_new None None of
      Inl e \<Rightarrow> False
    | Inr sc0 \<Rightarrow>
        (case sched_run [Create 0 7 ''a'', Create 0 8 ''b'', Remove 7] sc0 of
           Inl e \<Rightarrow> False
         | Inr sc \<Rightarrow> sc_id_cr sc = [(8, 1)])"
    by code_simp
  then obtain sc0 sc where run: "SchedulerClassic_new None None = Inr sc0"
    "sched_run [Create 0 7 ''a'', Create 0 8 ''b'', Remove 7] sc0 = Inr sc" "sc_id_cr sc = [(8, 1)]"
    by (auto split: sum.splits)
  then have "0 \<notin> set (sc_cr_group sc DEFAULT_GROUP_NAME ! 0)"
    using classic_queues_consistent [OF run(1,2), of 0 DEFAULT_GROUP_NAME 0] by (simp add: MAX_PRIO_def)
  with run show ?thesis by blast
qed

section \<open>A processor that does not exist\<close>

text \<open>The contexts of the choreography come first, those of the pool after them.\<close>

definition contexts_ok :: "'x scheduler_scheme \<Rightarrow> bool" where
  "contexts_ok sc \<longleftrightarrow>
     (\<forall>i < length (sc_pctxs sc). unat (sc_proc_num sc) \<le> i \<longrightarrow> (\<exists>ctx. sc_pctxs sc ! i = Classic ctx))"

lemma with_id_mutex_confs:
  "xl_cr_confs (with_id_mutex crid sc) = xl_cr_confs sc" "sc_proc_num (with_id_mutex crid sc) = sc_proc_num sc"
  "sc_pctxs (with_id_mutex crid sc) = sc_pctxs sc"
  by (simp_all add: with_id_mutex_def split: option.split)

lemma choreography_at_missing:
  assumes "contexts_ok sc" and "int (unat (sc_proc_num sc)) \<le> pid"
  shows "choreography_at pid sc = Inl Undefined"
proof (cases "0 \<le> pid \<and> nat pid < length (sc_pctxs sc)")
  case True
  moreover from True assms(2) have "unat (sc_proc_num sc) \<le> nat pid" by linarith
  ultimately obtain ctx where "sc_pctxs sc ! nat pid = Classic ctx"
    using assms(1) unfolding contexts_ok_def by blast
  with True show ?thesis by (simp add: choreography_at_def)
qed (auto simp: choreography_at_def)

text \<open>
  C33: A task whose configuration names a processor beyond the configured ones is accepted and put
  into the pool, but keeps the number of the processor.  Notifying or removing it then uses that number
  as an index into the contexts, where there is no choreography context.
\<close>

theorem choreography_missing_processor:
  assumes "map_of (xl_cr_confs sc) (cr_name (sc_store sc c)) = Some task" and "xt_processor task = Some p"
    and "int (unat (sc_proc_num sc)) \<le> p" and "p < 2147483648"
    and "map_of (sc_id_cr sc) (cr_id (sc_store sc c)) = None"
    and "contexts_ok sc" and "\<not> sc_stop sc"
  shows "\<exists>sc'. SchedulerChoreography_DispatchTask c sc = Inr (True, sc')
    \<and> SchedulerChoreography_NotifyProcessor (cr_id (sc_store sc c)) sc' = Inl Undefined
    \<and> SchedulerChoreography_RemoveCRoutine (cr_id (sc_store sc c)) sc' = Inl Undefined"
proof -
  let ?crid = "cr_id (sc_store sc c)"
  let ?cr = "(sc_store sc c)\<lparr>cr_priority := xt_prio task, cr_processor_id := p\<rparr>"
  define cr where "cr = (if MAX_PRIO \<le> xt_prio task then ?cr\<lparr>cr_priority := MAX_PRIO - 1\<rparr> else ?cr)
    \<lparr>cr_group_name := DEFAULT_GROUP_NAME\<rparr>"
  have cr: "cr_priority cr < MAX_PRIO" "cr_id cr = ?crid" "cr_processor_id cr = p"
    by (simp_all add: cr_def MAX_PRIO_def)
  have p: "p \<noteq> - 1" "0 \<le> p" using assms(3) by linarith+
  have "uint (word_of_int p :: u32) = p" using p(2) assms(4) by (simp add: uint_word_of_int)
  then have pool: "\<not> (word_of_int p :: u32) < sc_proc_num sc"
    using assms(3) by (simp add: word_less_def flip: uint_nat)
  have conf: "choreography_configure (with_id_mutex ?crid sc) (sc_store sc c) = ?cr"
    using assms(1,2) by (simp add: choreography_configure_def Let_def with_id_mutex_confs)
  define sc' where "sc' = (with_id_mutex ?crid sc)\<lparr>sc_id_cr := AList.update ?crid c (sc_id_cr sc),
      sc_store := (sc_store sc)(c := cr),
      sc_cr_group := (sc_cr_group sc)(DEFAULT_GROUP_NAME :=
        (sc_cr_group sc DEFAULT_GROUP_NAME)[cr_priority cr := sc_cr_group sc DEFAULT_GROUP_NAME ! cr_priority cr @ [c]])\<rparr>"
  have dispatch: "SchedulerChoreography_DispatchTask c sc = Inr (True, sc')"
  proof -
    have "set_routine c cr (set_routine c ?cr (with_id_mutex ?crid sc)\<lparr>sc_id_cr := AList.update ?crid c (sc_id_cr sc)\<rparr>)
        = (with_id_mutex ?crid sc)\<lparr>sc_id_cr := AList.update ?crid c (sc_id_cr sc), sc_store := (sc_store sc)(c := cr)\<rparr>"
      by (simp add: set_routine_def)
    moreover have "(if MAX_PRIO \<le> cr_priority ?cr then ?cr\<lparr>cr_priority := MAX_PRIO - 1\<rparr> else ?cr)
        \<lparr>cr_group_name := DEFAULT_GROUP_NAME\<rparr> = cr"
      by (simp add: cr_def)
    ultimately show ?thesis
      using assms(5) pool cr(1)
      unfolding SchedulerChoreography_DispatchTask_def Let_def conf with_id_mutex_fields
      by (simp add: add_to_group_def sc'_def with_id_mutex_confs set_routine_def)
  qed
  have sc': "map_of (sc_id_cr sc') ?crid = Some c" "sc_store sc' c = cr" "\<not> sc_stop sc'"
    "sc_proc_num sc' = sc_proc_num sc" "sc_pctxs sc' = sc_pctxs sc"
    using assms(7) by (simp_all add: sc'_def update_conv with_id_mutex_confs)
  have missing: "choreography_at p s = Inl Undefined"
    if "sc_proc_num s = sc_proc_num sc" "sc_pctxs s = sc_pctxs sc" for s :: scheduler_choreography
    using choreography_at_missing [of s p] assms(3,6) that by (simp add: contexts_ok_def)
  have "SchedulerChoreography_NotifyProcessor ?crid sc' = Inl Undefined"
    using p(1) sc' by (simp add: SchedulerChoreography_NotifyProcessor_def Let_def cr(3) missing set_routine_def)
  moreover have "SchedulerChoreography_RemoveCRoutine ?crid sc' = Inl Undefined"
    using p(1) sc' cr(3)
    by (simp add: SchedulerChoreography_RemoveCRoutine_def Let_def missing set_routine_def with_id_mutex_confs)
  ultimately show ?thesis using dispatch by blast
qed

definition sample_choreography :: choreography_conf where
  "sample_choreography =
     empty_choreography_conf
       \<lparr>xf_processor_num := 2, xf_pool_processor_num := 1,
        xf_tasks := [(''a'', \<lparr>xt_processor = Some 5, xt_prio = 1\<rparr>)]\<rparr>"

definition sample_missing :: scheduler_choreography where
  "sample_missing =
     new_routine 0 7 ''a''
       (scheduler.extend Scheduler_new (scheduler_choreography.fields (xf_tasks sample_choreography))
          \<lparr>sc_proc_num := 2, sc_task_pool_size := 1,
           sc_pctxs := [Choreography ChoreographyContext_new, Choreography ChoreographyContext_new,
                        Classic (ClassicContext_new DEFAULT_GROUP_NAME)]\<rparr>)"

theorem choreography_missing_processor_witness:
  "\<exists>sc'. SchedulerChoreography_DispatchTask 0 sample_missing = Inr (True, sc')
    \<and> SchedulerChoreography_NotifyProcessor 7 sc' = Inl Undefined
    \<and> SchedulerChoreography_RemoveCRoutine 7 sc' = Inl Undefined"
proof -
  have "map_of (xl_cr_confs sample_missing) (cr_name (sc_store sample_missing 0))
      = Some \<lparr>xt_processor = Some 5, xt_prio = 1\<rparr>"
    "sc_id_cr sample_missing = []" "cr_id (sc_store sample_missing 0) = 7" "\<not> sc_stop sample_missing"
    "sc_proc_num sample_missing = 2"
    by (simp_all add: sample_missing_def new_routine_def scheduler.extend_def scheduler_choreography.fields_def
        Scheduler_new_def sample_choreography_def)
  moreover have "contexts_ok sample_missing"
    by (simp add: contexts_ok_def sample_missing_def new_routine_def scheduler.extend_def nth_Cons split: nat.split)
  ultimately show ?thesis
    using choreography_missing_processor [of sample_missing 0] by simp
qed

section \<open>Removing a task by name\<close>

declare probe.simps [code]


end
