(* ===== verification/Shm.thy ===== *)
theory Shm
  imports Prelude "HOL-Library.AList"
begin

text \<open>
  Shared memory segments (\<open>cyber/transport/shm/shm_conf.cc\<close>, \<open>state.h\<close>, \<open>block.cc\<close>, \<open>segment.cc\<close>).
  A channel has one segment: a state, an array of blocks and one buffer per block.  A writer takes the
  next block that it can lock; when a message does not fit it replaces the segment by one with
  larger buffers and marks the old one, so that readers attach to the new one.

  The memory objects of the operating system are a store; a key leads to at most one of them, and a
  removed object stays valid for those who have it attached.  Creating an object may fail; attaching
  to an existing one does not.  The sizes of the C++ classes are arguments.

  The theory shows that the buffers of a segment lie within its memory and do not overlap, that the
  search for a writable block ends when there is a free block, and two defects: a stale index is
  used after the segment was replaced, and a message that is larger than the largest buffer is
  given a block that is too small.
\<close>

unbundle bit_operations_syntax

section \<open>ShmConf\<close>

abbreviation EXTRA_SIZE :: u64 where "EXTRA_SIZE \<equiv> 1024 * 4"
abbreviation STATE_SIZE :: u64 where "STATE_SIZE \<equiv> 1024"
abbreviation BLOCK_SIZE :: u64 where "BLOCK_SIZE \<equiv> 1024"
abbreviation MESSAGE_INFO_SIZE :: u64 where "MESSAGE_INFO_SIZE \<equiv> 1024"
abbreviation MESSAGE_SIZE_16K :: u64 where "MESSAGE_SIZE_16K \<equiv> 1024 * 16"
abbreviation MESSAGE_SIZE_128K :: u64 where "MESSAGE_SIZE_128K \<equiv> 1024 * 128"
abbreviation MESSAGE_SIZE_1M :: u64 where "MESSAGE_SIZE_1M \<equiv> 1024 * 1024"
abbreviation MESSAGE_SIZE_8M :: u64 where "MESSAGE_SIZE_8M \<equiv> 1024 * 1024 * 8"
abbreviation MESSAGE_SIZE_16M :: u64 where "MESSAGE_SIZE_16M \<equiv> 1024 * 1024 * 16"
abbreviation MESSAGE_SIZE_MORE :: u64 where "MESSAGE_SIZE_MORE \<equiv> 1024 * 1024 * 32"

record shm_conf =
  cf_ceiling_msg_size :: u64
  cf_block_buf_size :: u64
  cf_block_num :: u32
  cf_managed_shm_size :: u64

definition GetCeilingMessageSize :: "u64 \<Rightarrow> u64" where
  "GetCeilingMessageSize real_msg_size =
     (if real_msg_size \<le> MESSAGE_SIZE_16K then MESSAGE_SIZE_16K
      else if real_msg_size \<le> MESSAGE_SIZE_128K then MESSAGE_SIZE_128K
      else if real_msg_size \<le> MESSAGE_SIZE_1M then MESSAGE_SIZE_1M
      else if real_msg_size \<le> MESSAGE_SIZE_8M then MESSAGE_SIZE_8M
      else if real_msg_size \<le> MESSAGE_SIZE_16M then MESSAGE_SIZE_16M
      else MESSAGE_SIZE_MORE)"

abbreviation GetBlockBufSize :: "u64 \<Rightarrow> u64" where
  "GetBlockBufSize ceiling_msg_size \<equiv> ceiling_msg_size + MESSAGE_INFO_SIZE"

definition GetBlockNum :: "u64 \<Rightarrow> u32" where
  "GetBlockNum ceiling_msg_size =
     (if ceiling_msg_size = MESSAGE_SIZE_16K then 512
      else if ceiling_msg_size = MESSAGE_SIZE_128K then 128
      else if ceiling_msg_size = MESSAGE_SIZE_1M then 64
      else if ceiling_msg_size = MESSAGE_SIZE_8M then 32
      else if ceiling_msg_size = MESSAGE_SIZE_16M then 16
      else if ceiling_msg_size = MESSAGE_SIZE_MORE then 8
      else 0)"

definition ShmConf_Update :: "u64 \<Rightarrow> shm_conf" where
  "ShmConf_Update real_msg_size =
     (let ceiling = GetCeilingMessageSize real_msg_size;
          buf = GetBlockBufSize ceiling;
          num = GetBlockNum ceiling
      in \<lparr>cf_ceiling_msg_size = ceiling, cf_block_buf_size = buf, cf_block_num = num,
          cf_managed_shm_size = EXTRA_SIZE + STATE_SIZE + (BLOCK_SIZE + buf) * ucast num\<rparr>)"

abbreviation ShmConf_new :: shm_conf where
  "ShmConf_new \<equiv> ShmConf_Update MESSAGE_SIZE_16K"

section \<open>State and Block\<close>

record shm_state =
  st_need_remap :: bool
  st_wrote_num :: u32
  st_reference_count :: u32
  st_ceiling_msg_size :: u64

definition State_new :: "u64 \<Rightarrow> shm_state" where
  "State_new ceiling_msg_size =
     \<lparr>st_need_remap = False, st_wrote_num = 0, st_reference_count = 0, st_ceiling_msg_size = ceiling_msg_size\<rparr>"

definition State_IncreaseWroteNum :: "shm_state \<Rightarrow> shm_state" where
  "State_IncreaseWroteNum st = st\<lparr>st_wrote_num := st_wrote_num st + 1\<rparr>"

abbreviation State_ResetWroteNum :: "shm_state \<Rightarrow> shm_state" where
  "State_ResetWroteNum st \<equiv> st\<lparr>st_wrote_num := 0\<rparr>"

abbreviation State_DecreaseReferenceCounts :: "shm_state \<Rightarrow> shm_state" where
  "State_DecreaseReferenceCounts st \<equiv>
     (if st_reference_count st = 0 then st else st\<lparr>st_reference_count := st_reference_count st - 1\<rparr>)"

definition State_IncreaseReferenceCounts :: "shm_state \<Rightarrow> shm_state" where
  "State_IncreaseReferenceCounts st = st\<lparr>st_reference_count := st_reference_count st + 1\<rparr>"

text \<open>The lock counter is 0 when free, -1 when written and the number of readers otherwise.\<close>

record shm_block =
  bl_lock_num :: int
  bl_msg_size :: u64
  bl_msg_info_size :: u64

definition Block_new :: shm_block where
  "Block_new = \<lparr>bl_lock_num = 0, bl_msg_size = 0, bl_msg_info_size = 0\<rparr>"

abbreviation kMaxTryLockTimes :: nat where
  "kMaxTryLockTimes \<equiv> 5"

definition Block_TryLockForWrite :: "shm_block \<Rightarrow> bool \<times> shm_block" where
  "Block_TryLockForWrite b = (if bl_lock_num b = 0 then (True, b\<lparr>bl_lock_num := - 1\<rparr>) else (False, b))"

text \<open>
  Reading with interference: before attempt \<open>t\<close> other processes have changed the counter to \<open>cas t\<close>,
  and after a failed attempt it is read as \<open>load t\<close>.  The result is the new value of the counter.
\<close>

fun read_attempts :: "(nat \<Rightarrow> int) \<Rightarrow> (nat \<Rightarrow> int) \<Rightarrow> nat \<Rightarrow> nat \<Rightarrow> int \<Rightarrow> int option" where
  "read_attempts cas load t left lock_num =
     (if cas t = lock_num then Some (lock_num + 1)
      else case left of
             0 \<Rightarrow> None
           | Suc left \<Rightarrow> if load t < 0 then None else read_attempts cas load (Suc t) left (load t))"

declare read_attempts.simps [simp del]

definition Block_TryLockForRead :: "(nat \<Rightarrow> int) \<Rightarrow> (nat \<Rightarrow> int) \<Rightarrow> shm_block \<Rightarrow> bool \<times> shm_block" where
  "Block_TryLockForRead cas load b =
     (if bl_lock_num b < 0 then (False, b)
      else case read_attempts cas load 0 (kMaxTryLockTimes - 1) (bl_lock_num b) of
             None \<Rightarrow> (False, b)
           | Some n \<Rightarrow> (True, b\<lparr>bl_lock_num := n\<rparr>))"

text \<open>Without interference.\<close>

definition try_read :: "shm_block \<Rightarrow> bool \<times> shm_block" where
  "try_read b = Block_TryLockForRead (\<lambda>t. bl_lock_num b) (\<lambda>t. bl_lock_num b) b"

abbreviation Block_ReleaseWriteLock :: "shm_block \<Rightarrow> shm_block" where
  "Block_ReleaseWriteLock b \<equiv> b\<lparr>bl_lock_num := bl_lock_num b + 1\<rparr>"

abbreviation Block_ReleaseReadLock :: "shm_block \<Rightarrow> shm_block" where
  "Block_ReleaseReadLock b \<equiv> b\<lparr>bl_lock_num := bl_lock_num b - 1\<rparr>"

section \<open>Memory objects\<close>

text \<open>Each buffer holds the bytes written to it.\<close>

record shm_object =
  so_size :: u64
  so_state :: shm_state
  so_blocks :: "shm_block list"
  so_bufs :: "string list"

record shm_os =
  os_keys :: "(u32 \<times> nat) list"
  os_objects :: "nat \<Rightarrow> shm_object"
  os_next :: nat
  os_limit :: u64
  os_full :: bool

text \<open>The last result stands for the other errors, such as a full table of segments.\<close>

datatype shmget_result = Shm_id nat | Err_EEXIST | Err_EINVAL | Err_other

definition empty_object :: "u64 \<Rightarrow> shm_object" where
  "empty_object bytes = \<lparr>so_size = bytes, so_state = State_new 0, so_blocks = [], so_bufs = []\<rparr>"

definition shmget_create :: "u32 \<Rightarrow> u64 \<Rightarrow> shm_os \<Rightarrow> shmget_result \<times> shm_os" where
  "shmget_create key bytes os =
     (if map_of (os_keys os) key \<noteq> None then (Err_EEXIST, os)
      else if bytes = 0 \<or> os_limit os < bytes then (Err_EINVAL, os)
      else if os_full os then (Err_other, os)
      else (Shm_id (os_next os),
            os\<lparr>os_keys := (key, os_next os) # os_keys os, os_next := Suc (os_next os),
               os_objects := (os_objects os)(os_next os := empty_object bytes)\<rparr>))"

definition set_object :: "nat \<Rightarrow> shm_object \<Rightarrow> shm_os \<Rightarrow> shm_os" where
  "set_object h ob os = os\<lparr>os_objects := (os_objects os)(h := ob)\<rparr>"

section \<open>Segment\<close>

datatype read_write_mode = READ_ONLY | WRITE_ONLY

record segment =
  sg_init :: bool
  sg_id :: u32
  sg_mode :: read_write_mode
  sg_conf :: shm_conf
  sg_shm :: "nat option"

definition Segment_new :: "u64 \<Rightarrow> read_write_mode \<Rightarrow> segment" where
  "Segment_new channel_id mode =
     \<lparr>sg_init = False, sg_id = ucast channel_id, sg_mode = mode, sg_conf = ShmConf_new, sg_shm = None\<rparr>"

definition Segment_Reset :: "segment \<Rightarrow> segment" where
  "Segment_Reset sg = sg\<lparr>sg_shm := None\<rparr>"

definition Segment_Remove :: "segment \<Rightarrow> shm_os \<Rightarrow> bool \<times> shm_os" where
  "Segment_Remove sg os =
     (case map_of (os_keys os) (sg_id sg) of
        None \<Rightarrow> (False, os)
      | Some h \<Rightarrow> (True, os\<lparr>os_keys := AList.delete (sg_id sg) (os_keys os)\<rparr>))"

definition Segment_OpenOnly :: "segment \<Rightarrow> shm_os \<Rightarrow> bool \<times> segment \<times> shm_os" where
  "Segment_OpenOnly sg os =
     (if sg_init sg then (True, sg, os)
      else
        case map_of (os_keys os) (sg_id sg) of
          None \<Rightarrow> (False, sg, os)
        | Some h \<Rightarrow>
            let ob = os_objects os h
            in (True,
                sg\<lparr>sg_shm := Some h, sg_conf := ShmConf_Update (st_ceiling_msg_size (so_state ob)), sg_init := True\<rparr>,
                set_object h (ob\<lparr>so_state := State_IncreaseReferenceCounts (so_state ob)\<rparr>) os))"

text \<open>The loop that tries to create the memory, at most twice when the size is refused.\<close>

datatype create_result = Created nat | Already_exists | Create_failed

fun create_loop :: "nat \<Rightarrow> segment \<Rightarrow> shm_os \<Rightarrow> create_result \<times> segment \<times> shm_os" where
  "create_loop 0 sg os = (Create_failed, sg, os)"
| "create_loop (Suc tries) sg os =
     (case shmget_create (sg_id sg) (cf_managed_shm_size (sg_conf sg)) os of
        (Shm_id h, os) \<Rightarrow> (Created h, sg, os)
      | (Err_EEXIST, os) \<Rightarrow> (Already_exists, sg, os)
      | (Err_other, os) \<Rightarrow> (Create_failed, sg, os)
      | (Err_EINVAL, os) \<Rightarrow>
          let sg = Segment_Reset sg in create_loop tries sg (snd (Segment_Remove sg os)))"

definition Segment_OpenOrCreate :: "segment \<Rightarrow> shm_os \<Rightarrow> bool \<times> segment \<times> shm_os" where
  "Segment_OpenOrCreate sg os =
     (if sg_init sg then (True, sg, os)
      else
        case create_loop 2 sg os of
          (Create_failed, sg, os) \<Rightarrow> (False, sg, os)
        | (Already_exists, sg, os) \<Rightarrow> Segment_OpenOnly sg os
        | (Created h, sg, os) \<Rightarrow>
            let st = State_new (cf_ceiling_msg_size (sg_conf sg));
                conf = ShmConf_Update (st_ceiling_msg_size st);
                n = unat (cf_block_num conf);
                ob = \<lparr>so_size = so_size (os_objects os h), so_state = State_IncreaseReferenceCounts st,
                      so_blocks = replicate n Block_new, so_bufs = replicate n []\<rparr>
            in (True, sg\<lparr>sg_shm := Some h, sg_conf := conf, sg_init := True\<rparr>, set_object h ob os))"

definition Segment_Init :: "segment \<Rightarrow> shm_os \<Rightarrow> bool \<times> segment \<times> shm_os" where
  "Segment_Init sg os =
     (case sg_mode sg of READ_ONLY \<Rightarrow> Segment_OpenOnly sg os | WRITE_ONLY \<Rightarrow> Segment_OpenOrCreate sg os)"

text \<open>The state of an attached segment; using it when nothing is attached is undefined.\<close>

definition attached :: "segment \<Rightarrow> nat outcome" where
  "attached sg = (case sg_shm sg of None \<Rightarrow> Inl Undefined | Some h \<Rightarrow> Inr h)"

definition Segment_Destroy :: "segment \<Rightarrow> shm_os \<Rightarrow> (bool \<times> segment \<times> shm_os) outcome" where
  "Segment_Destroy sg os =
     (if \<not> sg_init sg then Inr (True, sg, os)
      else
        bind_outcome (attached sg)
          (\<lambda>h. let sg = sg\<lparr>sg_init := False\<rparr>; ob = os_objects os h;
                   st = State_DecreaseReferenceCounts (so_state ob);
                   os = set_object h (ob\<lparr>so_state := st\<rparr>) os
               in if st_reference_count st = 0
                  then (case Segment_Remove sg os of (ok, os) \<Rightarrow> Inr (ok, sg, os))
                  else Inr (True, sg, os)))"

definition Segment_Remap :: "segment \<Rightarrow> shm_os \<Rightarrow> bool \<times> segment \<times> shm_os" where
  "Segment_Remap sg os = Segment_OpenOnly (Segment_Reset (sg\<lparr>sg_init := False\<rparr>)) os"

definition Segment_Recreate :: "segment \<Rightarrow> shm_os \<Rightarrow> (bool \<times> segment \<times> shm_os) outcome" where
  "Segment_Recreate sg os =
     bind_outcome (attached sg)
       (\<lambda>h. let ob = os_objects os h;
                os = set_object h (ob\<lparr>so_state := (so_state ob)\<lparr>st_need_remap := True\<rparr>\<rparr>) os;
                sg = Segment_Reset (sg\<lparr>sg_init := False\<rparr>)
            in Inr (Segment_OpenOrCreate sg (snd (Segment_Remove sg os))))"

text \<open>The search for a block that can be locked; it does not end when every block is taken.\<close>

partial_function (option) next_writable :: "shm_block list \<Rightarrow> u32 \<Rightarrow> u32 \<Rightarrow> (u32 \<times> shm_block list) option" where
  "next_writable blocks block_num try_idx =
     (let try_idx = (if block_num \<le> try_idx then try_idx AND (block_num - 1) else try_idx)
      in case Block_TryLockForWrite (blocks ! unat try_idx) of
           (locked, b) \<Rightarrow>
             if locked then Some (try_idx, blocks[unat try_idx := b])
             else next_writable blocks block_num (try_idx + 1))"

definition Segment_GetNextWritableBlockIndex :: "segment \<Rightarrow> nat \<Rightarrow> shm_os \<Rightarrow> (u32 \<times> shm_os) option" where
  "Segment_GetNextWritableBlockIndex sg h os =
     (let ob = os_objects os h
      in case next_writable (so_blocks ob) (cf_block_num (sg_conf sg)) (st_wrote_num (so_state ob)) of
           None \<Rightarrow> None
         | Some (i, blocks) \<Rightarrow>
             Some (i, set_object h (ob\<lparr>so_blocks := blocks, so_state := State_IncreaseWroteNum (so_state ob)\<rparr>) os))"

text \<open>
  A message is given a block.  The result is \<^const>\<open>None\<close> when the search does not end, and the index
  of the block or a refusal otherwise.
\<close>

definition Segment_AcquireBlockToWrite ::
  "u64 \<Rightarrow> segment \<Rightarrow> shm_os \<Rightarrow> (u32 option \<times> segment \<times> shm_os) outcome option" where
  "Segment_AcquireBlockToWrite msg_size sg os =
     (case (if sg_init sg then (True, sg, os) else Segment_Init sg os) of
        (False, sg, os) \<Rightarrow> Some (Inr (None, sg, os))
      | (True, sg, os) \<Rightarrow>
          (case attached sg of
             Inl e \<Rightarrow> Some (Inl e)
           | Inr h \<Rightarrow>
               (case (if st_need_remap (so_state (os_objects os h)) then Segment_Remap sg os else (True, sg, os)) of
                  (result, sg, os) \<Rightarrow>
                    (case (if cf_ceiling_msg_size (sg_conf sg) < msg_size
                           then Segment_Recreate (sg\<lparr>sg_conf := ShmConf_Update msg_size\<rparr>) os
                           else Inr (result, sg, os)) of
                       Inl e \<Rightarrow> Some (Inl e)
                     | Inr (False, sg, os) \<Rightarrow> Some (Inr (None, sg, os))
                     | Inr (True, sg, os) \<Rightarrow>
                         (case attached sg of
                            Inl e \<Rightarrow> Some (Inl e)
                          | Inr h \<Rightarrow>
                              (case Segment_GetNextWritableBlockIndex sg h os of
                                 None \<Rightarrow> None
                               | Some (i, os) \<Rightarrow> Some (Inr (Some i, sg, os))))))))"

definition update_block ::
  "(shm_block \<Rightarrow> shm_block) \<Rightarrow> u32 \<Rightarrow> segment \<Rightarrow> shm_os \<Rightarrow> shm_os outcome" where
  "update_block f index sg os =
     bind_outcome (attached sg)
       (\<lambda>h. let ob = os_objects os h
            in if unat index < length (so_blocks ob)
               then Inr (set_object h (ob\<lparr>so_blocks := (so_blocks ob)[unat index := f (so_blocks ob ! unat index)]\<rparr>) os)
               else Inl Undefined)"

definition Segment_ReleaseWrittenBlock :: "u32 \<Rightarrow> segment \<Rightarrow> shm_os \<Rightarrow> shm_os outcome" where
  "Segment_ReleaseWrittenBlock index sg os =
     (if cf_block_num (sg_conf sg) \<le> index then Inr os else update_block Block_ReleaseWriteLock index sg os)"

definition Segment_ReleaseReadBlock :: "u32 \<Rightarrow> segment \<Rightarrow> shm_os \<Rightarrow> shm_os outcome" where
  "Segment_ReleaseReadBlock index sg os =
     (if cf_block_num (sg_conf sg) \<le> index then Inr os else update_block Block_ReleaseReadLock index sg os)"

definition Segment_AcquireBlockToRead ::
  "u32 \<Rightarrow> segment \<Rightarrow> shm_os \<Rightarrow> (bool \<times> segment \<times> shm_os) outcome" where
  "Segment_AcquireBlockToRead index sg os =
     (case (if sg_init sg then (True, sg, os) else Segment_Init sg os) of
        (False, sg, os) \<Rightarrow> Inr (False, sg, os)
      | (True, sg, os) \<Rightarrow>
          if cf_block_num (sg_conf sg) \<le> index then Inr (False, sg, os)
          else
            bind_outcome (attached sg)
              (\<lambda>h. case (if st_need_remap (so_state (os_objects os h)) then Segment_Remap sg os else (True, sg, os)) of
                     (False, sg, os) \<Rightarrow> Inr (False, sg, os)
                   | (True, sg, os) \<Rightarrow>
                       bind_outcome (attached sg)
                         (\<lambda>h. let ob = os_objects os h
                              in if unat index < length (so_blocks ob)
                                 then (case try_read (so_blocks ob ! unat index) of
                                         (ok, b) \<Rightarrow>
                                           Inr (ok, sg,
                                             set_object h (ob\<lparr>so_blocks := (so_blocks ob)[unat index := b]\<rparr>) os))
                                 else Inl Undefined)))"

section \<open>The layout of a segment\<close>

text \<open>Where the buffer of a block starts; the arguments are the sizes of the classes \<open>State\<close> and \<open>Block\<close>.\<close>

definition buf_offset :: "nat \<Rightarrow> nat \<Rightarrow> shm_conf \<Rightarrow> nat \<Rightarrow> nat" where
  "buf_offset sizeof_State sizeof_Block conf i =
     sizeof_State + unat (cf_block_num conf) * sizeof_Block + i * unat (cf_block_buf_size conf)"

text \<open>The six configurations.\<close>

definition shm_confs :: "(nat \<times> nat) list" where
  "shm_confs = [(16384, 512), (131072, 128), (1048576, 64), (8388608, 32), (16777216, 16), (33554432, 8)]"

lemma ShmConf_Update_cases:
  "\<exists>(c, num) \<in> set shm_confs.
     unat (cf_ceiling_msg_size (ShmConf_Update n)) = c
     \<and> unat (cf_block_buf_size (ShmConf_Update n)) = c + 1024
     \<and> unat (cf_block_num (ShmConf_Update n)) = num
     \<and> unat (cf_managed_shm_size (ShmConf_Update n)) = 5120 + (2048 + c) * num
     \<and> (unat n \<le> c \<or> c = 33554432)"
  by (simp add: shm_confs_def ShmConf_Update_def GetCeilingMessageSize_def GetBlockNum_def Let_def word_le_nat_alt)

text \<open>
  C24: For every message size, the buffers of the segment that is created for it lie inside the memory
  that is requested and do not overlap, as long as the C++ classes \<open>State\<close> and \<open>Block\<close> are not larger
  than the space reserved for them.  A buffer has room for the message and the 24 bytes of its
  information exactly when the message has at most 32 MiB and 1000 bytes; larger messages are given a
  buffer that is too small.
\<close>

theorem Segment_buffers_fit:
  assumes "sizeof_State \<le> 1024" and "sizeof_Block \<le> 1024" and "conf = ShmConf_Update n"
    and "i < unat (cf_block_num conf)"
  shows "buf_offset sizeof_State sizeof_Block conf i + unat (cf_block_buf_size conf) \<le> unat (cf_managed_shm_size conf)
    \<and> sizeof_State + unat (cf_block_num conf) * sizeof_Block \<le> buf_offset sizeof_State sizeof_Block conf i
    \<and> (\<forall>j < i. buf_offset sizeof_State sizeof_Block conf j + unat (cf_block_buf_size conf)
                 \<le> buf_offset sizeof_State sizeof_Block conf i)
    \<and> (unat n + 24 \<le> unat (cf_block_buf_size conf) \<longleftrightarrow> unat n \<le> 33555432)"
proof -
  obtain c num where conf: "(c, num) \<in> set shm_confs" "unat (cf_block_buf_size conf) = c + 1024"
    "unat (cf_block_num conf) = num" "unat (cf_managed_shm_size conf) = 5120 + (2048 + c) * num"
    "unat n \<le> c \<or> c = 33554432"
    using ShmConf_Update_cases [of n] unfolding assms(3) by blast
  have last: "i * (c + 1024) + (c + 1024) \<le> num * (c + 1024)"
    using mult_le_mono1 [of "Suc i" num "c + 1024"] assms(4) conf(3) by simp
  have "sizeof_State + num * sizeof_Block \<le> 1024 + num * 1024"
    using assms(1,2) by (simp add: add_mono)
  then have "buf_offset sizeof_State sizeof_Block conf i + (c + 1024) \<le> 5120 + (2048 + c) * num"
    using last by (simp add: buf_offset_def conf(2,3) algebra_simps)
  moreover have "buf_offset sizeof_State sizeof_Block conf j + (c + 1024) \<le> buf_offset sizeof_State sizeof_Block conf i"
    if "j < i" for j
    using mult_le_mono1 [of "Suc j" i "c + 1024"] that by (simp add: buf_offset_def conf(2))
  moreover have "unat n + 24 \<le> c + 1024 \<longleftrightarrow> unat n \<le> 33555432"
    using conf(1,5) by (auto simp: shm_confs_def)
  ultimately show ?thesis
    unfolding conf(2,4) by (simp add: buf_offset_def)
qed

theorem Segment_buffers_fit_witness:
  "buf_offset 32 32 (ShmConf_Update 20000) 127 + 132096 \<le> unat (cf_managed_shm_size (ShmConf_Update 20000))"
  using Segment_buffers_fit [of 32 32 _ 20000, OF _ _ refl, of 127]
  by (simp add: ShmConf_Update_def GetCeilingMessageSize_def GetBlockNum_def Let_def)

section \<open>The search for a block ends\<close>

lemma next_writable_free:
  assumes "unat i < unat num" and "bl_lock_num (blocks ! unat i) = 0"
  shows "next_writable blocks num i = Some (i, blocks[unat i := (blocks ! unat i)\<lparr>bl_lock_num := - 1\<rparr>])"
  using assms by (subst next_writable.simps) (simp add: Let_def Block_TryLockForWrite_def word_le_nat_alt)

lemma next_writable_taken:
  assumes "unat i < unat num" and "bl_lock_num (blocks ! unat i) \<noteq> 0"
  shows "next_writable blocks num i = next_writable blocks num (i + 1)"
  using assms by (subst next_writable.simps) (simp add: Let_def Block_TryLockForWrite_def word_le_nat_alt)

lemma u32_of_unat: "unat (i :: u32) = n \<Longrightarrow> i = of_nat n"
  by auto

lemma unat_and_mask: "unat ((i :: u32) AND mask k) = unat i mod 2 ^ k"
  by (simp only: take_bit_eq_mask [symmetric] unsigned_take_bit_eq) (simp only: take_bit_eq_mod)

lemma unat_of_nat_mod: "unat (of_nat (unat (i :: u32) mod n) :: u32) = unat i mod n"
proof -
  have "unat i mod n < 2 ^ 32"
    using unsigned_less [of i, where 'a = nat] mod_less_eq_dividend [of "unat i" n]
    by (simp add: le_less_trans del: mod_less_eq_dividend)
  then show ?thesis by (simp add: unat_of_nat take_bit_eq_mod)
qed

text \<open>The number of blocks is a power of two, so that masking the index is taking the remainder.\<close>

lemma next_writable_wrap:
  assumes "unat num = 2 ^ k" and "k < 32"
  shows "next_writable blocks num i = next_writable blocks num (of_nat (unat i mod unat num))"
proof -
  have "num = of_nat (unat num)" by simp
  then have num: "num = 2 ^ k" by (simp only: assms(1) of_nat_power of_nat_numeral)
  have "num - 1 = mask k" unfolding num by (simp add: mask_eq_exp_minus_1)
  then have "unat (i AND (num - 1)) = unat i mod unat num"
    by (simp only: assms(1) unat_and_mask)
  then have mask: "i AND (num - 1) = of_nat (unat i mod unat num)" by (rule u32_of_unat)
  have small: "unat (of_nat (unat i mod unat num) :: u32) = unat i mod unat num"
    by (rule unat_of_nat_mod)
  then have less: "\<not> num \<le> (of_nat (unat i mod unat num) :: u32)"
    using assms(1) mod_less_divisor [of "2 ^ k" "unat i"] by (simp add: word_le_nat_alt not_le)
  show ?thesis
  proof (cases "num \<le> i")
    case True
    then show ?thesis
      by (subst (1 2) next_writable.simps) (simp add: mask less Let_def)
  next
    case False
    then have "of_nat (unat i mod unat num) = i" by (simp add: word_le_nat_alt)
    then show ?thesis by simp
  qed
qed

text \<open>How far the free block is, going around.\<close>

definition distance :: "nat \<Rightarrow> nat \<Rightarrow> nat \<Rightarrow> nat" where
  "distance n i f = (if i \<le> f then f - i else n - i + f)"

lemma next_writable_search:
  assumes "unat num = 2 ^ k" and "k < 32" and "f < unat num" and "bl_lock_num (blocks ! f) = 0" and "unat i < unat num"
  shows "\<exists>j. next_writable blocks num i = Some (j, blocks[unat j := (blocks ! unat j)\<lparr>bl_lock_num := - 1\<rparr>])
           \<and> unat j < unat num \<and> bl_lock_num (blocks ! unat j) = 0"
  using assms(5)
proof (induction "distance (unat num) (unat i) f" arbitrary: i rule: less_induct)
  case less
  show ?case
  proof (cases "bl_lock_num (blocks ! unat i) = 0")
    case True
    then show ?thesis using next_writable_free [OF less.prems True] less.prems by blast
  next
    case False
    let ?n = "unat num"
    let ?j = "of_nat (unat (i + 1) mod ?n) :: u32"
    have "?n < 2 ^ 32" unfolding assms(1) using assms(2) by (intro power_strict_increasing) simp_all
    then have "unat (i + 1) = Suc (unat i)" using less.prems by (simp add: unat_word_ariths)
    then have j: "unat ?j = Suc (unat i) mod ?n" using unat_of_nat_mod [of "i + 1" ?n] by simp
    have "unat i \<noteq> f" using False assms(4) by auto
    then have "distance ?n (unat ?j) f < distance ?n (unat i) f"
      using less.prems assms(3) unfolding j distance_def by (cases "Suc (unat i) = ?n") auto
    moreover have "unat ?j < ?n" unfolding j using less.prems by simp
    ultimately show ?thesis
      using less.hyps [of ?j] next_writable_taken [OF less.prems False] next_writable_wrap [OF assms(1,2), of blocks "i + 1"]
      by simp
  qed
qed

text \<open>
  Wherever the search for a writable block starts, it ends when at least one block is free, and
  it returns a block that was free and is now locked for writing.  The number of blocks of every
  configuration meets the condition that masking the index with it takes the remainder.
\<close>

theorem writable_block_found:
  assumes "num = cf_block_num (ShmConf_Update n)" and "length blocks = unat num"
    and "f < unat num" and "bl_lock_num (blocks ! f) = 0"
  shows "\<exists>j. next_writable blocks num start = Some (j, blocks[unat j := (blocks ! unat j)\<lparr>bl_lock_num := - 1\<rparr>])
           \<and> unat j < unat num \<and> bl_lock_num (blocks ! unat j) = 0"
proof -
  have "unat num \<in> {2 ^ 9, 2 ^ 7, 2 ^ 6, 2 ^ 5, 2 ^ 4, 2 ^ 3}"
    using ShmConf_Update_cases [of n] unfolding assms(1) shm_confs_def by auto
  then obtain k where k: "unat num = 2 ^ k" "k \<in> {9, 7, 6, 5, 4, 3}" by blast
  then have "k < 32" by auto
  note k = k(1) this
  have "unat (of_nat (unat start mod unat num) :: u32) < unat num"
    using unat_of_nat_mod [of start "unat num"] assms(3) by simp
  from next_writable_search [OF k assms(3,4) this]
  show ?thesis unfolding next_writable_wrap [OF k, of blocks start] .
qed

theorem writable_block_found_witness:
  "\<exists>j blocks. next_writable ((replicate 8 (Block_new\<lparr>bl_lock_num := 1\<rparr>))[5 := Block_new]) 8 4294967295 = Some (j, blocks)
     \<and> j = 5"
proof -
  let ?blocks = "(replicate 8 (Block_new\<lparr>bl_lock_num := 1\<rparr>))[5 := Block_new]"
  have num: "cf_block_num (ShmConf_Update 33554432) = 8"
    by (simp add: ShmConf_Update_def GetCeilingMessageSize_def GetBlockNum_def Let_def)
  obtain j where j: "next_writable ?blocks 8 4294967295 = Some (j, ?blocks[unat j := (?blocks ! unat j)\<lparr>bl_lock_num := - 1\<rparr>])"
    "unat j < 8" "bl_lock_num (?blocks ! unat j) = 0"
    using writable_block_found [OF num [symmetric], of ?blocks 5 4294967295] by (auto simp: Block_new_def)
  then have "unat j = 5" by (cases "unat j = 5") (auto simp: Block_new_def nth_list_update)
  then have "j = 5" using u32_of_unat [of j 5] by simp
  with j(1) show ?thesis by blast
qed

section \<open>A stale block index\<close>

declare next_writable.simps [code]

text \<open>
  C34: A reader checks the index of a block against the configuration it had before it attaches to a
  replaced segment.  If the new segment has fewer blocks, an index beyond them passes the check and is
  used.
\<close>

theorem Segment_stale_index:
  assumes "sg_init sg" and "sg_shm sg = Some h" and "st_need_remap (so_state (os_objects os h))"
    and "map_of (os_keys os) (sg_id sg) = Some h'" and "length (so_blocks (os_objects os h')) \<le> unat index"
    and "unat index < unat (cf_block_num (sg_conf sg))"
  shows "Segment_AcquireBlockToRead index sg os = Inl Undefined"
  using assms
  by (simp add: Segment_AcquireBlockToRead_def attached_def Segment_Remap_def Segment_OpenOnly_def Segment_Reset_def
      Let_def set_object_def State_IncreaseReferenceCounts_def word_le_nat_alt)

text \<open>
  A writer creates the segment for small messages, a reader attaches to it, and the writer sends a
  message of 20000 bytes.
\<close>

definition sample_os :: shm_os where
  "sample_os = \<lparr>os_keys = [], os_objects = (\<lambda>h. empty_object 0), os_next = 0, os_limit = 1073741824, os_full = False\<rparr>"

definition sample_replaced :: "(segment \<times> shm_os) option" where
  "sample_replaced =
     (case Segment_AcquireBlockToWrite 100 (Segment_new 7 WRITE_ONLY) sample_os of
        Some (Inr (Some i, writer, os)) \<Rightarrow>
          (case Segment_ReleaseWrittenBlock i writer os of
             Inr os \<Rightarrow>
               (case Segment_AcquireBlockToRead i (Segment_new 7 READ_ONLY) os of
                  Inr (True, reader, os) \<Rightarrow>
                    (case Segment_ReleaseReadBlock i reader os of
                       Inr os \<Rightarrow>
                         (case Segment_AcquireBlockToWrite 20000 writer os of
                            Some (Inr (Some i, writer, os)) \<Rightarrow> Some (reader, os)
                          | _ \<Rightarrow> None)
                     | _ \<Rightarrow> None)
                | _ \<Rightarrow> None)
           | _ \<Rightarrow> None)
      | _ \<Rightarrow> None)"

theorem Segment_stale_index_witness:
  "\<exists>reader os. sample_replaced = Some (reader, os) \<and> Segment_AcquireBlockToRead 300 reader os = Inl Undefined"
proof -
  have "case sample_replaced of
      None \<Rightarrow> False
    | Some (sg, os) \<Rightarrow>
        sg_init sg \<and> sg_shm sg = Some 0 \<and> st_need_remap (so_state (os_objects os 0))
        \<and> map_of (os_keys os) (sg_id sg) = Some 1 \<and> length (so_blocks (os_objects os 1)) = 128
        \<and> cf_block_num (sg_conf sg) = 512"
    by code_simp
  then obtain sg os where s: "sample_replaced = Some (sg, os)"
    "sg_init sg" "sg_shm sg = Some 0" "st_need_remap (so_state (os_objects os 0))"
    "map_of (os_keys os) (sg_id sg) = Some 1" "length (so_blocks (os_objects os 1)) = 128"
    "cf_block_num (sg_conf sg) = 512"
    by (auto split: option.splits)
  then have "Segment_AcquireBlockToRead 300 sg os = Inl Undefined"
    by (intro Segment_stale_index [of sg 0 os 1]) simp_all
  with s(1) show ?thesis by blast
qed

end
