(* ===== verification/Messages.thy ===== *)
theory Messages
  imports StdString
begin

text \<open>
  What travels with a message: the identity of an endpoint (\<open>cyber/transport/common/identity.cc\<close>), the
  information about a message (\<open>message/message_info.cc\<close>), the notice which block of shared memory
  to read (\<open>shm/readable_info.cc\<close>), and the messages a sender keeps for readers that come later
  (\<open>message/history.h\<close>).

  Numbers are copied byte by byte, the lowest byte first, as on the machines the program is built
  for.  The hash function \<open>common::Hash\<close> is an argument.  The theory shows that what was serialized is read
  back, and that a history holds the last messages up to its depth.
\<close>

section \<open>Bytes of numbers\<close>

fun le_bytes :: "nat \<Rightarrow> nat \<Rightarrow> string" where
  "le_bytes 0 v = []"
| "le_bytes (Suc n) v = char_of (v mod 256) # le_bytes n (v div 256)"

fun le_value :: "string \<Rightarrow> nat" where
  "le_value [] = 0"
| "le_value (c # cs) = of_char c + 256 * le_value cs"

lemma length_le_bytes [simp]: "length (le_bytes n v) = n"
  by (induction n arbitrary: v) simp_all

lemma le_value_bytes: "le_value (le_bytes n v) = v mod 256 ^ n"
proof (induction n arbitrary: v)
  case (Suc n)
  have "v mod (256 * 256 ^ n) = 256 * (v div 256 mod 256 ^ n) + v mod 256"
    by (rule mod_mult2_eq)
  then show ?case using Suc by (simp add: of_char_of)
qed simp

lemma le_value_u64 [simp]: "of_nat (le_value (le_bytes 8 (unat (w :: u64)))) = w"
proof -
  have "unat w < 256 ^ 8" using unat_u64_bound [of w] by simp
  then show ?thesis by (simp add: le_value_bytes)
qed

lemma le_value_u32 [simp]: "of_nat (le_value (le_bytes 4 (unat (w :: u32)))) = w"
proof -
  have "unat w < 256 ^ 4" using unsigned_less [of w, where 'a = nat] by simp
  then show ?thesis by (simp add: le_value_bytes)
qed

section \<open>Identity\<close>

definition ID_SIZE :: nat where
  "ID_SIZE = 8"

record identity =
  id_data :: string
  id_hash_value :: u64
  id_hash_value_str :: string

definition Identity_Update :: "(string \<Rightarrow> u64) \<Rightarrow> identity \<Rightarrow> identity" where
  "Identity_Update Hash i =
     (let h = Hash (id_data i) in i\<lparr>id_hash_value := h, id_hash_value_str := to_string (uint h)\<rparr>)"

text \<open>The argument is the generated UUID when one is wanted; its first bytes are used.\<close>

definition Identity_new :: "(string \<Rightarrow> u64) \<Rightarrow> string option \<Rightarrow> identity" where
  "Identity_new Hash uuid =
     (let i = \<lparr>id_data = replicate ID_SIZE (CHR 0x00), id_hash_value = 0, id_hash_value_str = []\<rparr>
      in case uuid of
           None \<Rightarrow> i
         | Some u \<Rightarrow> Identity_Update Hash (i\<lparr>id_data := take ID_SIZE u\<rparr>))"

definition Identity_set_data :: "(string \<Rightarrow> u64) \<Rightarrow> string \<Rightarrow> identity \<Rightarrow> identity" where
  "Identity_set_data Hash bytes i = Identity_Update Hash (i\<lparr>id_data := take ID_SIZE bytes\<rparr>)"

text \<open>The comparison operator looks at the bytes only.\<close>

abbreviation Identity_eq :: "identity \<Rightarrow> identity \<Rightarrow> bool" where
  "Identity_eq i j \<equiv> id_data i = id_data j"

definition identity_ok :: "(string \<Rightarrow> u64) \<Rightarrow> identity \<Rightarrow> bool" where
  "identity_ok Hash i \<longleftrightarrow>
     length (id_data i) = ID_SIZE \<and> id_hash_value i = Hash (id_data i)
     \<and> id_hash_value_str i = to_string (uint (id_hash_value i))"

lemma Identity_new_ok: "ID_SIZE \<le> length u \<Longrightarrow> identity_ok Hash (Identity_new Hash (Some u))"
  by (simp add: identity_ok_def Identity_new_def Identity_Update_def Let_def)

lemma Identity_set_data_ok: "ID_SIZE \<le> length bytes \<Longrightarrow> identity_ok Hash (Identity_set_data Hash bytes i)"
  by (simp add: identity_ok_def Identity_set_data_def Identity_Update_def Let_def)

text \<open>Reading the bytes of an identity gives it back, whatever was there before.\<close>

lemma Identity_set_data_same: "identity_ok Hash i \<Longrightarrow> Identity_set_data Hash (id_data i @ rest) j = i"
  by (simp add: identity_ok_def Identity_set_data_def Identity_Update_def Let_def)

text \<open>
  An identity that was not generated has the hash value 0; the same bytes received from elsewhere
  have the hash value of the bytes, although both compare as equal.
\<close>

lemma Identity_default_hash:
  "Identity_eq (Identity_set_data Hash (id_data (Identity_new Hash None)) i) (Identity_new Hash None)
   \<and> id_hash_value (Identity_new Hash None) = 0
   \<and> id_hash_value (Identity_set_data Hash (id_data (Identity_new Hash None)) i) = Hash (replicate ID_SIZE (CHR 0x00))"
  by (simp add: Identity_set_data_def Identity_new_def Identity_Update_def Let_def)

section \<open>ReadableInfo\<close>

record readable_info =
  ri_host_id :: u64
  ri_block_index :: u32
  ri_channel_id :: u64

abbreviation ReadableInfo_new :: readable_info where
  "ReadableInfo_new \<equiv> \<lparr>ri_host_id = 0, ri_block_index = 0, ri_channel_id = 0\<rparr>"

abbreviation ReadableInfo_kSize :: nat where
  "ReadableInfo_kSize \<equiv> 8 * 2 + 4"

definition ReadableInfo_SerializeTo :: "readable_info \<Rightarrow> string" where
  "ReadableInfo_SerializeTo info =
     le_bytes 8 (unat (ri_host_id info)) @ le_bytes 4 (unat (ri_block_index info))
     @ le_bytes 8 (unat (ri_channel_id info))"

definition ReadableInfo_DeserializeFrom :: "string \<Rightarrow> nat \<Rightarrow> readable_info option" where
  "ReadableInfo_DeserializeFrom src len =
     (if len \<noteq> ReadableInfo_kSize then None
      else Some \<lparr>ri_host_id = of_nat (le_value (take 8 src)),
                 ri_block_index = of_nat (le_value (take 4 (drop 8 src))),
                 ri_channel_id = of_nat (le_value (take 8 (drop 12 src)))\<rparr>)"

lemma length_ReadableInfo_SerializeTo [simp]: "length (ReadableInfo_SerializeTo info) = ReadableInfo_kSize"
  by (simp add: ReadableInfo_SerializeTo_def)

lemma ReadableInfo_roundtrip:
  "ReadableInfo_DeserializeFrom (ReadableInfo_SerializeTo info) ReadableInfo_kSize = Some info"
  by (simp add: ReadableInfo_DeserializeFrom_def ReadableInfo_SerializeTo_def)

section \<open>MessageInfo\<close>

record message_info =
  mi_sender_id :: identity
  mi_seq_num :: u64
  mi_spare_id :: identity

definition MessageInfo_new :: "(string \<Rightarrow> u64) \<Rightarrow> message_info" where
  "MessageInfo_new Hash =
     \<lparr>mi_sender_id = Identity_new Hash None, mi_seq_num = 0, mi_spare_id = Identity_new Hash None\<rparr>"

abbreviation MessageInfo_eq :: "message_info \<Rightarrow> message_info \<Rightarrow> bool" where
  "MessageInfo_eq a b \<equiv>
     Identity_eq (mi_sender_id a) (mi_sender_id b) \<and> mi_seq_num a = mi_seq_num b
     \<and> Identity_eq (mi_spare_id a) (mi_spare_id b)"

definition MessageInfo_kSize :: nat where
  "MessageInfo_kSize = 2 * ID_SIZE + 8"

definition MessageInfo_bytes :: "message_info \<Rightarrow> string" where
  "MessageInfo_bytes info =
     id_data (mi_sender_id info) @ le_bytes 8 (unat (mi_seq_num info)) @ id_data (mi_spare_id info)"

text \<open>Writing to memory of a given length.\<close>

definition MessageInfo_SerializeTo :: "message_info \<Rightarrow> nat \<Rightarrow> string option" where
  "MessageInfo_SerializeTo info len = (if len < MessageInfo_kSize then None else Some (MessageInfo_bytes info))"

definition MessageInfo_DeserializeFrom ::
  "(string \<Rightarrow> u64) \<Rightarrow> string \<Rightarrow> nat \<Rightarrow> message_info \<Rightarrow> message_info option" where
  "MessageInfo_DeserializeFrom Hash src len info =
     (if len \<noteq> MessageInfo_kSize then None
      else Some \<lparr>mi_sender_id = Identity_set_data Hash src (mi_sender_id info),
                 mi_seq_num = of_nat (le_value (take 8 (drop ID_SIZE src))),
                 mi_spare_id = Identity_set_data Hash (drop (ID_SIZE + 8) src) (mi_spare_id info)\<rparr>)"

definition info_ok :: "(string \<Rightarrow> u64) \<Rightarrow> message_info \<Rightarrow> bool" where
  "info_ok Hash info \<longleftrightarrow> identity_ok Hash (mi_sender_id info) \<and> length (id_data (mi_spare_id info)) = ID_SIZE"

text \<open>What the receiver gets: the spare identity has the hash value of its bytes.\<close>

definition received_info :: "(string \<Rightarrow> u64) \<Rightarrow> message_info \<Rightarrow> message_info" where
  "received_info Hash info = info\<lparr>mi_spare_id := Identity_Update Hash (mi_spare_id info)\<rparr>"

lemma length_MessageInfo_bytes [simp]: "info_ok Hash info \<Longrightarrow> length (MessageInfo_bytes info) = MessageInfo_kSize"
  by (simp add: MessageInfo_bytes_def info_ok_def identity_ok_def MessageInfo_kSize_def)

lemma Identity_Update_any:
  "id_data i = id_data j \<Longrightarrow> Identity_Update Hash i = Identity_Update Hash j"
  by (cases i; cases j) (simp add: Identity_Update_def Let_def)

lemma MessageInfo_roundtrip:
  assumes "info_ok Hash info"
  shows "MessageInfo_DeserializeFrom Hash (MessageInfo_bytes info @ rest) MessageInfo_kSize start
           = Some (received_info Hash info)
    \<and> MessageInfo_eq (received_info Hash info) info"
proof -
  have len: "length (id_data (mi_sender_id info)) = 8" "length (id_data (mi_spare_id info)) = 8"
    using assms by (simp_all add: info_ok_def identity_ok_def ID_SIZE_def)
  have "Identity_set_data Hash (id_data (mi_spare_id info) @ rest) (mi_spare_id start)
      = Identity_Update Hash (mi_spare_id info)"
    unfolding Identity_set_data_def by (rule Identity_Update_any) (simp add: len ID_SIZE_def)
  moreover have "Identity_set_data Hash (id_data (mi_sender_id info) @ tail) (mi_sender_id start) = mi_sender_id info" for tail
    using assms by (intro Identity_set_data_same) (simp add: info_ok_def)
  ultimately show ?thesis
    by (simp add: MessageInfo_DeserializeFrom_def MessageInfo_bytes_def len ID_SIZE_def received_info_def
        Identity_Update_def Let_def)
qed

section \<open>History\<close>

datatype history_policy = HISTORY_SYSTEM_DEFAULT | HISTORY_KEEP_LAST | HISTORY_KEEP_ALL

record 'm history =
  hi_enabled :: bool
  hi_depth :: u32
  hi_max_depth :: u32
  hi_msgs :: "('m \<times> message_info) list"

text \<open>The first argument is the limit of the configuration, when it has one.\<close>

definition History_new :: "u32 option \<Rightarrow> history_policy \<Rightarrow> u32 \<Rightarrow> 'm history" where
  "History_new max_history_depth policy attr_depth =
     (let max_depth = (case max_history_depth of None \<Rightarrow> 1000 | Some d \<Rightarrow> d)
      in \<lparr>hi_enabled = False,
          hi_depth =
            (if policy = HISTORY_KEEP_ALL then max_depth
             else if max_depth < attr_depth then max_depth else attr_depth),
          hi_max_depth = max_depth, hi_msgs = []\<rparr>)"

abbreviation History_Enable :: "'m history \<Rightarrow> 'm history" where
  "History_Enable h \<equiv> h\<lparr>hi_enabled := True\<rparr>"

abbreviation History_Disable :: "'m history \<Rightarrow> 'm history" where
  "History_Disable h \<equiv> h\<lparr>hi_enabled := False\<rparr>"

fun pop_to_depth :: "nat \<Rightarrow> 'a list \<Rightarrow> 'a list" where
  "pop_to_depth depth [] = []"
| "pop_to_depth depth (x # xs) = (if depth < length (x # xs) then pop_to_depth depth xs else x # xs)"

definition History_Add :: "'m \<Rightarrow> message_info \<Rightarrow> 'm history \<Rightarrow> 'm history" where
  "History_Add msg info h =
     (if \<not> hi_enabled h then h
      else h\<lparr>hi_msgs := pop_to_depth (unat (hi_depth h)) (hi_msgs h @ [(msg, info)])\<rparr>)"

abbreviation History_Clear :: "'m history \<Rightarrow> 'm history" where
  "History_Clear h \<equiv> h\<lparr>hi_msgs := []\<rparr>"

text \<open>The messages are put in front of those that the caller's vector holds.\<close>

abbreviation History_GetCachedMessage :: "'m history \<Rightarrow> ('m \<times> message_info) list \<Rightarrow> ('m \<times> message_info) list" where
  "History_GetCachedMessage h msgs \<equiv> hi_msgs h @ msgs"

abbreviation History_GetSize :: "'m history \<Rightarrow> nat" where
  "History_GetSize h \<equiv> length (hi_msgs h)"

lemma pop_to_depth_drop: "pop_to_depth depth xs = drop (length xs - depth) xs"
  by (induction xs) (auto simp: Suc_diff_le)

text \<open>An enabled history holds the last messages, at most as many as its depth.\<close>

lemma History_keeps_last:
  assumes "hi_enabled h" and "hi_msgs h = []"
  shows "hi_msgs (fold (\<lambda>(msg, info). History_Add msg info) ms h) = drop (length ms - unat (hi_depth h)) ms
    \<and> hi_enabled (fold (\<lambda>(msg, info). History_Add msg info) ms h)
    \<and> hi_depth (fold (\<lambda>(msg, info). History_Add msg info) ms h) = hi_depth h"
proof (induction ms rule: rev_induct)
  case Nil
  then show ?case using assms by simp
next
  case (snoc m ms)
  obtain msg info where m: "m = (msg, info)" by fastforce
  let ?d = "unat (hi_depth h)"
  have "drop (Suc (length ms - (length ms - ?d)) - ?d) (drop (length ms - ?d) ms @ [m])
      = drop (Suc (length ms) - ?d) (ms @ [m])"
    by (cases "length ms < ?d") (auto simp: drop_append Suc_diff_le)
  then show ?case using snoc by (simp add: m History_Add_def pop_to_depth_drop)
qed

lemma History_depth_bounded: "hi_depth (History_new limit policy depth) \<le> hi_max_depth (History_new limit policy depth)"
  by (simp add: History_new_def Let_def not_less)

end
