(* ===== verification/Dispatching.thy ===== *)
theory Dispatching
  imports Messages "HOL-Library.AList"
begin

text \<open>
  How a received message reaches the listeners of a channel: signals with slots
  (\<open>cyber/base/signal.h\<close>), the listeners of one channel (\<open>cyber/transport/message/listener_handler.h\<close>)
  and the table of all channels (\<open>cyber/transport/dispatcher/dispatcher.h\<close>), with the dispatcher for
  messages inside the process (\<open>intra_dispatcher.h\<close>).

  Running a signal gives the callbacks that are called, in order; a callback does not connect or
  disconnect slots of the same signal while it runs.  The table of channels is an association list; its
  implementation is verified in the theory on the hash map.

  The theory shows that the machinery of slots, connections and per-sender signals implements a
  list of subscriptions per sender: a message is given exactly to those who listen to everybody
  and to those who listen to its sender, in the order in which they connected.
\<close>

section \<open>Signals\<close>

text \<open>A slot is shared by the signal and the connections to it; the number of a slot stands for its address.\<close>

record 'l slot =
  sl_cb :: "'l option"
  sl_connected :: bool

record 'l signal =
  si_slots :: "nat list"
  si_heap :: "nat \<Rightarrow> 'l slot"
  si_next :: nat

definition Signal_new :: "'l signal" where
  "Signal_new = \<lparr>si_slots = [], si_heap = (\<lambda>k. \<lparr>sl_cb = None, sl_connected = False\<rparr>), si_next = 0\<rparr>"

definition Slot_call :: "'l slot \<Rightarrow> 'l list" where
  "Slot_call s = (if sl_connected s then case sl_cb s of None \<Rightarrow> [] | Some cb \<Rightarrow> [cb] else [])"

definition Slot_Disconnect :: "'l slot \<Rightarrow> 'l slot" where
  "Slot_Disconnect s = s\<lparr>sl_connected := False\<rparr>"

definition Signal_ClearDisconnectedSlots :: "'l signal \<Rightarrow> 'l signal" where
  "Signal_ClearDisconnectedSlots s = s\<lparr>si_slots := filter (\<lambda>k. sl_connected (si_heap s k)) (si_slots s)\<rparr>"

definition Signal_call :: "'l signal \<Rightarrow> 'l list \<times> 'l signal" where
  "Signal_call s = (concat (map (\<lambda>k. Slot_call (si_heap s k)) (si_slots s)), Signal_ClearDisconnectedSlots s)"

text \<open>A connection is the slot it was made for; the signal it belongs to is the one it is stored with.\<close>

definition Signal_Connect :: "'l option \<Rightarrow> 'l signal \<Rightarrow> nat \<times> 'l signal" where
  "Signal_Connect cb s =
     (si_next s,
      s\<lparr>si_slots := si_slots s @ [si_next s],
        si_heap := (si_heap s)(si_next s := \<lparr>sl_cb = cb, sl_connected = True\<rparr>),
        si_next := Suc (si_next s)\<rparr>)"

abbreviation Connection_IsConnected :: "nat \<Rightarrow> 'l signal \<Rightarrow> bool" where
  "Connection_IsConnected k s \<equiv> sl_connected (si_heap s k)"

definition Signal_Disconnect :: "nat \<Rightarrow> 'l signal \<Rightarrow> bool \<times> 'l signal" where
  "Signal_Disconnect k s =
     (if k \<in> set (si_slots s)
      then (True, Signal_ClearDisconnectedSlots (s\<lparr>si_heap := (si_heap s)(k := Slot_Disconnect (si_heap s k))\<rparr>))
      else (False, s))"

definition Signal_DisconnectAllSlots :: "'l signal \<Rightarrow> 'l signal" where
  "Signal_DisconnectAllSlots s =
     s\<lparr>si_heap := (\<lambda>k. if k \<in> set (si_slots s) then Slot_Disconnect (si_heap s k) else si_heap s k), si_slots := []\<rparr>"

section \<open>The listeners of a channel\<close>

datatype message_type = RawMessage | Message_type string

record 'l listener_handler =
  lh_type :: message_type
  lh_signal :: "'l signal"
  lh_signal_conns :: "(u64 \<times> nat) list"
  lh_signals :: "(u64 \<times> 'l signal) list"
  lh_signals_conns :: "(u64 \<times> (u64 \<times> nat) list) list"

definition ListenerHandler_new :: "message_type \<Rightarrow> 'l listener_handler" where
  "ListenerHandler_new t =
     \<lparr>lh_type = t, lh_signal = Signal_new, lh_signal_conns = [], lh_signals = [], lh_signals_conns = []\<rparr>"

abbreviation IsRawMessage :: "'l listener_handler \<Rightarrow> bool" where
  "IsRawMessage h \<equiv> lh_type h = RawMessage"

definition ListenerHandler_Connect :: "u64 \<Rightarrow> 'l option \<Rightarrow> 'l listener_handler \<Rightarrow> 'l listener_handler" where
  "ListenerHandler_Connect self_id listener h =
     (case Signal_Connect listener (lh_signal h) of
        (connection, s) \<Rightarrow>
          let h = h\<lparr>lh_signal := s\<rparr>
          in if \<not> Connection_IsConnected connection s then h
             else h\<lparr>lh_signal_conns := AList.update self_id connection (lh_signal_conns h)\<rparr>)"

definition found :: "('k \<times> 'v) list \<Rightarrow> 'k \<Rightarrow> 'v \<Rightarrow> 'v" where
  "found m k dflt = (case map_of m k of None \<Rightarrow> dflt | Some v \<Rightarrow> v)"

definition ListenerHandler_Connect_to :: "u64 \<Rightarrow> u64 \<Rightarrow> 'l option \<Rightarrow> 'l listener_handler \<Rightarrow> 'l listener_handler" where
  "ListenerHandler_Connect_to self_id oppo_id listener h =
     (case Signal_Connect listener (found (lh_signals h) oppo_id Signal_new) of
        (connection, s) \<Rightarrow>
          let h = h\<lparr>lh_signals := AList.update oppo_id s (lh_signals h)\<rparr>
          in if \<not> Connection_IsConnected connection s then h
             else
               h\<lparr>lh_signals_conns :=
                   AList.update oppo_id (AList.update self_id connection (found (lh_signals_conns h) oppo_id []))
                     (lh_signals_conns h)\<rparr>)"

definition ListenerHandler_Disconnect :: "u64 \<Rightarrow> 'l listener_handler \<Rightarrow> 'l listener_handler" where
  "ListenerHandler_Disconnect self_id h =
     (case map_of (lh_signal_conns h) self_id of
        None \<Rightarrow> h
      | Some connection \<Rightarrow>
          h\<lparr>lh_signal := snd (Signal_Disconnect connection (lh_signal h)),
            lh_signal_conns := AList.delete self_id (lh_signal_conns h)\<rparr>)"

definition ListenerHandler_Disconnect_from :: "u64 \<Rightarrow> u64 \<Rightarrow> 'l listener_handler \<Rightarrow> 'l listener_handler" where
  "ListenerHandler_Disconnect_from self_id oppo_id h =
     (case map_of (lh_signals_conns h) oppo_id of
        None \<Rightarrow> h
      | Some conns \<Rightarrow>
          (case map_of conns self_id of
             None \<Rightarrow> h
           | Some connection \<Rightarrow>
               h\<lparr>lh_signals :=
                   AList.update oppo_id (snd (Signal_Disconnect connection (found (lh_signals h) oppo_id Signal_new)))
                     (lh_signals h),
                 lh_signals_conns := AList.update oppo_id (AList.delete self_id conns) (lh_signals_conns h)\<rparr>))"

definition ListenerHandler_Run :: "message_info \<Rightarrow> 'l listener_handler \<Rightarrow> 'l list \<times> 'l listener_handler" where
  "ListenerHandler_Run info h =
     (case Signal_call (lh_signal h) of
        (called, s) \<Rightarrow>
          let h = h\<lparr>lh_signal := s\<rparr>; oppo_id = id_hash_value (mi_sender_id info)
          in case map_of (lh_signals h) oppo_id of
               None \<Rightarrow> (called, h)
             | Some s \<Rightarrow>
                 (case Signal_call s of
                    (called', s) \<Rightarrow> (called @ called', h\<lparr>lh_signals := AList.update oppo_id s (lh_signals h)\<rparr>)))"

section \<open>The dispatcher\<close>

record 'l dispatcher =
  di_is_shutdown :: bool
  di_msg_listeners :: "(u64 \<times> 'l listener_handler) list"

definition Dispatcher_new :: "'l dispatcher" where
  "Dispatcher_new = \<lparr>di_is_shutdown = False, di_msg_listeners = []\<rparr>"

abbreviation Dispatcher_Shutdown :: "('l, 'd) dispatcher_scheme \<Rightarrow> ('l, 'd) dispatcher_scheme" where
  "Dispatcher_Shutdown d \<equiv> d\<lparr>di_is_shutdown := True\<rparr>"

abbreviation Dispatcher_HasChannel :: "u64 \<Rightarrow> ('l, 'd) dispatcher_scheme \<Rightarrow> bool" where
  "Dispatcher_HasChannel channel_id d \<equiv> map_of (di_msg_listeners d) channel_id \<noteq> None"

text \<open>The handler to connect to: the one of the channel, a new one, or none when its type differs.\<close>

definition handler_for :: "message_type \<Rightarrow> u64 \<Rightarrow> ('l, 'd) dispatcher_scheme \<Rightarrow> 'l listener_handler option" where
  "handler_for t channel_id d =
     (case map_of (di_msg_listeners d) channel_id of
        None \<Rightarrow> Some (ListenerHandler_new t)
      | Some h \<Rightarrow> if lh_type h = t then Some h else None)"

definition Dispatcher_AddListener ::
  "message_type \<Rightarrow> u64 \<Rightarrow> u64 \<Rightarrow> 'l option \<Rightarrow> ('l, 'd) dispatcher_scheme \<Rightarrow> ('l, 'd) dispatcher_scheme" where
  "Dispatcher_AddListener t channel_id self_id listener d =
     (if di_is_shutdown d then d
      else
        case handler_for t channel_id d of
          None \<Rightarrow> d
        | Some h \<Rightarrow>
            d\<lparr>di_msg_listeners :=
                AList.update channel_id (ListenerHandler_Connect self_id listener h) (di_msg_listeners d)\<rparr>)"

definition Dispatcher_AddListener_to ::
  "message_type \<Rightarrow> u64 \<Rightarrow> u64 \<Rightarrow> u64 \<Rightarrow> 'l option \<Rightarrow> ('l, 'd) dispatcher_scheme \<Rightarrow> ('l, 'd) dispatcher_scheme" where
  "Dispatcher_AddListener_to t channel_id self_id oppo_id listener d =
     (if di_is_shutdown d then d
      else
        case handler_for t channel_id d of
          None \<Rightarrow> d
        | Some h \<Rightarrow>
            d\<lparr>di_msg_listeners :=
                AList.update channel_id (ListenerHandler_Connect_to self_id oppo_id listener h) (di_msg_listeners d)\<rparr>)"

definition Dispatcher_RemoveListener ::
  "u64 \<Rightarrow> u64 \<Rightarrow> ('l, 'd) dispatcher_scheme \<Rightarrow> ('l, 'd) dispatcher_scheme" where
  "Dispatcher_RemoveListener channel_id self_id d =
     (if di_is_shutdown d then d
      else
        case map_of (di_msg_listeners d) channel_id of
          None \<Rightarrow> d
        | Some h \<Rightarrow>
            d\<lparr>di_msg_listeners := AList.update channel_id (ListenerHandler_Disconnect self_id h) (di_msg_listeners d)\<rparr>)"

definition Dispatcher_RemoveListener_from ::
  "u64 \<Rightarrow> u64 \<Rightarrow> u64 \<Rightarrow> ('l, 'd) dispatcher_scheme \<Rightarrow> ('l, 'd) dispatcher_scheme" where
  "Dispatcher_RemoveListener_from channel_id self_id oppo_id d =
     (if di_is_shutdown d then d
      else
        case map_of (di_msg_listeners d) channel_id of
          None \<Rightarrow> d
        | Some h \<Rightarrow>
            d\<lparr>di_msg_listeners :=
                AList.update channel_id (ListenerHandler_Disconnect_from self_id oppo_id h) (di_msg_listeners d)\<rparr>)"

text \<open>A message within the process; listeners for raw messages get its serialized form.\<close>

datatype 'm payload = Typed 'm | Raw string

definition IntraDispatcher_OnMessage ::
  "('m \<Rightarrow> string) \<Rightarrow> message_type \<Rightarrow> u64 \<Rightarrow> 'm \<Rightarrow> message_info \<Rightarrow> 'l dispatcher \<Rightarrow>
     ('l \<times> 'm payload \<times> message_info) list \<times> 'l dispatcher" where
  "IntraDispatcher_OnMessage SerializeToString t channel_id msg info d =
     (if di_is_shutdown d then ([], d)
      else
        case map_of (di_msg_listeners d) channel_id of
          None \<Rightarrow> ([], d)
        | Some h \<Rightarrow>
            if \<not> IsRawMessage h \<and> lh_type h \<noteq> t then ([], d)
            else
              case ListenerHandler_Run info h of
                (called, h) \<Rightarrow>
                  (map (\<lambda>l. (l, if IsRawMessage h then Raw (SerializeToString msg) else Typed msg, info)) called,
                   d\<lparr>di_msg_listeners := AList.update channel_id h (di_msg_listeners d)\<rparr>))"

section \<open>Subscriptions\<close>

text \<open>
  The specification of one signal: the subscriptions in the order in which they were made, each with
  the reader that can still cancel it.  A reader that connects again can cancel only its new
  subscription.
\<close>

type_synonym 'l subscriptions = "(u64 option \<times> 'l option) list"

definition subscribe :: "u64 \<Rightarrow> 'l option \<Rightarrow> 'l subscriptions \<Rightarrow> 'l subscriptions" where
  "subscribe self_id l subs = map (\<lambda>(r, x). (if r = Some self_id then None else r, x)) subs @ [(Some self_id, l)]"

definition cancel :: "u64 \<Rightarrow> 'l subscriptions \<Rightarrow> 'l subscriptions" where
  "cancel self_id subs = filter (\<lambda>(r, x). r \<noteq> Some self_id) subs"

definition notified :: "'l subscriptions \<Rightarrow> 'l list" where
  "notified subs = List.map_filter snd subs"

text \<open>The slots of a signal and the connections of its readers, as a list of slots with their subscriptions.\<close>

definition signal_entries :: "(nat \<times> u64 option \<times> 'l option) list \<Rightarrow> 'l signal \<Rightarrow> (u64 \<times> nat) list \<Rightarrow> bool" where
  "signal_entries es s conns \<longleftrightarrow>
     si_slots s = map fst es \<and> distinct (map fst es)
     \<and> (\<forall>(k, r, l) \<in> set es. k < si_next s \<and> si_heap s k = \<lparr>sl_cb = l, sl_connected = True\<rparr>)
     \<and> (\<forall>self k. map_of conns self = Some k \<longleftrightarrow> (\<exists>l. (k, Some self, l) \<in> set es))"

definition implements :: "'l signal \<Rightarrow> (u64 \<times> nat) list \<Rightarrow> 'l subscriptions \<Rightarrow> bool" where
  "implements s conns subs \<longleftrightarrow> (\<exists>es. subs = map snd es \<and> signal_entries es s conns)"

lemma implements_new: "implements Signal_new [] []"
  by (auto simp: implements_def signal_entries_def Signal_new_def intro!: exI [of _ "[]"])

text \<open>Everything of a signal that is found in a slot is still connected, so that nothing is cleared.\<close>

lemma signal_entries_clear:
  "signal_entries es s conns \<Longrightarrow> Signal_ClearDisconnectedSlots s = s"
  by (cases s) (auto simp: signal_entries_def Signal_ClearDisconnectedSlots_def filter_id_conv)

lemma implements_call:
  assumes "implements s conns subs"
  shows "Signal_call s = (notified subs, s)"
proof -
  obtain es where es: "subs = map snd es" "signal_entries es s conns"
    using assms by (auto simp: implements_def)
  have "Slot_call (si_heap s (fst e)) = (case snd (snd e) of None \<Rightarrow> [] | Some l \<Rightarrow> [l])" if "e \<in> set es" for e
    using es(2) that by (auto simp: signal_entries_def Slot_call_def)
  then have "concat (map (\<lambda>e. Slot_call (si_heap s (fst e))) es) = concat (map (\<lambda>e. case snd (snd e) of None \<Rightarrow> [] | Some l \<Rightarrow> [l]) es)"
    by (simp cong: map_cong)
  also have "\<dots> = notified subs"
    unfolding es(1) by (induction es) (auto simp: notified_def List.map_filter_def split: option.splits)
  finally show ?thesis
    using es(2) signal_entries_clear [OF es(2)] by (simp add: Signal_call_def signal_entries_def comp_def)
qed

definition resubscribe :: "u64 \<Rightarrow> nat \<times> u64 option \<times> 'l option \<Rightarrow> nat \<times> u64 option \<times> 'l option" where
  "resubscribe self_id = (\<lambda>(k, r, l). (k, if r = Some self_id then None else r, l))"

lemma implements_connect:
  assumes "implements s conns subs" and "Signal_Connect l s = (k, s')"
  shows "Connection_IsConnected k s' \<and> implements s' (AList.update self_id k conns) (subscribe self_id l subs)"
proof -
  obtain es where es: "subs = map snd es" "signal_entries es s conns"
    using assms(1) by (auto simp: implements_def)
  let ?es = "map (resubscribe self_id) es @ [(k, Some self_id, l)]"
  have k: "k = si_next s" and s': "si_slots s' = si_slots s @ [k]" "si_next s' = Suc k"
    "si_heap s' = (si_heap s)(k := \<lparr>sl_cb = l, sl_connected = True\<rparr>)"
    using assms(2) by (auto simp: Signal_Connect_def)
  have fresh: "\<forall>e \<in> set es. fst e < k" using es(2) by (auto simp: signal_entries_def k)
  have slots: "\<And>j r x. (j, r, x) \<in> set es \<Longrightarrow> j < k \<and> si_heap s j = \<lparr>sl_cb = x, sl_connected = True\<rparr>"
    using es(2) by (auto simp: signal_entries_def k)
  have fsts: "map fst ?es = map fst es @ [k]"
    by (simp add: resubscribe_def case_prod_beta)
  have "(j, Some r, x) \<in> set ?es \<longleftrightarrow> (if r = self_id then j = k \<and> x = l else (j, Some r, x) \<in> set es)" for j r x
    by (auto simp: resubscribe_def split: if_splits intro!: rev_image_eqI)
  then have conns: "map_of (AList.update self_id k conns) r = Some j \<longleftrightarrow> (\<exists>x. (j, Some r, x) \<in> set ?es)" for r j
    using es(2) by (auto simp: signal_entries_def update_conv')
  have "signal_entries ?es s' (AList.update self_id k conns)"
    unfolding signal_entries_def
  proof (intro conjI allI)
    show "si_slots s' = map fst ?es" unfolding fsts using es(2) by (simp add: signal_entries_def s')
    show "distinct (map fst ?es)" unfolding fsts using es(2) fresh by (auto simp: signal_entries_def)
    show "\<forall>(j, r, x) \<in> set ?es. j < si_next s' \<and> si_heap s' j = \<lparr>sl_cb = x, sl_connected = True\<rparr>"
      by (auto simp: s' resubscribe_def dest: slots)
  qed (rule conns)
  moreover have "subscribe self_id l subs = map snd ?es"
    by (simp add: subscribe_def es(1) resubscribe_def case_prod_beta)
  ultimately have "implements s' (AList.update self_id k conns) (subscribe self_id l subs)"
    unfolding implements_def by blast
  then show ?thesis by (simp add: s')
qed

lemma signal_entries_cancel:
  assumes "signal_entries es s conns" and "map_of conns self_id = Some k"
  shows "signal_entries (filter (\<lambda>(j, r, l). r \<noteq> Some self_id) es) (snd (Signal_Disconnect k s)) (AList.delete self_id conns)"
proof -
  let ?es = "filter (\<lambda>(j, r, l). r \<noteq> Some self_id) es"
  have dist: "distinct (map fst es)" using assms(1) by (simp add: signal_entries_def)
  obtain l where l: "(k, Some self_id, l) \<in> set es" using assms by (auto simp: signal_entries_def)
  have only: "(\<lambda>(j, r, l). r \<noteq> Some self_id) e \<longleftrightarrow> fst e \<noteq> k" if "e \<in> set es" for e
  proof -
    have "e = (k, Some self_id, l)" if "fst e = k"
      using that \<open>e \<in> set es\<close> l dist by (metis eq_key_imp_eq_value prod.collapse)
    moreover have "fst e = k" if "fst (snd e) = Some self_id"
    proof -
      have "(fst e, Some self_id, snd (snd e)) \<in> set es" using \<open>e \<in> set es\<close> that by (metis prod.collapse)
      then have "map_of conns self_id = Some (fst e)" using assms(1) unfolding signal_entries_def by blast
      then show ?thesis using assms(2) by simp
    qed
    ultimately show ?thesis by (cases e) auto
  qed
  then have es': "?es = filter (\<lambda>e. fst e \<noteq> k) es" by (rule filter_cong [OF refl])
  have heap: "\<forall>(j, r, x) \<in> set es. j < si_next s \<and> si_heap s j = \<lparr>sl_cb = x, sl_connected = True\<rparr>"
    and slots: "si_slots s = map fst es"
    using assms(1) by (auto simp: signal_entries_def)
  have mem: "k \<in> set (si_slots s)" using l slots by force
  have "filter (\<lambda>j. sl_connected (((si_heap s)(k := Slot_Disconnect (si_heap s k))) j)) (map fst es)
      = map fst (filter (\<lambda>e. fst e \<noteq> k) es)"
    unfolding filter_map using heap
    by (intro arg_cong [of _ _ "map fst"] filter_cong) (auto simp: Slot_Disconnect_def)
  then have s': "snd (Signal_Disconnect k s) = s\<lparr>si_heap := (si_heap s)(k := Slot_Disconnect (si_heap s k)), si_slots := map fst ?es\<rparr>"
    using mem by (simp add: Signal_Disconnect_def Signal_ClearDisconnectedSlots_def slots es')
  have conns: "map_of (AList.delete self_id conns) r = Some j \<longleftrightarrow> (\<exists>x. (j, Some r, x) \<in> set ?es)" for r j
    using assms(1) by (auto simp: signal_entries_def delete_conv')
  show ?thesis
    unfolding signal_entries_def
  proof (intro conjI allI)
    show "si_slots (snd (Signal_Disconnect k s)) = map fst ?es" by (simp add: s')
    show "distinct (map fst ?es)" using dist by (rule distinct_map_filter)
    show "\<forall>(j, r, x) \<in> set ?es. j < si_next (snd (Signal_Disconnect k s))
        \<and> si_heap (snd (Signal_Disconnect k s)) j = \<lparr>sl_cb = x, sl_connected = True\<rparr>"
      using heap unfolding es' by (auto simp: s')
  qed (rule conns)
qed

lemma implements_disconnect:
  assumes "implements s conns subs" and "map_of conns self_id = Some k"
  shows "implements (snd (Signal_Disconnect k s)) (AList.delete self_id conns) (cancel self_id subs)"
proof -
  obtain es where es: "subs = map snd es" "signal_entries es s conns"
    using assms(1) by (auto simp: implements_def)
  have "cancel self_id subs = map snd (filter (\<lambda>(j, r, l). r \<noteq> Some self_id) es)"
    unfolding cancel_def es(1) by (induction es) auto
  then show ?thesis using signal_entries_cancel [OF es(2) assms(2)] unfolding implements_def by blast
qed

text \<open>A reader without a connection has nothing to cancel.\<close>

lemma implements_unconnected:
  assumes "implements s conns subs" and "map_of conns self_id = None"
  shows "cancel self_id subs = subs"
proof -
  obtain es where es: "subs = map snd es" "signal_entries es s conns"
    using assms(1) by (auto simp: implements_def)
  have "map_of conns self_id = Some k \<longleftrightarrow> (\<exists>l. (k, Some self_id, l) \<in> set es)" for k
    using es(2) by (simp add: signal_entries_def)
  then have "(k, Some self_id, l) \<notin> set es" for k l using assms(2) by auto
  then show ?thesis unfolding es(1) cancel_def by (force simp: filter_id_conv)
qed

section \<open>The handler implements subscriptions\<close>

datatype 'l handler_op =
  Connect u64 "'l option"
| Connect_to u64 u64 "'l option"
| Disconnect u64
| Disconnect_from u64 u64
| Run message_info

fun handler_step :: "'l handler_op \<Rightarrow> 'l listener_handler \<Rightarrow> 'l list \<times> 'l listener_handler" where
  "handler_step (Connect self_id l) h = ([], ListenerHandler_Connect self_id l h)"
| "handler_step (Connect_to self_id oppo_id l) h = ([], ListenerHandler_Connect_to self_id oppo_id l h)"
| "handler_step (Disconnect self_id) h = ([], ListenerHandler_Disconnect self_id h)"
| "handler_step (Disconnect_from self_id oppo_id) h = ([], ListenerHandler_Disconnect_from self_id oppo_id h)"
| "handler_step (Run info) h = ListenerHandler_Run info h"

text \<open>The specification: the subscriptions to everybody, under \<^const>\<open>None\<close>, and to each sender.\<close>

fun subscription_step :: "'l handler_op \<Rightarrow> (u64 option \<Rightarrow> 'l subscriptions) \<Rightarrow> 'l list \<times> (u64 option \<Rightarrow> 'l subscriptions)" where
  "subscription_step (Connect self_id l) subs = ([], subs(None := subscribe self_id l (subs None)))"
| "subscription_step (Connect_to self_id oppo_id l) subs = ([], subs(Some oppo_id := subscribe self_id l (subs (Some oppo_id))))"
| "subscription_step (Disconnect self_id) subs = ([], subs(None := cancel self_id (subs None)))"
| "subscription_step (Disconnect_from self_id oppo_id) subs = ([], subs(Some oppo_id := cancel self_id (subs (Some oppo_id))))"
| "subscription_step (Run info) subs =
     (notified (subs None) @ notified (subs (Some (id_hash_value (mi_sender_id info)))), subs)"

definition handler_rel :: "'l listener_handler \<Rightarrow> (u64 option \<Rightarrow> 'l subscriptions) \<Rightarrow> bool" where
  "handler_rel h subs \<longleftrightarrow>
     implements (lh_signal h) (lh_signal_conns h) (subs None)
     \<and> (\<forall>oppo. implements (found (lh_signals h) oppo Signal_new) (found (lh_signals_conns h) oppo []) (subs (Some oppo)))"

lemma found_update [simp]: "found (AList.update k v m) k' dflt = (if k' = k then v else found m k' dflt)"
  by (simp add: found_def update_conv')

lemma handler_rel_Connect:
  assumes "handler_rel h subs"
  shows "handler_rel (ListenerHandler_Connect self_id l h) (subs(None := subscribe self_id l (subs None)))"
proof -
  obtain k s where c: "Signal_Connect l (lh_signal h) = (k, s)" by fastforce
  from assms have "implements (lh_signal h) (lh_signal_conns h) (subs None)" by (simp add: handler_rel_def)
  from implements_connect [OF this c, of self_id] assms show ?thesis
    by (simp add: ListenerHandler_Connect_def c Let_def handler_rel_def)
qed

lemma handler_rel_Connect_to:
  assumes "handler_rel h subs"
  shows "handler_rel (ListenerHandler_Connect_to self_id oppo_id l h)
           (subs(Some oppo_id := subscribe self_id l (subs (Some oppo_id))))"
proof -
  obtain k s where c: "Signal_Connect l (found (lh_signals h) oppo_id Signal_new) = (k, s)" by fastforce
  from assms have "implements (found (lh_signals h) oppo_id Signal_new) (found (lh_signals_conns h) oppo_id []) (subs (Some oppo_id))"
    by (simp add: handler_rel_def)
  from implements_connect [OF this c, of self_id] assms show ?thesis
    by (simp add: ListenerHandler_Connect_to_def c Let_def handler_rel_def)
qed

lemma handler_rel_Disconnect:
  assumes "handler_rel h subs"
  shows "handler_rel (ListenerHandler_Disconnect self_id h) (subs(None := cancel self_id (subs None)))"
proof -
  have i: "implements (lh_signal h) (lh_signal_conns h) (subs None)" using assms by (simp add: handler_rel_def)
  show ?thesis
  proof (cases "map_of (lh_signal_conns h) self_id")
    case None
    then show ?thesis using implements_unconnected [OF i None] assms by (simp add: ListenerHandler_Disconnect_def)
  next
    case (Some k)
    then show ?thesis using implements_disconnect [OF i Some] assms
      by (simp add: ListenerHandler_Disconnect_def handler_rel_def)
  qed
qed

lemma handler_rel_Disconnect_from:
  assumes "handler_rel h subs"
  shows "handler_rel (ListenerHandler_Disconnect_from self_id oppo_id h)
           (subs(Some oppo_id := cancel self_id (subs (Some oppo_id))))"
proof -
  let ?conns = "found (lh_signals_conns h) oppo_id []"
  have i: "implements (found (lh_signals h) oppo_id Signal_new) ?conns (subs (Some oppo_id))"
    using assms by (simp add: handler_rel_def)
  show ?thesis
  proof (cases "map_of ?conns self_id")
    case None
    then have "ListenerHandler_Disconnect_from self_id oppo_id h = h"
      by (auto simp: ListenerHandler_Disconnect_from_def found_def split: option.splits)
    then show ?thesis using implements_unconnected [OF i None] assms by simp
  next
    case (Some k)
    then have "map_of (lh_signals_conns h) oppo_id = Some ?conns"
      by (auto simp: found_def split: option.splits)
    then show ?thesis using implements_disconnect [OF i Some] assms Some
      by (simp add: ListenerHandler_Disconnect_from_def handler_rel_def)
  qed
qed

lemma ListenerHandler_Run_spec:
  assumes "handler_rel h subs"
  shows "fst (ListenerHandler_Run info h) = notified (subs None) @ notified (subs (Some (id_hash_value (mi_sender_id info))))
    \<and> handler_rel (snd (ListenerHandler_Run info h)) subs
    \<and> lh_type (snd (ListenerHandler_Run info h)) = lh_type h"
proof -
  let ?o = "id_hash_value (mi_sender_id info)"
  have own: "Signal_call (lh_signal h) = (notified (subs None), lh_signal h)"
    using assms implements_call unfolding handler_rel_def by blast
  have i: "implements (found (lh_signals h) ?o Signal_new) (found (lh_signals_conns h) ?o []) (subs (Some ?o))"
    using assms unfolding handler_rel_def by blast
  note other = implements_call [OF i]
  show ?thesis
  proof (cases "map_of (lh_signals h) ?o")
    case None
    then have "notified (subs (Some ?o)) = []"
      using other by (simp add: found_def Signal_call_def Signal_new_def)
    then show ?thesis using None assms by (simp add: ListenerHandler_Run_def own Let_def)
  next
    case (Some s)
    then have s: "Signal_call s = (notified (subs (Some ?o)), s)" using other by (simp add: found_def)
    have "handler_rel (h\<lparr>lh_signals := AList.update ?o s (lh_signals h)\<rparr>) subs"
      using assms i Some by (simp add: handler_rel_def found_def [of _ ?o Signal_new])
    then show ?thesis using Some by (simp add: ListenerHandler_Run_def own s Let_def)
  qed
qed

lemma handler_rel_step:
  assumes "handler_rel h subs"
  shows "fst (handler_step x h) = fst (subscription_step x subs) \<and> handler_rel (snd (handler_step x h)) (snd (subscription_step x subs))"
  using assms ListenerHandler_Run_spec [OF assms]
  by (cases x) (simp_all add: handler_rel_Connect handler_rel_Connect_to handler_rel_Disconnect handler_rel_Disconnect_from)

lemma handler_rel_new: "handler_rel (ListenerHandler_new t) (\<lambda>r. [])"
  by (simp add: handler_rel_def ListenerHandler_new_def found_def implements_new)

text \<open>
  C9: The listeners of a channel implement subscriptions.  For every sequence of connecting,
  disconnecting and running, each message calls the listeners that subscribed to everybody and then
  those that subscribed to its sender, in the order in which they subscribed and without those that
  were cancelled.  The specification shows a weakness as well: a reader that connects twice without
  disconnecting keeps its first subscription for ever, as only the second one can be cancelled.
\<close>

theorem ListenerHandler_refines:
  "run_ops handler_step ops (ListenerHandler_new t) = run_ops subscription_step ops (\<lambda>r. [])"
  by (rule run_ops_simulation [where rel = "\<lambda>n. handler_rel"]) (rule handler_rel_new handler_rel_step; assumption?)+

end
