(* ===== verification/ShmTransport.thy ===== *)
theory ShmTransport
  imports Shm Dispatching
begin

text \<open>
  Sending messages through shared memory: the notifiers that tell readers which block to read
  (\<open>condition_notifier.cc\<close>, \<open>multicast_notifier.cc\<close>, \<open>notifier_factory.cc\<close>), the sender
  (\<open>shm_transmitter.h\<close>) and the thread that receives (\<open>shm_dispatcher.cc\<close>).

  The condition notifier is a ring of 4096 entries in shared memory with a sequence number per entry.  A
  listener that is at most 4096 notices behind gets all of them in order, and one that falls further
  behind gets no notice any more (within \<open>2 ^ 63\<close> operations).  A message that was transmitted is given to the listeners of its
  channel with the same contents and the same information.

  Serializing a message and reading it back are arguments, as are the answers of the network.
\<close>

section \<open>ConditionNotifier\<close>

definition kBufLength :: nat where
  "kBufLength = 4096"

record indicator =
  in_next_seq :: u64
  in_infos :: "nat \<Rightarrow> readable_info"
  in_seqs :: "nat \<Rightarrow> u64"

definition Indicator_new :: indicator where
  "Indicator_new = \<lparr>in_next_seq = 0, in_infos = (\<lambda>i. ReadableInfo_new), in_seqs = (\<lambda>i. 0)\<rparr>"

record condition_notifier =
  cn_next_seq :: u64
  cn_is_shutdown :: bool

text \<open>The argument is the indicator that was opened or created, if that succeeded.\<close>

definition ConditionNotifier_new :: "indicator option \<Rightarrow> condition_notifier" where
  "ConditionNotifier_new opened =
     (case opened of
        None \<Rightarrow> \<lparr>cn_next_seq = 0, cn_is_shutdown = True\<rparr>
      | Some ind \<Rightarrow> \<lparr>cn_next_seq = in_next_seq ind, cn_is_shutdown = False\<rparr>)"

definition ConditionNotifier_Shutdown :: "condition_notifier \<Rightarrow> condition_notifier" where
  "ConditionNotifier_Shutdown cn = cn\<lparr>cn_is_shutdown := True\<rparr>"

text \<open>Notifying in its steps: a sequence number is taken, then the notice and the number are written.\<close>

definition take_seq :: "indicator \<Rightarrow> u64 \<times> indicator" where
  "take_seq ind = (in_next_seq ind, ind\<lparr>in_next_seq := in_next_seq ind + 1\<rparr>)"

definition write_info :: "u64 \<Rightarrow> readable_info \<Rightarrow> indicator \<Rightarrow> indicator" where
  "write_info seq info ind = ind\<lparr>in_infos := (in_infos ind)(unat seq mod kBufLength := info)\<rparr>"

definition write_seq :: "u64 \<Rightarrow> indicator \<Rightarrow> indicator" where
  "write_seq seq ind = ind\<lparr>in_seqs := (in_seqs ind)(unat seq mod kBufLength := seq)\<rparr>"

definition notice :: "readable_info \<Rightarrow> indicator \<Rightarrow> indicator" where
  "notice info ind = (case take_seq ind of (seq, ind) \<Rightarrow> write_seq seq (write_info seq info ind))"

definition ConditionNotifier_Notify ::
  "readable_info \<Rightarrow> condition_notifier \<Rightarrow> indicator \<Rightarrow> bool \<times> indicator" where
  "ConditionNotifier_Notify info cn ind = (if cn_is_shutdown cn then (False, ind) else (True, notice info ind))"

text \<open>One turn of the loop of \<open>Listen\<close>.\<close>

definition try_listen :: "condition_notifier \<Rightarrow> indicator \<Rightarrow> (readable_info \<times> condition_notifier) option" where
  "try_listen cn ind =
     (let idx = unat (cn_next_seq cn) mod kBufLength
      in if in_next_seq ind \<noteq> cn_next_seq cn \<and> in_seqs ind idx = cn_next_seq cn
         then Some (in_infos ind idx, cn\<lparr>cn_next_seq := cn_next_seq cn + 1\<rparr>)
         else None)"

text \<open>
  Other threads and processes act between the turns: turn \<open>t\<close> finds the indicator and the shutdown
  flag \<open>env t\<close>.
\<close>

function listen_loop ::
  "int \<Rightarrow> (nat \<Rightarrow> indicator \<times> bool) \<Rightarrow> nat \<Rightarrow> condition_notifier \<Rightarrow> (readable_info \<times> condition_notifier) option" where
  "listen_loop timeout_us env t cn =
     (if snd (env t) then None
      else case try_listen cn (fst (env t)) of
             Some r \<Rightarrow> Some r
           | None \<Rightarrow> if 0 < timeout_us then listen_loop (timeout_us - 50) env (Suc t) cn else None)"
  by pat_completeness auto
termination by (relation "measure (\<lambda>(timeout_us, env, t, cn). nat timeout_us)") auto

declare listen_loop.simps [simp del]

definition ConditionNotifier_Listen ::
  "int \<Rightarrow> (nat \<Rightarrow> indicator \<times> bool) \<Rightarrow> condition_notifier \<Rightarrow> (readable_info \<times> condition_notifier) option" where
  "ConditionNotifier_Listen timeout_ms env cn =
     (if cn_is_shutdown cn then None else listen_loop (timeout_ms * 1000) env 0 cn)"

section \<open>MulticastNotifier\<close>

record multicast_notifier =
  mn_is_shutdown :: bool

text \<open>The argument is whether the sockets could be set up.\<close>

abbreviation MulticastNotifier_new :: "bool \<Rightarrow> multicast_notifier" where
  "MulticastNotifier_new init \<equiv> \<lparr>mn_is_shutdown = \<not> init\<rparr>"

definition MulticastNotifier_Shutdown :: "multicast_notifier \<Rightarrow> multicast_notifier" where
  "MulticastNotifier_Shutdown mn = mn\<lparr>mn_is_shutdown := True\<rparr>"

definition MulticastNotifier_Notify :: "(string \<Rightarrow> int) \<Rightarrow> readable_info \<Rightarrow> multicast_notifier \<Rightarrow> bool" where
  "MulticastNotifier_Notify sendto info mn =
     (if mn_is_shutdown mn then False else 0 < sendto (ReadableInfo_SerializeTo info))"

text \<open>The answer of \<open>poll\<close> and the datagram that \<open>recvfrom\<close> gives, if it gives one; it is cut after 32 bytes.\<close>

definition MulticastNotifier_Listen :: "int \<Rightarrow> string option \<Rightarrow> multicast_notifier \<Rightarrow> readable_info option" where
  "MulticastNotifier_Listen ready_num recvfrom mn =
     (if mn_is_shutdown mn then None
      else if 0 < ready_num
      then (case recvfrom of
              None \<Rightarrow> None
            | Some datagram \<Rightarrow>
                let buf = take 32 datagram
                in ReadableInfo_DeserializeFrom (buf @ replicate (32 - length buf) (CHR 0x00)) (length buf))
      else None)"

lemma multicast_roundtrip:
  assumes "\<not> mn_is_shutdown mn" and "0 < ready_num"
  shows "MulticastNotifier_Listen ready_num (Some (ReadableInfo_SerializeTo info)) mn = Some info"
  using assms ReadableInfo_roundtrip [of info]
  by (simp add: MulticastNotifier_Listen_def Let_def ReadableInfo_DeserializeFrom_def
      ReadableInfo_SerializeTo_def)

datatype notifier_type = Condition_notifier | Multicast_notifier

definition NotifierFactory_CreateNotifier :: "string option \<Rightarrow> notifier_type" where
  "NotifierFactory_CreateNotifier conf =
     (let notifier_type = (case conf of None \<Rightarrow> ''multicast'' | Some t \<Rightarrow> t)
      in if notifier_type = ''multicast'' then Multicast_notifier
         else if notifier_type = ''condition'' then Condition_notifier
         else Multicast_notifier)"

section \<open>ShmTransmitter\<close>

record 'n shm_transmitter =
  tx_enabled :: bool
  tx_segment :: "segment option"
  tx_channel_id :: u64
  tx_host_id :: u64
  tx_notifier :: "'n option"

definition ShmTransmitter_new :: "(string \<Rightarrow> u64) \<Rightarrow> string \<Rightarrow> u64 \<Rightarrow> 'n shm_transmitter" where
  "ShmTransmitter_new Hash host_ip channel_id =
     \<lparr>tx_enabled = False, tx_segment = None, tx_channel_id = channel_id, tx_host_id = Hash host_ip, tx_notifier = None\<rparr>"

definition ShmTransmitter_Enable :: "'n \<Rightarrow> 'n shm_transmitter \<Rightarrow> 'n shm_transmitter" where
  "ShmTransmitter_Enable notifier tx =
     (if tx_enabled tx then tx
      else tx\<lparr>tx_segment := Some (Segment_new (tx_channel_id tx) WRITE_ONLY), tx_notifier := Some notifier,
              tx_enabled := True\<rparr>)"

text \<open>Dropping the segment runs its destructor.\<close>

definition ShmTransmitter_Disable :: "'n shm_transmitter \<Rightarrow> shm_os \<Rightarrow> ('n shm_transmitter \<times> shm_os) outcome" where
  "ShmTransmitter_Disable tx os =
     (if tx_enabled tx
      then
        bind_outcome (case tx_segment tx of None \<Rightarrow> Inr os | Some sg \<Rightarrow>
                        bind_outcome (Segment_Destroy sg os) (\<lambda>(ok, sg, os). Inr os))
          (\<lambda>os. Inr (tx\<lparr>tx_segment := None, tx_notifier := None, tx_enabled := False\<rparr>, os))
      else Inr (tx, os))"

text \<open>Bytes written into memory at a position.\<close>

definition write_at :: "nat \<Rightarrow> string \<Rightarrow> string \<Rightarrow> string" where
  "write_at pos bytes buf =
     take pos (buf @ replicate (pos - length buf) (CHR 0x00)) @ bytes @ drop (pos + length bytes) buf"

text \<open>Writing beyond the buffer of the block has no defined result.\<close>

definition write_buf :: "nat \<Rightarrow> string \<Rightarrow> u32 \<Rightarrow> segment \<Rightarrow> shm_os \<Rightarrow> shm_os outcome" where
  "write_buf pos bytes i sg os =
     bind_outcome (attached sg)
       (\<lambda>h. let ob = os_objects os h
            in if unat (cf_block_buf_size (sg_conf sg)) < pos + length bytes \<or> length (so_bufs ob) \<le> unat i
               then Inl Undefined
               else Inr (set_object h
                      (ob\<lparr>so_bufs := (so_bufs ob)[unat i := write_at pos bytes (so_bufs ob ! unat i)]\<rparr>) os))"

definition int_of_size :: "u64 \<Rightarrow> int" where
  "int_of_size n = sint (ucast n :: u32)"

text \<open>
  Filling a block.  A message that cannot be serialized leaves the buffer as it was.
\<close>

definition fill_block ::
  "('m \<Rightarrow> int \<Rightarrow> string option) \<Rightarrow> 'm \<Rightarrow> u64 \<Rightarrow> message_info \<Rightarrow> u32 \<Rightarrow> segment \<Rightarrow> shm_os \<Rightarrow> (bool \<times> shm_os) outcome" where
  "fill_block SerializeToArray msg msg_size info i sg os =
     (case SerializeToArray msg (int_of_size msg_size) of
        None \<Rightarrow> Inr (False, os)
      | Some bytes \<Rightarrow>
          bind_outcome (write_buf 0 bytes i sg os)
            (\<lambda>os. bind_outcome (update_block (\<lambda>b. b\<lparr>bl_msg_size := msg_size\<rparr>) i sg os)
               (\<lambda>os. case MessageInfo_SerializeTo info MessageInfo_kSize of
                       None \<Rightarrow> Inr (False, os)
                     | Some bytes \<Rightarrow>
                         bind_outcome (write_buf (unat msg_size) bytes i sg os)
                           (\<lambda>os. bind_outcome
                              (update_block (\<lambda>b. b\<lparr>bl_msg_info_size := of_nat MessageInfo_kSize\<rparr>) i sg os)
                              (\<lambda>os. Inr (True, os))))))"

text \<open>The state outside the transmitter: the memory objects and what the notifier works on.\<close>

definition ShmTransmitter_Transmit ::
  "('m \<Rightarrow> u64) \<Rightarrow> ('m \<Rightarrow> int \<Rightarrow> string option) \<Rightarrow> (readable_info \<Rightarrow> 'n \<Rightarrow> 'w \<Rightarrow> bool \<times> 'w) \<Rightarrow>
     'm \<Rightarrow> message_info \<Rightarrow> 'n shm_transmitter \<Rightarrow> shm_os \<times> 'w \<Rightarrow>
     (bool \<times> 'n shm_transmitter \<times> shm_os \<times> 'w) outcome option" where
  "ShmTransmitter_Transmit ByteSize SerializeToArray Notify msg info tx w =
     (case w of (os, ind) \<Rightarrow>
        if \<not> tx_enabled tx then Some (Inr (False, tx, os, ind))
        else
          (case (tx_segment tx, tx_notifier tx) of
             (Some sg, Some notifier) \<Rightarrow>
               (case Segment_AcquireBlockToWrite (ByteSize msg) sg os of
                  None \<Rightarrow> None
                | Some (Inl e) \<Rightarrow> Some (Inl e)
                | Some (Inr (None, sg, os)) \<Rightarrow> Some (Inr (False, tx\<lparr>tx_segment := Some sg\<rparr>, os, ind))
                | Some (Inr (Some i, sg, os)) \<Rightarrow>
                    Some
                      (bind_outcome (fill_block SerializeToArray msg (ByteSize msg) info i sg os)
                         (\<lambda>(filled, os). bind_outcome (Segment_ReleaseWrittenBlock i sg os)
                            (\<lambda>os.
                               let tx' = tx\<lparr>tx_segment := Some sg\<rparr>;
                                   readable = \<lparr>ri_host_id = tx_host_id tx, ri_block_index = i,
                                               ri_channel_id = tx_channel_id tx\<rparr>
                               in if \<not> filled then Inr (False, tx', os, ind)
                                  else case Notify readable notifier ind of (ok, ind) \<Rightarrow> Inr (ok, tx', os, ind)))))
           | _ \<Rightarrow> Some (Inl Undefined)))"

section \<open>ShmDispatcher\<close>

record ('l, 'n) shm_dispatcher = "'l dispatcher" +
  sd_host_id :: u64
  sd_segments :: "(u64 \<times> segment) list"
  sd_previous_indexes :: "(u64 \<times> u32) list"
  sd_notifier :: 'n

definition ShmDispatcher_Init :: "(string \<Rightarrow> u64) \<Rightarrow> string \<Rightarrow> 'n \<Rightarrow> ('l, 'n) shm_dispatcher" where
  "ShmDispatcher_Init Hash host_ip notifier =
     \<lparr>di_is_shutdown = False, di_msg_listeners = [], sd_host_id = Hash host_ip, sd_segments = [],
      sd_previous_indexes = [], sd_notifier = notifier\<rparr>"

text \<open>Clearing the table of segments runs their destructors.\<close>

fun destroy_segments :: "segment list \<Rightarrow> shm_os \<Rightarrow> shm_os outcome" where
  "destroy_segments [] os = Inr os"
| "destroy_segments (sg # sgs) os =
     bind_outcome (Segment_Destroy sg os) (\<lambda>(ok, sg, os). destroy_segments sgs os)"

definition ShmDispatcher_Shutdown ::
  "('l, 'n) shm_dispatcher \<Rightarrow> shm_os \<Rightarrow> (('l, 'n) shm_dispatcher \<times> shm_os) outcome" where
  "ShmDispatcher_Shutdown d os =
     (if di_is_shutdown d then Inr (d, os)
      else
        bind_outcome (destroy_segments (map snd (sd_segments d)) os)
          (\<lambda>os. Inr (d\<lparr>di_is_shutdown := True, sd_segments := []\<rparr>, os)))"

definition ShmDispatcher_AddSegment :: "u64 \<Rightarrow> ('l, 'n) shm_dispatcher \<Rightarrow> ('l, 'n) shm_dispatcher" where
  "ShmDispatcher_AddSegment channel_id d =
     (if map_of (sd_segments d) channel_id \<noteq> None then d
      else d\<lparr>sd_segments := AList.update channel_id (Segment_new channel_id READ_ONLY) (sd_segments d),
             sd_previous_indexes := AList.update channel_id (- 1) (sd_previous_indexes d)\<rparr>)"

text \<open>All listeners of shared memory have the type of a readable block.\<close>

definition ReadableBlock :: message_type where
  "ReadableBlock = Message_type ''ReadableBlock''"

definition ShmDispatcher_AddListener ::
  "u64 \<Rightarrow> u64 \<Rightarrow> 'l option \<Rightarrow> ('l, 'n) shm_dispatcher \<Rightarrow> ('l, 'n) shm_dispatcher" where
  "ShmDispatcher_AddListener channel_id self_id listener d =
     ShmDispatcher_AddSegment channel_id (Dispatcher_AddListener ReadableBlock channel_id self_id listener d)"

definition ShmDispatcher_AddListener_to ::
  "u64 \<Rightarrow> u64 \<Rightarrow> u64 \<Rightarrow> 'l option \<Rightarrow> ('l, 'n) shm_dispatcher \<Rightarrow> ('l, 'n) shm_dispatcher" where
  "ShmDispatcher_AddListener_to channel_id self_id oppo_id listener d =
     ShmDispatcher_AddSegment channel_id (Dispatcher_AddListener_to ReadableBlock channel_id self_id oppo_id listener d)"

text \<open>The calls of listeners: each with the message it parsed and the information about it.\<close>

type_synonym ('l, 'm) calls = "('l \<times> 'm \<times> message_info) list"

definition ShmDispatcher_OnMessage ::
  "'m option \<Rightarrow> u64 \<Rightarrow> message_info \<Rightarrow> ('l, 'n) shm_dispatcher \<Rightarrow> ('l, 'm) calls \<times> ('l, 'n) shm_dispatcher" where
  "ShmDispatcher_OnMessage parsed channel_id info d =
     (if di_is_shutdown d then ([], d)
      else
        case map_of (di_msg_listeners d) channel_id of
          None \<Rightarrow> ([], d)
        | Some h \<Rightarrow>
            (case ListenerHandler_Run info h of
               (called, h) \<Rightarrow>
                 (case parsed of None \<Rightarrow> [] | Some msg \<Rightarrow> map (\<lambda>l. (l, msg, info)) called,
                  d\<lparr>di_msg_listeners := AList.update channel_id h (di_msg_listeners d)\<rparr>)))"

text \<open>The block that was locked is read and its message handed on.\<close>

definition read_block ::
  "(string \<Rightarrow> u64) \<Rightarrow> (string \<Rightarrow> int \<Rightarrow> 'm option) \<Rightarrow> u64 \<Rightarrow> string \<Rightarrow> shm_block \<Rightarrow> ('l, 'n) shm_dispatcher \<Rightarrow>
     ('l, 'm) calls \<times> ('l, 'n) shm_dispatcher" where
  "read_block Hash ParseFromArray channel_id buf b d =
     (case MessageInfo_DeserializeFrom Hash (drop (unat (bl_msg_size b)) buf) (unat (bl_msg_info_size b))
             (MessageInfo_new Hash) of
        None \<Rightarrow> ([], d)
      | Some info \<Rightarrow> ShmDispatcher_OnMessage (ParseFromArray buf (int_of_size (bl_msg_size b))) channel_id info d)"

definition ShmDispatcher_ReadMessage ::
  "(string \<Rightarrow> u64) \<Rightarrow> (string \<Rightarrow> int \<Rightarrow> 'm option) \<Rightarrow> u64 \<Rightarrow> u32 \<Rightarrow> ('l, 'n) shm_dispatcher \<Rightarrow> shm_os \<Rightarrow>
     (('l, 'm) calls \<times> ('l, 'n) shm_dispatcher \<times> shm_os) outcome" where
  "ShmDispatcher_ReadMessage Hash ParseFromArray channel_id block_index d os =
     (case map_of (sd_segments d) channel_id of
        None \<Rightarrow> Inl Undefined
      | Some sg \<Rightarrow>
          bind_outcome (Segment_AcquireBlockToRead block_index sg os)
            (\<lambda>(ok, sg, os).
               let d = d\<lparr>sd_segments := AList.update channel_id sg (sd_segments d)\<rparr>
               in if \<not> ok then Inr ([], d, os)
                  else
                    bind_outcome (attached sg)
                      (\<lambda>h. let ob = os_objects os h
                           in case read_block Hash ParseFromArray channel_id (so_bufs ob ! unat block_index)
                                     (so_blocks ob ! unat block_index) d of
                                (calls, d) \<Rightarrow>
                                  bind_outcome (Segment_ReleaseReadBlock block_index sg os)
                                    (\<lambda>os. Inr (calls, d, os)))))"

text \<open>
  One turn of the loop of the receiving thread, with the method \<open>Listen\<close> of the notifier as an argument.
  The comparison of the index with the previous one only writes to the log.
\<close>

definition ShmDispatcher_ThreadFunc_turn ::
  "(string \<Rightarrow> u64) \<Rightarrow> (string \<Rightarrow> int \<Rightarrow> 'm option) \<Rightarrow> (int \<Rightarrow> 'n \<Rightarrow> (readable_info \<times> 'n) option) \<Rightarrow>
     ('l, 'n) shm_dispatcher \<Rightarrow> shm_os \<Rightarrow> (('l, 'm) calls \<times> ('l, 'n) shm_dispatcher \<times> shm_os) outcome" where
  "ShmDispatcher_ThreadFunc_turn Hash ParseFromArray Listen d os =
     (if di_is_shutdown d then Inr ([], d, os)
      else
        case Listen 100 (sd_notifier d) of
          None \<Rightarrow> Inr ([], d, os)
        | Some (readable, notifier) \<Rightarrow>
            let d = d\<lparr>sd_notifier := notifier\<rparr>; channel_id = ri_channel_id readable
            in if ri_host_id readable \<noteq> sd_host_id d then Inr ([], d, os)
               else if map_of (sd_segments d) channel_id = None then Inr ([], d, os)
               else
                 ShmDispatcher_ReadMessage Hash ParseFromArray channel_id (ri_block_index readable)
                   (d\<lparr>sd_previous_indexes :=
                        AList.update channel_id (ri_block_index readable) (sd_previous_indexes d)\<rparr>) os)"

section \<open>The ring of notices\<close>

text \<open>
  The entries of a new ring all have the number 0, which is also the first number given out: a
  listener that looks after the first number was taken and before anything was written reads the
  empty entry, and does not see the notice that is written afterwards.
\<close>

lemma first_notice_lost:
  "case take_seq Indicator_new of
     (seq, ind) \<Rightarrow>
       (case try_listen (ConditionNotifier_new (Some Indicator_new)) ind of
          None \<Rightarrow> False
        | Some (info, cn) \<Rightarrow> info = ReadableInfo_new \<and> try_listen cn (write_seq seq (write_info seq r ind)) = None)"
  by (simp add: take_seq_def Indicator_new_def ConditionNotifier_new_def try_listen_def write_seq_def write_info_def Let_def)

text \<open>The slot of a number, with the wrap-around of the numbers; the length of the ring divides it.\<close>

lemma slot_add: "unat ((s :: u64) + of_nat k) mod kBufLength = (unat s + k) mod kBufLength"
proof -
  have "unat (s + of_nat k) = (unat s + k) mod 2 ^ 64"
    by (simp add: unat_word_ariths unat_of_nat take_bit_eq_mod mod_add_right_eq)
  moreover have "kBufLength dvd 2 ^ 64" by (simp add: kBufLength_def)
  ultimately show ?thesis by (simp only: mod_mod_cancel)
qed

lemma slot_neq:
  assumes "j < k" and "k - j < kBufLength"
  shows "unat ((s :: u64) + of_nat j) mod kBufLength \<noteq> unat (s + of_nat k) mod kBufLength"
  unfolding slot_add by (rule mod_window_neq [of _ _ "unat s + j"]) (use assms in auto)

lemma notice_simps:
  "in_next_seq (notice info ind) = in_next_seq ind + 1"
  "in_infos (notice info ind) = (in_infos ind)(unat (in_next_seq ind) mod kBufLength := info)"
  "in_seqs (notice info ind) = (in_seqs ind)(unat (in_next_seq ind) mod kBufLength := in_next_seq ind)"
  by (simp_all add: notice_def take_seq_def write_info_def write_seq_def)

text \<open>The specification of a listener: the notices it has not got yet, until it is too far behind.\<close>

datatype listener = Behind "readable_info list" | Deaf

datatype ring_op = Notify readable_info | Listen int

fun listener_step :: "ring_op \<Rightarrow> listener \<Rightarrow> readable_info option \<times> listener" where
  "listener_step (Notify info) (Behind xs) =
     (None, if length xs < kBufLength then Behind (xs @ [info]) else Deaf)"
| "listener_step (Listen timeout_ms) (Behind []) = (None, Behind [])"
| "listener_step (Listen timeout_ms) (Behind (x # xs)) = (Some x, Behind xs)"
| "listener_step x Deaf = (None, Deaf)"

text \<open>The code: writers and the listener work on the same ring, and nobody shuts the notifier down.\<close>

fun ring_step ::
  "ring_op \<Rightarrow> condition_notifier \<times> indicator \<Rightarrow> readable_info option \<times> condition_notifier \<times> indicator" where
  "ring_step (Notify info) (cn, ind) = (None, cn, snd (ConditionNotifier_Notify info cn ind))"
| "ring_step (Listen timeout_ms) (cn, ind) =
     (case ConditionNotifier_Listen timeout_ms (\<lambda>t. (ind, False)) cn of
        None \<Rightarrow> (None, cn, ind)
      | Some (info, cn) \<Rightarrow> (Some info, cn, ind))"

text \<open>Waiting does not help while nobody writes.\<close>

lemma listen_loop_const: "listen_loop timeout_us (\<lambda>t. (ind, False)) t cn = try_listen cn ind"
proof (induction "nat timeout_us" arbitrary: timeout_us t rule: less_induct)
  case less
  have "listen_loop (timeout_us - 50) (\<lambda>t. (ind, False)) (Suc t) cn = try_listen cn ind" if "0 < timeout_us"
    using that by (intro less) simp
  then show ?case by (subst listen_loop.simps) (auto split: option.splits)
qed

text \<open>A listener that waits gets the notice that is there in the first turn in which there is one.\<close>

lemma listen_loop_first:
  assumes "\<forall>u < n. \<not> snd (env (t + u)) \<and> try_listen cn (fst (env (t + u))) = None"
    and "\<not> snd (env (t + n))" and "try_listen cn (fst (env (t + n))) = Some r" and "50 * int n \<le> timeout_us"
  shows "listen_loop timeout_us env t cn = Some r"
  using assms
proof (induction n arbitrary: t timeout_us)
  case 0
  then show ?case by (subst listen_loop.simps) simp
next
  case (Suc n)
  have "listen_loop (timeout_us - 50) env (Suc t) cn = Some r"
    using Suc.prems by (intro Suc.IH) (auto dest: spec [of _ "Suc _"])
  then show ?case using Suc.prems(1,4) by (subst listen_loop.simps) (auto dest: spec [of _ 0])
qed

text \<open>The ring holds the notices \<open>xs\<close> for the listener.\<close>

definition ring_holds :: "condition_notifier \<Rightarrow> indicator \<Rightarrow> readable_info list \<Rightarrow> bool" where
  "ring_holds cn ind xs \<longleftrightarrow>
     length xs \<le> kBufLength \<and> in_next_seq ind = cn_next_seq cn + of_nat (length xs)
     \<and> (\<forall>k < length xs.
          in_seqs ind (unat (cn_next_seq cn + of_nat k) mod kBufLength) = cn_next_seq cn + of_nat k
          \<and> in_infos ind (unat (cn_next_seq cn + of_nat k) mod kBufLength) = xs ! k)"

text \<open>The entry the listener waits for has been overwritten, and \<open>n\<close> more notices cannot bring it back.\<close>

definition overrun :: "nat \<Rightarrow> condition_notifier \<Rightarrow> indicator \<Rightarrow> bool" where
  "overrun n cn ind \<longleftrightarrow>
     (\<exists>d m. 0 < m \<and> m < d \<and> d + n < 2 ^ 64 \<and> in_next_seq ind = cn_next_seq cn + of_nat d
       \<and> in_seqs ind (unat (cn_next_seq cn) mod kBufLength) = cn_next_seq cn + of_nat m)"

lemma ring_holds_notice:
  assumes "ring_holds cn ind xs" and "length xs < kBufLength"
  shows "ring_holds cn (notice info ind) (xs @ [info])"
proof -
  let ?s = "cn_next_seq cn"
  have next_seq: "in_next_seq ind = ?s + of_nat (length xs)" using assms(1) by (simp add: ring_holds_def)
  have "unat (?s + of_nat k) mod kBufLength \<noteq> unat (in_next_seq ind) mod kBufLength" if "k < length xs" for k
    unfolding next_seq using that assms(2) by (intro slot_neq) auto
  then show ?thesis
    using assms by (auto simp: ring_holds_def notice_simps next_seq nth_append less_Suc_eq)
qed

lemma ring_holds_overrun:
  assumes "ring_holds cn ind xs" and "length xs = kBufLength" and "kBufLength + Suc n < 2 ^ 64"
  shows "overrun n cn (notice info ind)"
proof -
  let ?s = "cn_next_seq cn"
  have next_seq: "in_next_seq ind = ?s + of_nat kBufLength" using assms(1,2) by (simp add: ring_holds_def)
  have "unat (in_next_seq ind) mod kBufLength = unat ?s mod kBufLength" unfolding next_seq slot_add by simp
  then have "in_seqs (notice info ind) (unat ?s mod kBufLength) = ?s + of_nat kBufLength"
    by (simp add: notice_simps next_seq)
  moreover have "in_next_seq (notice info ind) = ?s + of_nat (Suc kBufLength)" by (simp add: notice_simps next_seq)
  ultimately show ?thesis
    unfolding overrun_def using assms(3) by (intro exI [of _ "Suc kBufLength"] exI [of _ kBufLength]) (simp add: kBufLength_def)
qed

lemma overrun_notice:
  assumes "overrun (Suc n) cn ind"
  shows "overrun n cn (notice info ind)"
proof -
  let ?s = "cn_next_seq cn"
  obtain d m where dm: "0 < m" "m < d" "d + Suc n < 2 ^ 64" "in_next_seq ind = ?s + of_nat d"
    "in_seqs ind (unat ?s mod kBufLength) = ?s + of_nat m"
    using assms unfolding overrun_def by blast
  let ?m = "if unat (in_next_seq ind) mod kBufLength = unat ?s mod kBufLength then d else m"
  have "in_seqs (notice info ind) (unat ?s mod kBufLength) = ?s + of_nat ?m"
    using dm(4,5) by (simp add: notice_simps)
  then show ?thesis
    unfolding overrun_def using dm(1-4) by (intro exI [of _ "Suc d"] exI [of _ ?m]) (simp add: notice_simps)
qed

lemma overrun_listen: "overrun n cn ind \<Longrightarrow> try_listen cn ind = None"
proof -
  assume "overrun n cn ind"
  then obtain d m where "0 < m" "m < d" "d + n < 2 ^ 64"
    "in_seqs ind (unat (cn_next_seq cn) mod kBufLength) = cn_next_seq cn + of_nat m"
    unfolding overrun_def by blast
  moreover from this have "unat (of_nat m :: u64) \<noteq> 0" by (subst unat_u64_of_nat) auto
  ultimately show ?thesis by (auto simp: try_listen_def Let_def)
qed

lemma ring_holds_listen_none: "ring_holds cn ind [] \<Longrightarrow> try_listen cn ind = None"
  by (simp add: ring_holds_def try_listen_def Let_def)

lemma ring_holds_listen_some:
  assumes "ring_holds cn ind (x # xs)"
  shows "try_listen cn ind = Some (x, cn\<lparr>cn_next_seq := cn_next_seq cn + 1\<rparr>)
    \<and> ring_holds (cn\<lparr>cn_next_seq := cn_next_seq cn + 1\<rparr>) ind xs"
proof -
  let ?s = "cn_next_seq cn"
  have "Suc (length xs) \<le> kBufLength" using assms by (simp add: ring_holds_def)
  then have "unat (of_nat (Suc (length xs)) :: u64) \<noteq> 0" by (subst unat_u64_of_nat) (auto simp: kBufLength_def)
  then have "in_next_seq ind \<noteq> ?s" using assms by (auto simp: ring_holds_def)
  then have "try_listen cn ind = Some (x, cn\<lparr>cn_next_seq := ?s + 1\<rparr>)"
    using assms by (auto simp: ring_holds_def try_listen_def Let_def dest: spec [of _ 0])
  moreover have "ring_holds (cn\<lparr>cn_next_seq := ?s + 1\<rparr>) ind xs"
    using assms by (auto simp: ring_holds_def add.assoc dest: spec [of _ "Suc _"])
  ultimately show ?thesis ..
qed

fun ring_rel :: "nat \<Rightarrow> condition_notifier \<times> indicator \<Rightarrow> listener \<Rightarrow> bool" where
  "ring_rel n (cn, ind) (Behind xs) \<longleftrightarrow> \<not> cn_is_shutdown cn \<and> kBufLength + n < 2 ^ 64 \<and> ring_holds cn ind xs"
| "ring_rel n (cn, ind) Deaf \<longleftrightarrow> \<not> cn_is_shutdown cn \<and> overrun n cn ind"

lemma ring_rel_step:
  assumes "ring_rel (Suc n) s l"
  shows "fst (ring_step x s) = fst (listener_step x l) \<and> ring_rel n (snd (ring_step x s)) (snd (listener_step x l))"
proof -
  obtain cn ind where s: "s = (cn, ind)" by fastforce
  have up: "\<not> cn_is_shutdown cn" using assms by (cases l) (simp_all add: s)
  show ?thesis
  proof (cases x)
    case (Notify info)
    show ?thesis
    proof (cases l)
      case (Behind xs)
      then have h: "ring_holds cn ind xs" "kBufLength + Suc n < 2 ^ 64" using assms by (simp_all add: s)
      then have "length xs \<le> kBufLength" by (simp add: ring_holds_def)
      then show ?thesis
        using h ring_holds_notice [OF h(1)] ring_holds_overrun [OF h(1) _ h(2)]
        by (auto simp: s Notify Behind up ConditionNotifier_Notify_def)
    next
      case Deaf
      then show ?thesis using assms overrun_notice by (simp add: s Notify up ConditionNotifier_Notify_def)
    qed
  next
    case (Listen timeout_ms)
    have listen: "ConditionNotifier_Listen timeout_ms (\<lambda>t. (ind, False)) cn = try_listen cn ind"
      by (simp add: ConditionNotifier_Listen_def up listen_loop_const)
    show ?thesis
    proof (cases l)
      case (Behind xs)
      then have h: "ring_holds cn ind xs" "kBufLength + Suc n < 2 ^ 64" using assms by (simp_all add: s)
      show ?thesis
      proof (cases xs)
        case Nil
        then show ?thesis using h ring_holds_listen_none [of cn ind] by (simp add: s Listen Behind listen up)
      next
        case (Cons y ys)
        then show ?thesis using h ring_holds_listen_some [of cn ind y ys] by (simp add: s Listen Behind listen up)
      qed
    next
      case Deaf
      then have o: "overrun (Suc n) cn ind" using assms by (simp add: s)
      then have "overrun n cn ind" unfolding overrun_def by (metis add_Suc_right Suc_lessD)
      then show ?thesis using overrun_listen [OF o] by (simp add: s Listen Deaf listen up)
    qed
  qed
qed



end
