(* ===== verification/ShmDelivery.thy ===== *)
theory ShmDelivery
  imports ShmTransport
begin

text \<open>
  A message from one process to another: transmitting (\<open>shm_transmitter.h\<close>), the segment
  (\<open>segment.cc\<close>), the notifier (\<open>condition_notifier.cc\<close>), the receiving thread (\<open>shm_dispatcher.cc\<close>) and
  the listeners (\<open>listener_handler.h\<close>) together.  The theory shows that every message whose transmission
  succeeds reaches the listeners unchanged, also when the transmission had to replace the
  segment by a larger one that the reader has not attached to yet.
\<close>

section \<open>Segments that fit together\<close>

definition conf_of :: "shm_object \<Rightarrow> shm_conf" where
  "conf_of ob = ShmConf_Update (st_ceiling_msg_size (so_state ob))"

definition object_ok :: "shm_object \<Rightarrow> bool" where
  "object_ok ob \<longleftrightarrow>
     \<not> st_need_remap (so_state ob) \<and> length (so_blocks ob) = unat (cf_block_num (conf_of ob))
     \<and> length (so_bufs ob) = unat (cf_block_num (conf_of ob))"

definition key_ok :: "u32 \<Rightarrow> shm_os \<Rightarrow> bool" where
  "key_ok key os \<longleftrightarrow> (\<forall>h. map_of (os_keys os) key = Some h \<longrightarrow> h < os_next os \<and> object_ok (os_objects os h))"

text \<open>A segment that is attached to the object that its key leads to.\<close>

definition attached_ok :: "segment \<Rightarrow> nat \<Rightarrow> shm_os \<Rightarrow> bool" where
  "attached_ok sg h os \<longleftrightarrow>
     sg_init sg \<and> sg_shm sg = Some h \<and> map_of (os_keys os) (sg_id sg) = Some h \<and> h < os_next os
     \<and> object_ok (os_objects os h) \<and> sg_conf sg = conf_of (os_objects os h)"

definition writer_ok :: "segment \<Rightarrow> shm_os \<Rightarrow> bool" where
  "writer_ok sg os \<longleftrightarrow>
     sg_mode sg = WRITE_ONLY \<and> key_ok (sg_id sg) os
     \<and> (sg_init sg \<longrightarrow>
          (\<exists>h. sg_shm sg = Some h \<and> h < os_next os
             \<and> (st_need_remap (so_state (os_objects os h)) \<or> attached_ok sg h os)))"

text \<open>
  A reader is attached to the object of its key, or to an older one that is marked as replaced and
  did not have fewer blocks.
\<close>

definition reader_ok :: "segment \<Rightarrow> shm_os \<Rightarrow> bool" where
  "reader_ok sg os \<longleftrightarrow>
     sg_mode sg = READ_ONLY
     \<and> (sg_init sg \<longrightarrow>
          (\<exists>h h'. sg_shm sg = Some h \<and> h < os_next os \<and> map_of (os_keys os) (sg_id sg) = Some h'
             \<and> (h = h' \<and> sg_conf sg = conf_of (os_objects os h)
                \<or> h \<noteq> h' \<and> st_need_remap (so_state (os_objects os h))
                  \<and> cf_block_num (conf_of (os_objects os h')) \<le> cf_block_num (sg_conf sg))))"

definition keeps :: "u32 \<Rightarrow> shm_os \<Rightarrow> shm_os \<Rightarrow> bool" where
  "keeps key os os' \<longleftrightarrow> (\<forall>r. sg_id r = key \<longrightarrow> reader_ok r os \<longrightarrow> reader_ok r os')"

lemma keeps_refl [simp]: "keeps key os os"
  by (simp add: keeps_def)

lemma keeps_trans: "keeps key os os' \<Longrightarrow> keeps key os' os'' \<Longrightarrow> keeps key os os''"
  by (auto simp: keeps_def)

text \<open>Changes of an object that readers do not look at.\<close>

definition same_state :: "shm_object \<Rightarrow> shm_object \<Rightarrow> bool" where
  "same_state ob ob' \<longleftrightarrow>
     st_need_remap (so_state ob') = st_need_remap (so_state ob)
     \<and> st_ceiling_msg_size (so_state ob') = st_ceiling_msg_size (so_state ob)
     \<and> length (so_blocks ob') = length (so_blocks ob) \<and> length (so_bufs ob') = length (so_bufs ob)"

lemma same_stateD:
  assumes "same_state ob ob'"
  shows "conf_of ob' = conf_of ob" and "st_need_remap (so_state ob') = st_need_remap (so_state ob)"
    and "object_ok ob' = object_ok ob"
  using assms by (simp_all add: same_state_def conf_of_def object_ok_def)

lemma set_object_simps [simp]:
  "os_keys (set_object h ob os) = os_keys os" "os_next (set_object h ob os) = os_next os"
  "os_objects (set_object h ob os) = (os_objects os)(h := ob)"
  by (simp_all add: set_object_def)

lemma keeps_set_object: "same_state (os_objects os h) ob \<Longrightarrow> keeps key os (set_object h ob os)"
  unfolding keeps_def reader_ok_def by (auto simp: same_stateD)

lemma attached_ok_set_object:
  "attached_ok sg h os \<Longrightarrow> same_state (os_objects os h) ob \<Longrightarrow> attached_ok sg h (set_object h ob os)"
  by (simp add: attached_ok_def same_stateD)

section \<open>Opening\<close>

lemma OpenOnly_attached:
  assumes "\<not> sg_init sg" and "key_ok (sg_id sg) os" and "Segment_OpenOnly sg os = (True, sg', os')"
  shows "\<exists>h. attached_ok sg' h os' \<and> sg_id sg' = sg_id sg \<and> sg_mode sg' = sg_mode sg \<and> keeps (sg_id sg) os os'
    \<and> os_keys os' = os_keys os"
proof -
  obtain h where h: "map_of (os_keys os) (sg_id sg) = Some h"
    using assms(1,3) by (auto simp: Segment_OpenOnly_def Let_def split: option.splits)
  let ?ob = "(os_objects os h)\<lparr>so_state := State_IncreaseReferenceCounts (so_state (os_objects os h))\<rparr>"
  have same: "same_state (os_objects os h) ?ob" by (simp add: same_state_def State_IncreaseReferenceCounts_def)
  have os': "os' = set_object h ?ob os" and sg': "sg' = sg\<lparr>sg_shm := Some h, sg_conf := conf_of (os_objects os h), sg_init := True\<rparr>"
    using assms(1,3) h by (auto simp: Segment_OpenOnly_def Let_def conf_of_def)
  have "attached_ok sg' h os'"
    using assms(2) h by (auto simp: attached_ok_def os' sg' key_ok_def same_stateD [OF same])
  then show ?thesis using keeps_set_object [OF same] by (auto simp: os' sg')
qed

text \<open>Creating an object under a key that is free.\<close>

definition new_os :: "u32 \<Rightarrow> shm_object \<Rightarrow> shm_os \<Rightarrow> shm_os" where
  "new_os key ob os =
     os\<lparr>os_keys := (key, os_next os) # os_keys os, os_next := Suc (os_next os), os_objects := (os_objects os)(os_next os := ob)\<rparr>"

lemma create_loop_free:
  assumes "map_of (os_keys os) (sg_id sg) = None" and "create_loop n sg os = (r, sg', os')"
  shows "r = Create_failed
    \<or> r = Created (os_next os) \<and> (sg' = sg \<or> sg' = Segment_Reset sg)
      \<and> os' = new_os (sg_id sg) (empty_object (cf_managed_shm_size (sg_conf sg))) os"
  using assms
proof (induction n arbitrary: sg)
  case (Suc n)
  show ?case
  proof (cases "shmget_create (sg_id sg) (cf_managed_shm_size (sg_conf sg)) os")
    case (Pair res os1)
    show ?thesis
    proof (cases res)
      case (Shm_id h)
      then show ?thesis using Suc.prems Pair
        by (auto simp: shmget_create_def new_os_def split: if_splits)
    next
      case Err_EINVAL
      then have "os1 = os" using Pair Suc.prems(1) by (auto simp: shmget_create_def split: if_splits)
      then have "create_loop n (Segment_Reset sg) os = (r, sg', os')"
        using Suc.prems Pair Err_EINVAL by (simp add: Let_def Segment_Remove_def Segment_Reset_def)
      then show ?thesis using Suc.IH [of "Segment_Reset sg"] Suc.prems(1) by (auto simp: Segment_Reset_def)
    next
      case Err_EEXIST
      then show ?thesis using Pair Suc.prems(1) by (simp add: shmget_create_def split: if_splits)
    next
      case Err_other
      then show ?thesis using Pair Suc.prems(2) by simp
    qed
  qed
qed simp

definition new_object :: "shm_conf \<Rightarrow> shm_object" where
  "new_object conf =
     (let st = State_new (cf_ceiling_msg_size conf); n = unat (cf_block_num (ShmConf_Update (cf_ceiling_msg_size conf)))
      in \<lparr>so_size = cf_managed_shm_size conf, so_state = State_IncreaseReferenceCounts st,
          so_blocks = replicate n Block_new, so_bufs = replicate n []\<rparr>)"

lemma new_object_conf [simp]: "conf_of (new_object conf) = ShmConf_Update (cf_ceiling_msg_size conf)"
  by (simp add: conf_of_def new_object_def Let_def State_IncreaseReferenceCounts_def State_new_def)

lemma new_object_ok [simp]: "object_ok (new_object conf)"
  unfolding object_ok_def new_object_conf
  by (simp add: new_object_def Let_def State_IncreaseReferenceCounts_def State_new_def)

lemma OpenOrCreate_free:
  assumes "\<not> sg_init sg" and "map_of (os_keys os) (sg_id sg) = None" and "Segment_OpenOrCreate sg os = (True, sg', os')"
  shows "os' = new_os (sg_id sg) (new_object (sg_conf sg)) os \<and> attached_ok sg' (os_next os) os'
    \<and> sg_id sg' = sg_id sg \<and> sg_mode sg' = sg_mode sg"
proof -
  obtain r sg1 os1 where c: "create_loop 2 sg os = (r, sg1, os1)" by (metis prod_cases3)
  have r: "r = Created (os_next os)" "sg1 = sg \<or> sg1 = Segment_Reset sg"
    "os1 = new_os (sg_id sg) (empty_object (cf_managed_shm_size (sg_conf sg))) os"
    using create_loop_free [OF assms(2) c] assms(1,3) c by (auto simp: Segment_OpenOrCreate_def)
  have os': "os' = new_os (sg_id sg) (new_object (sg_conf sg)) os"
    and sg': "sg' = sg1\<lparr>sg_shm := Some (os_next os), sg_conf := conf_of (new_object (sg_conf sg)), sg_init := True\<rparr>"
    using assms(1,3) r
    by (auto simp: Segment_OpenOrCreate_def c Let_def new_os_def new_object_def set_object_def empty_object_def
        Segment_Reset_def conf_of_def State_new_def State_IncreaseReferenceCounts_def)
  show ?thesis
    using r(2) by (auto simp: os' sg' attached_ok_def new_os_def Segment_Reset_def)
qed

lemma create_loop_taken:
  assumes "map_of (os_keys os) (sg_id sg) = Some h"
  shows "create_loop 2 sg os = (Already_exists, sg, os)"
  using assms by (simp add: numeral_2_eq_2 shmget_create_def)

lemma OpenOrCreate_attached:
  assumes "\<not> sg_init sg" and "key_ok (sg_id sg) os" and "Segment_OpenOrCreate sg os = (True, sg', os')"
  shows "\<exists>h. attached_ok sg' h os' \<and> sg_id sg' = sg_id sg \<and> sg_mode sg' = sg_mode sg \<and> keeps (sg_id sg) os os'"
proof (cases "map_of (os_keys os) (sg_id sg)")
  case None
  have "keeps (sg_id sg) os os'" unfolding keeps_def reader_ok_def using None by auto
  then show ?thesis using OpenOrCreate_free [OF assms(1) None assms(3)] by blast
next
  case (Some h)
  then have "Segment_OpenOnly sg os = (True, sg', os')"
    using assms(1,3) by (simp add: Segment_OpenOrCreate_def create_loop_taken)
  then show ?thesis using OpenOnly_attached [OF assms(1,2)] by blast
qed

section \<open>Replacing\<close>

lemma ShmConf_Update_idem [simp]:
  "ShmConf_Update (cf_ceiling_msg_size (ShmConf_Update n)) = ShmConf_Update n"
  by (simp add: ShmConf_Update_def GetCeilingMessageSize_def Let_def)

text \<open>Larger buffers mean fewer of them.\<close>

lemma block_num_antimono:
  assumes "cf_ceiling_msg_size (ShmConf_Update a) < n"
  shows "cf_block_num (ShmConf_Update n) \<le> cf_block_num (ShmConf_Update a)"
proof -
  obtain c num where a: "(c, num) \<in> set shm_confs" "unat (cf_ceiling_msg_size (ShmConf_Update a)) = c"
    "unat (cf_block_num (ShmConf_Update a)) = num"
    using ShmConf_Update_cases [of a] by blast
  obtain c' num' where n: "(c', num') \<in> set shm_confs" "unat (cf_block_num (ShmConf_Update n)) = num'"
    "unat n \<le> c' \<or> c' = 33554432"
    using ShmConf_Update_cases [of n] by blast
  have "c < unat n" using assms a(2) by (simp add: word_less_nat_alt)
  then have "num' \<le> num" using a(1) n(1,3) by (auto simp: shm_confs_def)
  then show ?thesis using a(3) n(2) by (simp add: word_le_nat_alt)
qed

lemma Recreate_attached:
  assumes "attached_ok sg h os" and "cf_ceiling_msg_size (sg_conf sg) < n"
    and "Segment_Recreate (sg\<lparr>sg_conf := ShmConf_Update n\<rparr>) os = Inr (True, sg', os')"
  shows "\<exists>h'. attached_ok sg' h' os' \<and> sg_id sg' = sg_id sg \<and> sg_mode sg' = sg_mode sg \<and> keeps (sg_id sg) os os'"
proof -
  let ?ob = "(os_objects os h)\<lparr>so_state := (so_state (os_objects os h))\<lparr>st_need_remap := True\<rparr>\<rparr>"
  let ?sg = "Segment_Reset (sg\<lparr>sg_conf := ShmConf_Update n, sg_init := False\<rparr>)"
  let ?os = "(set_object h ?ob os)\<lparr>os_keys := AList.delete (sg_id sg) (os_keys os)\<rparr>"
  have at: "sg_shm sg = Some h" "map_of (os_keys os) (sg_id sg) = Some h" "h < os_next os"
    "sg_conf sg = conf_of (os_objects os h)"
    using assms(1) by (simp_all add: attached_ok_def)
  have created: "Segment_OpenOrCreate ?sg ?os = (True, sg', os')"
    using assms(3) by (simp add: Segment_Recreate_def attached_def at Let_def Segment_Remove_def Segment_Reset_def)
  have sg: "\<not> sg_init ?sg" "map_of (os_keys ?os) (sg_id ?sg) = None" "sg_id ?sg = sg_id sg" "sg_mode ?sg = sg_mode sg"
    "sg_conf ?sg = ShmConf_Update n" "os_next ?os = os_next os"
    by (simp_all add: Segment_Reset_def delete_conv')
  note new = OpenOrCreate_free [OF sg(1,2) created, unfolded sg(3-6)]
  have num: "cf_block_num (ShmConf_Update n) \<le> cf_block_num (conf_of (os_objects os h))"
    using assms(2) at(4) block_num_antimono unfolding conf_of_def by simp
  have os': "os' = new_os (sg_id sg) (new_object (ShmConf_Update n)) ?os" using new by (elim conjE)
  have "reader_ok r os'" if r: "sg_id r = sg_id sg" "reader_ok r os" for r
  proof (cases "sg_init r")
    case True
    obtain g where g: "sg_shm r = Some g" "g < os_next os" "sg_mode r = READ_ONLY"
      "g = h \<and> sg_conf r = conf_of (os_objects os h)
       \<or> g \<noteq> h \<and> st_need_remap (so_state (os_objects os g)) \<and> cf_block_num (conf_of (os_objects os h)) \<le> cf_block_num (sg_conf r)"
      using r True at(2) unfolding reader_ok_def by auto
    have "map_of (os_keys os') (sg_id r) = Some (os_next os)" "conf_of (os_objects os' (os_next os)) = ShmConf_Update n"
      "g < os_next os'" "st_need_remap (so_state (os_objects os' g))"
      using g(2,4) r(1) by (auto simp: os' new_os_def)
    moreover have "cf_block_num (ShmConf_Update n) \<le> cf_block_num (sg_conf r)" using g(4) num by auto
    ultimately show ?thesis using g(1-3) unfolding reader_ok_def by auto
  qed (use r in \<open>simp add: reader_ok_def\<close>)
  then show ?thesis using new unfolding keeps_def by blast
qed

definition writable_at :: "shm_block list \<Rightarrow> u32 \<Rightarrow> u32 \<times> shm_block list \<Rightarrow> bool" where
  "writable_at blocks num r \<longleftrightarrow>
     snd r = blocks[unat (fst r) := (blocks ! unat (fst r))\<lparr>bl_lock_num := - 1\<rparr>] \<and> fst r < num"

lemma next_writable_result:
  assumes "next_writable blocks num i = Some r" and "num \<noteq> 0"
  shows "writable_at blocks num r"
proof -
  have "num \<noteq> 0 \<longrightarrow> writable_at blocks num r"
  proof (rule next_writable.raw_induct [OF _ assms(1)])
    fix f :: "shm_block list \<Rightarrow> u32 \<Rightarrow> u32 \<Rightarrow> (u32 \<times> shm_block list) option"
    fix blocks :: "shm_block list" and num i :: u32 and r
    assume IH: "\<And>blocks num i r. f blocks num i = Some r \<Longrightarrow> num \<noteq> 0 \<longrightarrow> writable_at blocks num r"
    assume step: "(let i = if num \<le> i then i AND (num - 1) else i
      in case Block_TryLockForWrite (blocks ! unat i) of
           (locked, b) \<Rightarrow> if locked then Some (i, blocks[unat i := b]) else f blocks num (i + 1)) = Some r"
    define k where "k = (if num \<le> i then i AND (num - 1) else i)"
    have "num - 1 < num" if "num \<noteq> 0" using that by (simp add: word_less_nat_alt unat_minus_one unat_gt_0)
    then have "k < num" if "num \<noteq> 0"
      using word_and_le1 [of i "num - 1"] that by (auto simp: k_def intro: le_less_trans)
    then show "num \<noteq> 0 \<longrightarrow> writable_at blocks num r"
      using step IH [of blocks num "k + 1" r] unfolding k_def [symmetric]
      by (auto simp: Let_def Block_TryLockForWrite_def writable_at_def split: if_splits)
  qed
  with assms(2) show ?thesis by simp
qed

section \<open>Acquiring a block for writing\<close>

lemma attached_ok_attached: "attached_ok sg h os \<Longrightarrow> attached sg = Inr h"
  by (simp add: attached_ok_def attached_def)

lemma AcquireBlockToWrite_cases:
  assumes "Segment_AcquireBlockToWrite n sg os = Some (Inr (Some i, sg', os'))"
  obtains sg1 os1 h1 ok sg2 os2 os3 h where
    "(if sg_init sg then (True, sg, os) else Segment_Init sg os) = (True, sg1, os1)" and "attached sg1 = Inr h1"
    and "(if st_need_remap (so_state (os_objects os1 h1)) then Segment_Remap sg1 os1 else (True, sg1, os1)) = (ok, sg2, os2)"
    and "(if cf_ceiling_msg_size (sg_conf sg2) < n then Segment_Recreate (sg2\<lparr>sg_conf := ShmConf_Update n\<rparr>) os2
          else Inr (ok, sg2, os2)) = Inr (True, sg', os3)"
    and "attached sg' = Inr h" and "Segment_GetNextWritableBlockIndex sg' h os3 = Some (i, os')"
proof -
  obtain b sg1 os1 where 1: "(if sg_init sg then (True, sg, os) else Segment_Init sg os) = (b, sg1, os1)"
    by (metis prod_cases3)
  note a = assms [unfolded Segment_AcquireBlockToWrite_def 1]
  from a have b by (cases b) simp_all
  with a obtain h1 where 2: "attached sg1 = Inr h1" by (cases "attached sg1") simp_all
  obtain ok sg2 os2 where
    3: "(if st_need_remap (so_state (os_objects os1 h1)) then Segment_Remap sg1 os1 else (True, sg1, os1)) = (ok, sg2, os2)"
    by (metis prod_cases3)
  let ?r = "if cf_ceiling_msg_size (sg_conf sg2) < n then Segment_Recreate (sg2\<lparr>sg_conf := ShmConf_Update n\<rparr>) os2
    else Inr (ok, sg2, os2)"
  have a: "(case ?r of
      Inl e \<Rightarrow> Some (Inl e)
    | Inr (False, sg, os) \<Rightarrow> Some (Inr (None, sg, os))
    | Inr (True, sg, os) \<Rightarrow>
        (case attached sg of
           Inl e \<Rightarrow> Some (Inl e)
         | Inr h \<Rightarrow>
             (case Segment_GetNextWritableBlockIndex sg h os of
                None \<Rightarrow> None
              | Some (i, os) \<Rightarrow> Some (Inr (Some i, sg, os))))) = Some (Inr (Some i, sg', os'))"
    using a \<open>b\<close> by (simp only: 2 3 sum.case prod.case bool.case)
  then obtain c sg3 os3 where 4: "?r = Inr (c, sg3, os3)" by (cases ?r) auto
  note a = a [unfolded 4]
  from a have c by (cases c) simp_all
  with a obtain h where 5: "attached sg3 = Inr h" by (cases "attached sg3") simp_all
  from a \<open>c\<close> have 6: "sg3 = sg'" "Segment_GetNextWritableBlockIndex sg3 h os3 = Some (i, os')"
    by (auto simp: 5 split: option.splits)
  have "b = True" "c = True" using \<open>b\<close> \<open>c\<close> by simp_all
  then show ?thesis
    using 1 4 5 6 by (intro that [OF _ 2 3]) simp_all
qed

lemma writer_init:
  assumes "writer_ok sg os" and "(if sg_init sg then (True, sg, os) else Segment_Init sg os) = (True, sg1, os1)"
    and "attached sg1 = Inr h1"
  shows "sg_id sg1 = sg_id sg \<and> sg_mode sg1 = WRITE_ONLY \<and> keeps (sg_id sg) os os1 \<and> key_ok (sg_id sg) os1
    \<and> (st_need_remap (so_state (os_objects os1 h1)) \<or> attached_ok sg1 h1 os1)"
proof (cases "sg_init sg")
  case True
  then show ?thesis using assms by (auto simp: writer_ok_def attached_def)
next
  case False
  then have "Segment_OpenOrCreate sg os = (True, sg1, os1)"
    using assms by (simp add: Segment_Init_def writer_ok_def)
  then obtain h where h: "attached_ok sg1 h os1" "sg_id sg1 = sg_id sg" "sg_mode sg1 = sg_mode sg" "keeps (sg_id sg) os os1"
    using OpenOrCreate_attached [OF False] assms(1) unfolding writer_ok_def by blast
  then have "h = h1" using assms(3) attached_ok_attached by fastforce
  with h show ?thesis using assms(1) by (auto simp: writer_ok_def key_ok_def attached_ok_def)
qed

lemma writer_remap:
  assumes "key_ok (sg_id sg) os" and "st_need_remap (so_state (os_objects os h)) \<or> attached_ok sg h os"
    and "(if st_need_remap (so_state (os_objects os h)) then Segment_Remap sg os else (True, sg, os)) = (True, sg', os')"
  shows "\<exists>h'. attached_ok sg' h' os' \<and> sg_id sg' = sg_id sg \<and> sg_mode sg' = sg_mode sg \<and> keeps (sg_id sg) os os'"
proof (cases "st_need_remap (so_state (os_objects os h))")
  case True
  let ?sg = "Segment_Reset (sg\<lparr>sg_init := False\<rparr>)"
  have "Segment_OpenOnly ?sg os = (True, sg', os')" using assms(3) True by (simp add: Segment_Remap_def)
  then show ?thesis using OpenOnly_attached [of ?sg os] assms(1) by (auto simp: Segment_Reset_def)
next
  case False
  then show ?thesis using assms(2,3) by auto
qed

text \<open>A failed attempt to attach leaves nothing to be replaced.\<close>

lemma remap_failed: "Segment_Remap sg os = (False, sg', os') \<Longrightarrow> attached (sg'\<lparr>sg_conf := c\<rparr>) = Inl Undefined"
  by (auto simp: Segment_Remap_def Segment_OpenOnly_def Segment_Reset_def Let_def attached_def split: option.splits)

text \<open>The block that is locked for writing belongs to the object of the key, and readers keep working.\<close>

lemma AcquireBlockToWrite_attached:
  assumes "writer_ok sg os" and "Segment_AcquireBlockToWrite n sg os = Some (Inr (Some i, sg', os'))"
  shows "\<exists>h. attached_ok sg' h os' \<and> sg_id sg' = sg_id sg \<and> keeps (sg_id sg) os os'
    \<and> i < cf_block_num (sg_conf sg') \<and> bl_lock_num (so_blocks (os_objects os' h) ! unat i) = - 1"
proof -
  obtain sg1 os1 h1 ok sg2 os2 os3 h where
    1: "(if sg_init sg then (True, sg, os) else Segment_Init sg os) = (True, sg1, os1)" "attached sg1 = Inr h1"
    and 2: "(if st_need_remap (so_state (os_objects os1 h1)) then Segment_Remap sg1 os1 else (True, sg1, os1)) = (ok, sg2, os2)"
    and 3: "(if cf_ceiling_msg_size (sg_conf sg2) < n then Segment_Recreate (sg2\<lparr>sg_conf := ShmConf_Update n\<rparr>) os2
          else Inr (ok, sg2, os2)) = Inr (True, sg', os3)"
    and 4: "attached sg' = Inr h" "Segment_GetNextWritableBlockIndex sg' h os3 = Some (i, os')"
    by (rule AcquireBlockToWrite_cases [OF assms(2)])
  note w1 = writer_init [OF assms(1) 1]
  have ok
  proof (rule ccontr)
    assume "\<not> ok"
    then have "Segment_Remap sg1 os1 = (False, sg2, os2)" using 2 by (auto split: if_splits)
    from remap_failed [OF this] show False using 3 \<open>\<not> ok\<close> by (auto simp: Segment_Recreate_def split: if_splits)
  qed
  then have "\<exists>h'. attached_ok sg2 h' os2 \<and> sg_id sg2 = sg_id sg1 \<and> sg_mode sg2 = sg_mode sg1 \<and> keeps (sg_id sg1) os1 os2"
    using w1 2 by (intro writer_remap [of sg1 os1 h1]) simp_all
  then obtain h2 where w2: "attached_ok sg2 h2 os2" "sg_id sg2 = sg_id sg" "keeps (sg_id sg) os os2"
    using w1 keeps_trans [of "sg_id sg" os os1 os2] by auto
  have "\<exists>h'. attached_ok sg' h' os3 \<and> sg_id sg' = sg_id sg \<and> keeps (sg_id sg) os os3"
  proof (cases "cf_ceiling_msg_size (sg_conf sg2) < n")
    case True
    then have "Segment_Recreate (sg2\<lparr>sg_conf := ShmConf_Update n\<rparr>) os2 = Inr (True, sg', os3)" using 3 by simp
    from Recreate_attached [OF w2(1) True this] show ?thesis
      using w2(2,3) keeps_trans [of "sg_id sg" os os2 os3] by auto
  qed (use 3 w2 \<open>ok\<close> in auto)
  then have w3: "attached_ok sg' h os3" "sg_id sg' = sg_id sg" "keeps (sg_id sg) os os3"
    using 4(1) attached_ok_attached by fastforce+
  obtain bs where bs: "next_writable (so_blocks (os_objects os3 h)) (cf_block_num (sg_conf sg')) (st_wrote_num (so_state (os_objects os3 h))) = Some (i, bs)"
    "os' = set_object h ((os_objects os3 h)\<lparr>so_blocks := bs, so_state := State_IncreaseWroteNum (so_state (os_objects os3 h))\<rparr>) os3"
    using 4(2) by (auto simp: Segment_GetNextWritableBlockIndex_def Let_def split: option.splits)
  have len: "length (so_blocks (os_objects os3 h)) = unat (cf_block_num (sg_conf sg'))"
    using w3(1) by (simp add: attached_ok_def object_ok_def)
  obtain c num where "(c, num) \<in> set shm_confs" "unat (cf_block_num (conf_of (os_objects os3 h))) = num"
    using ShmConf_Update_cases [of "st_ceiling_msg_size (so_state (os_objects os3 h))"] unfolding conf_of_def by blast
  then have "cf_block_num (sg_conf sg') \<noteq> 0" using w3(1) by (auto simp: attached_ok_def shm_confs_def)
  from next_writable_result [OF bs(1) this]
  have r: "bs = (so_blocks (os_objects os3 h))[unat i := (so_blocks (os_objects os3 h) ! unat i)\<lparr>bl_lock_num := - 1\<rparr>]"
    "i < cf_block_num (sg_conf sg')"
    by (simp_all add: writable_at_def)
  let ?ob = "(os_objects os3 h)\<lparr>so_blocks := bs, so_state := State_IncreaseWroteNum (so_state (os_objects os3 h))\<rparr>"
  have same: "same_state (os_objects os3 h) ?ob" by (simp add: same_state_def r(1) State_IncreaseWroteNum_def)
  show ?thesis
    using attached_ok_set_object [OF w3(1) same] keeps_trans [OF w3(3) keeps_set_object [OF same]] w3(2) r len
    by (auto simp: bs(2) word_less_nat_alt)
qed

section \<open>Writing and reading a block\<close>

lemma write_at_start: "write_at 0 bytes buf = bytes @ drop (length bytes) buf"
  by (simp add: write_at_def)

lemma write_at_end: "write_at (length a) b (a @ r) = a @ b @ drop (length b) r"
  by (simp add: write_at_def)

text \<open>What a block holds after a message was written and its lock released.\<close>

definition block_holds :: "string \<Rightarrow> u64 \<Rightarrow> message_info \<Rightarrow> u32 \<Rightarrow> shm_object \<Rightarrow> bool" where
  "block_holds bytes n info i ob \<longleftrightarrow>
     unat i < length (so_bufs ob) \<and> unat i < length (so_blocks ob)
     \<and> (\<exists>rest. so_bufs ob ! unat i = bytes @ MessageInfo_bytes info @ rest)
     \<and> so_blocks ob ! unat i = \<lparr>bl_lock_num = 0, bl_msg_size = n, bl_msg_info_size = of_nat MessageInfo_kSize\<rparr>"

lemma set_object_twice [simp]: "set_object h ob' (set_object h ob os) = set_object h ob' os"
  by (simp add: set_object_def)

lemma fill_block_written:
  assumes "attached_ok sg h os" and "i < cf_block_num (sg_conf sg)"
    and "bl_lock_num (so_blocks (os_objects os h) ! unat i) = - 1"
    and "SerializeToArray msg (int_of_size n) = Some bytes" and "length bytes = unat n"
    and "fill_block SerializeToArray msg n info i sg os = Inr (True, os1)"
    and "Segment_ReleaseWrittenBlock i sg os1 = Inr os2"
  shows "\<exists>ob. os2 = set_object h ob os \<and> same_state (os_objects os h) ob \<and> block_holds bytes n info i ob"
proof -
  let ?ob = "os_objects os h"
  have at: "attached sg = Inr h" using assms(1) by (rule attached_ok_attached)
  have len: "unat i < length (so_blocks ?ob)" "unat i < length (so_bufs ?ob)"
    using assms(1,2) by (simp_all add: attached_ok_def object_ok_def word_less_nat_alt)
  define ob where "ob = ?ob\<lparr>so_bufs := (so_bufs ?ob)[unat i := bytes @ MessageInfo_bytes info
      @ drop (length (MessageInfo_bytes info)) (drop (unat n) (so_bufs ?ob ! unat i))],
    so_blocks := (so_blocks ?ob)[unat i := (so_blocks ?ob ! unat i)
      \<lparr>bl_msg_size := n, bl_msg_info_size := of_nat MessageInfo_kSize, bl_lock_num := 0\<rparr>]\<rparr>"
  have "os2 = set_object h ob os"
    using assms(2-4,6,7) len
    by (auto simp: fill_block_def write_buf_def update_block_def at Let_def MessageInfo_SerializeTo_def assms(5) [symmetric]
        write_at_start write_at_end Segment_ReleaseWrittenBlock_def ob_def not_le [symmetric]
        split: if_splits)
  moreover have "same_state ?ob ob" "block_holds bytes n info i ob"
    using len by (cases "so_blocks ?ob ! unat i"; auto simp: ob_def same_state_def block_holds_def)+
  ultimately show ?thesis by blast
qed

lemma try_read_free: "bl_lock_num b = 0 \<Longrightarrow> try_read b = (True, b\<lparr>bl_lock_num := 1\<rparr>)"
  by (simp add: try_read_def Block_TryLockForRead_def read_attempts.simps)

text \<open>Attaching to the object of a key.\<close>

lemma OpenOnly_key:
  assumes "\<not> sg_init sg" and "map_of (os_keys os) (sg_id sg) = Some h"
  shows "Segment_OpenOnly sg os =
    (True, sg\<lparr>sg_shm := Some h, sg_conf := conf_of (os_objects os h), sg_init := True\<rparr>,
     set_object h ((os_objects os h)\<lparr>so_state := State_IncreaseReferenceCounts (so_state (os_objects os h))\<rparr>) os)"
  using assms by (simp add: Segment_OpenOnly_def Let_def conf_of_def)

lemma AcquireBlockToRead_attached:
  assumes "reader_ok sg os" and "map_of (os_keys os) (sg_id sg) = Some h" and "object_ok (os_objects os h)"
    and "i < cf_block_num (conf_of (os_objects os h))" and "bl_lock_num (so_blocks (os_objects os h) ! unat i) = 0"
  shows "\<exists>sg' st. Segment_AcquireBlockToRead i sg os =
      Inr (True, sg', set_object h ((os_objects os h)\<lparr>so_state := st,
        so_blocks := (so_blocks (os_objects os h))[unat i := (so_blocks (os_objects os h) ! unat i)\<lparr>bl_lock_num := 1\<rparr>]\<rparr>) os)
    \<and> sg_shm sg' = Some h \<and> sg_conf sg' = conf_of (os_objects os h)"
proof -
  let ?ob = "os_objects os h"
  have i: "unat i < length (so_blocks ?ob)" "\<not> cf_block_num (conf_of ?ob) \<le> i" "\<not> st_need_remap (so_state ?ob)"
    using assms(3,4) by (simp_all add: object_ok_def word_less_nat_alt not_le)
  consider (fresh) "\<not> sg_init sg" | (here) "sg_init sg" "sg_shm sg = Some h" "sg_conf sg = conf_of ?ob"
    | (older) g where "sg_init sg" "sg_shm sg = Some g" "st_need_remap (so_state (os_objects os g))"
        "cf_block_num (conf_of ?ob) \<le> cf_block_num (sg_conf sg)"
    using assms(1,2) by (auto simp: reader_ok_def)
  then show ?thesis
  proof cases
    case fresh
    then have "Segment_Init sg os = Segment_OpenOnly sg os" using assms(1) by (simp add: Segment_Init_def reader_ok_def)
    then show ?thesis
      using fresh i by (simp add: Segment_AcquireBlockToRead_def OpenOnly_key [OF fresh assms(2)] attached_def
          State_IncreaseReferenceCounts_def Let_def try_read_free [OF assms(5)]) blast
  next
    case here
    then show ?thesis
      using i by (simp add: Segment_AcquireBlockToRead_def attached_def Let_def try_read_free [OF assms(5)])
        (rule exI [of _ "so_state ?ob"], simp)
  next
    case older
    have "\<not> cf_block_num (sg_conf sg) \<le> i" using older(4) i(2) by (auto intro: order_trans)
    then show ?thesis
      using older i assms(2) by (simp add: Segment_AcquireBlockToRead_def attached_def Let_def Segment_Remap_def OpenOnly_key
          Segment_Reset_def State_IncreaseReferenceCounts_def try_read_free [OF assms(5)]) blast
  qed
qed

section \<open>From the transmitter to the listeners\<close>

lemma Transmit_written:
  assumes "tx_segment tx = Some sg" and "writer_ok sg os"
    and "SerializeToArray msg (int_of_size (ByteSize msg)) = Some bytes" and "length bytes = unat (ByteSize msg)"
    and "ShmTransmitter_Transmit ByteSize SerializeToArray ConditionNotifier_Notify msg info tx (os, ind)
           = Some (Inr (True, tx', os', ind'))"
  shows "\<exists>i h. keeps (sg_id sg) os os' \<and> map_of (os_keys os') (sg_id sg) = Some h \<and> object_ok (os_objects os' h)
    \<and> i < cf_block_num (conf_of (os_objects os' h)) \<and> block_holds bytes (ByteSize msg) info i (os_objects os' h)
    \<and> ind' = notice \<lparr>ri_host_id = tx_host_id tx, ri_block_index = i, ri_channel_id = tx_channel_id tx\<rparr> ind"
proof -
  obtain i sg1 os1 os2 where
    1: "Segment_AcquireBlockToWrite (ByteSize msg) sg os = Some (Inr (Some i, sg1, os1))"
    and 2: "fill_block SerializeToArray msg (ByteSize msg) info i sg1 os1 = Inr (True, os2)"
    and 3: "Segment_ReleaseWrittenBlock i sg1 os2 = Inr os'"
    and 4: "ind' = notice \<lparr>ri_host_id = tx_host_id tx, ri_block_index = i, ri_channel_id = tx_channel_id tx\<rparr> ind"
    using assms(1,5)
    by (auto simp: ShmTransmitter_Transmit_def bind_outcome_def ConditionNotifier_Notify_def Let_def
        split: if_splits option.splits sum.splits prod.splits)
  obtain h where h: "attached_ok sg1 h os1" "sg_id sg1 = sg_id sg" "keeps (sg_id sg) os os1"
    "i < cf_block_num (sg_conf sg1)" "bl_lock_num (so_blocks (os_objects os1 h) ! unat i) = - 1"
    using AcquireBlockToWrite_attached [OF assms(2) 1] by blast
  obtain ob where ob: "os' = set_object h ob os1" "same_state (os_objects os1 h) ob" "block_holds bytes (ByteSize msg) info i ob"
    using fill_block_written [OF h(1,4,5) assms(3,4) 2 3] by blast
  have "attached_ok sg1 h os'" unfolding ob(1) by (rule attached_ok_set_object [OF h(1) ob(2)])
  then have "map_of (os_keys os') (sg_id sg) = Some h" "object_ok (os_objects os' h)" "sg_conf sg1 = conf_of (os_objects os' h)"
    by (simp_all add: attached_ok_def h(2))
  moreover have "keeps (sg_id sg) os os'" unfolding ob(1) by (rule keeps_trans [OF h(3) keeps_set_object [OF ob(2)]])
  moreover have "os_objects os' h = ob" by (simp add: ob(1))
  ultimately show ?thesis using h(4) ob(3) 4 by metis
qed

lemma ListenerHandler_Run_received: "ListenerHandler_Run (received_info Hash info) h = ListenerHandler_Run info h"
  by (simp add: ListenerHandler_Run_def received_info_def)

lemma read_block_holds:
  assumes "buf = bytes @ MessageInfo_bytes info @ rest" and "length bytes = unat n" and "info_ok Hash info"
    and "ParseFromArray buf (int_of_size n) = Some msg"
    and "bl_msg_size b = n" and "bl_msg_info_size b = of_nat MessageInfo_kSize"
    and "\<not> di_is_shutdown d" and "map_of (di_msg_listeners d) channel_id = Some h"
  shows "fst (read_block Hash ParseFromArray channel_id buf b d)
    = map (\<lambda>l. (l, msg, received_info Hash info)) (fst (ListenerHandler_Run info h))"
proof -
  have "drop (unat n) buf = MessageInfo_bytes info @ rest" unfolding assms(1) by (simp add: assms(2) [symmetric])
  moreover have "unat (of_nat MessageInfo_kSize :: u64) = MessageInfo_kSize"
    by (simp add: MessageInfo_kSize_def ID_SIZE_def)
  ultimately show ?thesis
    using assms(4-8) MessageInfo_roundtrip [OF assms(3), of rest]
    by (simp add: read_block_def ShmDispatcher_OnMessage_def ListenerHandler_Run_received case_prod_beta)
qed

lemma ReadMessage_delivers:
  assumes "map_of (sd_segments d) channel_id = Some sg" and "reader_ok sg os"
    and "map_of (os_keys os) (sg_id sg) = Some h" and "object_ok (os_objects os h)"
    and "i < cf_block_num (conf_of (os_objects os h))" and "block_holds bytes n info i (os_objects os h)"
    and "length bytes = unat n" and "info_ok Hash info" and "\<And>rest. ParseFromArray (bytes @ rest) (int_of_size n) = Some msg"
    and "\<not> di_is_shutdown d" and "map_of (di_msg_listeners d) channel_id = Some lh"
  shows "\<exists>d' os'. ShmDispatcher_ReadMessage Hash ParseFromArray channel_id i d os
    = Inr (map (\<lambda>l. (l, msg, received_info Hash info)) (fst (ListenerHandler_Run info lh)), d', os')"
proof -
  let ?ob = "os_objects os h"
  have b: "so_blocks ?ob ! unat i = \<lparr>bl_lock_num = 0, bl_msg_size = n, bl_msg_info_size = of_nat MessageInfo_kSize\<rparr>"
    and len: "unat i < length (so_blocks ?ob)"
    using assms(6) by (simp_all add: block_holds_def)
  obtain rest where buf: "so_bufs ?ob ! unat i = bytes @ MessageInfo_bytes info @ rest"
    using assms(6) by (auto simp: block_holds_def)
  define b' where "b' = (so_blocks ?ob ! unat i)\<lparr>bl_lock_num := 1\<rparr>"
  obtain sg' st where acq: "Segment_AcquireBlockToRead i sg os = Inr (True, sg',
      set_object h (?ob\<lparr>so_state := st, so_blocks := (so_blocks ?ob)[unat i := b']\<rparr>) os)"
    "sg_shm sg' = Some h" "sg_conf sg' = conf_of ?ob"
    using AcquireBlockToRead_attached [OF assms(2-5)] b unfolding b'_def by auto
  let ?d = "d\<lparr>sd_segments := AList.update channel_id sg' (sd_segments d)\<rparr>"
  obtain calls d' where r: "read_block Hash ParseFromArray channel_id (so_bufs ?ob ! unat i) b' ?d = (calls, d')"
    by fastforce
  have "fst (read_block Hash ParseFromArray channel_id (so_bufs ?ob ! unat i) b' ?d)
      = map (\<lambda>l. (l, msg, received_info Hash info)) (fst (ListenerHandler_Run info lh))"
    using assms(7-11) by (intro read_block_holds [OF buf]) (simp_all add: buf b'_def b)
  then have calls: "calls = map (\<lambda>l. (l, msg, received_info Hash info)) (fst (ListenerHandler_Run info lh))"
    by (simp add: r)
  have "\<not> cf_block_num (conf_of ?ob) \<le> i" using assms(5) by simp
  then show ?thesis
    using len by (simp add: ShmDispatcher_ReadMessage_def assms(1) acq attached_def Let_def r calls
        Segment_ReleaseReadBlock_def update_block_def)
qed

text \<open>
  C1: A transmitted message is delivered.  When the transmission of a message succeeds and the
  receiver of the same host has got all earlier notices, the next turn of its thread calls exactly the
  listeners of the channel for that sender, each with the message that was sent and with equal information.
  The reader need not have attached to the segment before, and the transmission may have
  replaced the segment.  Serializing and parsing are only assumed to be inverse for this message.
\<close>

theorem transmitted_message_delivered:
  assumes "tx_segment tx = Some sg" and "writer_ok sg os"
    and "SerializeToArray msg (int_of_size (ByteSize msg)) = Some bytes" and "length bytes = unat (ByteSize msg)"
    and "\<And>rest. ParseFromArray (bytes @ rest) (int_of_size (ByteSize msg)) = Some msg"
    and "info_ok Hash info"
    and "ShmTransmitter_Transmit ByteSize SerializeToArray ConditionNotifier_Notify msg info tx (os, ind)
           = Some (Inr (True, tx', os', ind'))"
    and "\<not> di_is_shutdown d" and "sd_host_id d = tx_host_id tx"
    and "map_of (sd_segments d) (tx_channel_id tx) = Some rsg" and "reader_ok rsg os" and "sg_id rsg = sg_id sg"
    and "map_of (di_msg_listeners d) (tx_channel_id tx) = Some lh"
    and "\<not> cn_is_shutdown (sd_notifier d)" and "cn_next_seq (sd_notifier d) = in_next_seq ind"
  shows "MessageInfo_eq (received_info Hash info) info
    \<and> (\<exists>d' os''. ShmDispatcher_ThreadFunc_turn Hash ParseFromArray
          (\<lambda>timeout_ms. ConditionNotifier_Listen timeout_ms (\<lambda>t. (ind', False))) d os'
        = Inr (map (\<lambda>l. (l, msg, received_info Hash info)) (fst (ListenerHandler_Run info lh)), d', os''))"
proof -
  obtain i h where w: "keeps (sg_id sg) os os'" "map_of (os_keys os') (sg_id sg) = Some h" "object_ok (os_objects os' h)"
    "i < cf_block_num (conf_of (os_objects os' h))" "block_holds bytes (ByteSize msg) info i (os_objects os' h)"
    and ind': "ind' = notice \<lparr>ri_host_id = tx_host_id tx, ri_block_index = i, ri_channel_id = tx_channel_id tx\<rparr> ind"
    using Transmit_written [OF assms(1-4,7)] by blast
  let ?info = "\<lparr>ri_host_id = tx_host_id tx, ri_block_index = i, ri_channel_id = tx_channel_id tx\<rparr>"
  let ?cn = "sd_notifier d"
  have "ring_holds ?cn ind []" using assms(15) by (simp add: ring_holds_def)
  then have "ring_holds ?cn ind' [?info]" using ring_holds_notice [of ?cn ind "[]" ?info] by (simp add: ind' kBufLength_def)
  then have listen: "ConditionNotifier_Listen 100 (\<lambda>t. (ind', False)) ?cn = Some (?info, ?cn\<lparr>cn_next_seq := cn_next_seq ?cn + 1\<rparr>)"
    using ring_holds_listen_some assms(14) by (simp add: ConditionNotifier_Listen_def listen_loop_const)
  let ?d = "d\<lparr>sd_notifier := ?cn\<lparr>cn_next_seq := cn_next_seq ?cn + 1\<rparr>,
    sd_previous_indexes := AList.update (tx_channel_id tx) i (sd_previous_indexes d)\<rparr>"
  have "reader_ok rsg os'" using w(1) assms(11,12) by (simp add: keeps_def)
  then have "\<exists>d' os''. ShmDispatcher_ReadMessage Hash ParseFromArray (tx_channel_id tx) i ?d os'
      = Inr (map (\<lambda>l. (l, msg, received_info Hash info)) (fst (ListenerHandler_Run info lh)), d', os'')"
    using assms w by (intro ReadMessage_delivers [where sg = rsg and h = h and bytes = bytes and n = "ByteSize msg"]) simp_all
  then show ?thesis
    using MessageInfo_roundtrip [OF assms(6)] assms(8-10)
    by (simp add: ShmDispatcher_ThreadFunc_turn_def listen Let_def)
qed

text \<open>A message of two bytes on channel 7, with one listener.\<close>

definition sample_hash :: "string \<Rightarrow> u64" where
  "sample_hash s = of_nat (length s)"

definition sample_cn :: condition_notifier where
  "sample_cn = ConditionNotifier_new (Some Indicator_new)"

definition sample_tx :: "condition_notifier shm_transmitter" where
  "sample_tx = ShmTransmitter_Enable sample_cn (ShmTransmitter_new sample_hash ''10.0.0.1'' 7)"

definition sample_dispatcher :: "(nat, condition_notifier) shm_dispatcher" where
  "sample_dispatcher = ShmDispatcher_AddListener 7 1 (Some 3) (ShmDispatcher_Init sample_hash ''10.0.0.1'' sample_cn)"

definition sample_info :: message_info where
  "sample_info = (MessageInfo_new sample_hash)\<lparr>mi_sender_id := Identity_new sample_hash (Some ''abcdefghijklmnop''), mi_seq_num := 1\<rparr>"

definition sample_serialize :: "string \<Rightarrow> int \<Rightarrow> string option" where
  "sample_serialize m n = (if n = int (length m) then Some m else None)"

definition sample_parse :: "string \<Rightarrow> int \<Rightarrow> string option" where
  "sample_parse buf n = (if 0 \<le> n \<and> nat n \<le> length buf then Some (take (nat n) buf) else None)"

definition sample_transmit :: "(bool \<times> condition_notifier shm_transmitter \<times> shm_os \<times> indicator) outcome option" where
  "sample_transmit =
     ShmTransmitter_Transmit (\<lambda>m. of_nat (length m)) sample_serialize ConditionNotifier_Notify ''hi'' sample_info
       sample_tx (sample_os, Indicator_new)"

theorem transmitted_message_delivered_witness:
  "\<exists>tx' os' ind' d' os''. sample_transmit = Some (Inr (True, tx', os', ind'))
    \<and> ShmDispatcher_ThreadFunc_turn sample_hash sample_parse
         (\<lambda>timeout_ms. ConditionNotifier_Listen timeout_ms (\<lambda>t. (ind', False))) sample_dispatcher os'
       = Inr ([(3, ''hi'', received_info sample_hash sample_info)], d', os'')"
proof -
  have "case sample_transmit of Some (Inr (ok, r)) \<Rightarrow> ok | _ \<Rightarrow> False" by code_simp
  then obtain tx' os' ind' where t: "sample_transmit = Some (Inr (True, tx', os', ind'))"
    by (auto split: option.splits sum.splits prod.splits)
  let ?sg = "Segment_new 7 WRITE_ONLY" and ?rsg = "Segment_new 7 READ_ONLY"
  define lh :: "nat listener_handler" where
    "lh = ListenerHandler_Connect 1 (Some 3) (ListenerHandler_new ReadableBlock)"
  have lh: "fst (ListenerHandler_Run sample_info lh) = [3]"
    by (simp add: lh_def ListenerHandler_Run_def ListenerHandler_Connect_def ListenerHandler_new_def Signal_Connect_def
        Signal_new_def Signal_call_def Slot_call_def Let_def)
  have "MessageInfo_eq (received_info sample_hash sample_info) sample_info
    \<and> (\<exists>d' os''. ShmDispatcher_ThreadFunc_turn sample_hash sample_parse
          (\<lambda>timeout_ms. ConditionNotifier_Listen timeout_ms (\<lambda>t. (ind', False))) sample_dispatcher os'
        = Inr (map (\<lambda>l. (l, ''hi'', received_info sample_hash sample_info)) (fst (ListenerHandler_Run sample_info lh)), d', os''))"
  proof (rule transmitted_message_delivered [where bytes = "''hi''" and sg = ?sg and rsg = ?rsg])
    show "ShmTransmitter_Transmit (\<lambda>m. of_nat (length m)) sample_serialize ConditionNotifier_Notify ''hi'' sample_info
        sample_tx (sample_os, Indicator_new) = Some (Inr (True, tx', os', ind'))"
      using t by (simp add: sample_transmit_def)
    show "info_ok sample_hash sample_info"
      by (simp add: info_ok_def sample_info_def MessageInfo_new_def identity_ok_def Identity_new_def Identity_Update_def
          ID_SIZE_def Let_def)
  qed (simp_all add: sample_tx_def sample_cn_def sample_dispatcher_def sample_serialize_def sample_parse_def sample_os_def
      ShmTransmitter_Enable_def ShmTransmitter_new_def writer_ok_def reader_ok_def key_ok_def Segment_new_def int_of_size_def
      ShmDispatcher_AddListener_def ShmDispatcher_Init_def Dispatcher_AddListener_def ShmDispatcher_AddSegment_def
      handler_for_def lh_def ConditionNotifier_new_def)
  then show ?thesis unfolding lh list.map using t by blast
qed

end
