(* ===== verification/Hybrid.thy ===== *)
theory Hybrid
  imports Dispatching
begin

text \<open>
  Choosing how to send: endpoints (\<open>cyber/transport/common/endpoint.cc\<close>), the numbering of messages
  (\<open>transmitter.h\<close>), sending within the process and over the network (\<open>intra_transmitter.h\<close>, the sequence
  numbers of \<open>rtps_transmitter.h\<close> and \<open>sub_listener.cc\<close>), and the transmitter and receiver that use a
  different way for readers in the same process, on the same host and elsewhere
  (\<open>hybrid_transmitter.h\<close>, \<open>hybrid_receiver.h\<close>).

  Creating a publisher of the RTPS library is an argument.  The threads that send the history are given by
  what they send.

  The theory shows that a reader that was introduced to a writer gets each message exactly once,
  although the writer sends in several ways at the same time.
\<close>

section \<open>Attributes and modes\<close>

datatype optional_mode = HYBRID | INTRA | SHM | RTPS

datatype relation = NO_RELATION | DIFF_HOST | DIFF_PROC | SAME_PROC

datatype durability_policy = DURABILITY_SYSTEM_DEFAULT | DURABILITY_TRANSIENT_LOCAL | DURABILITY_VOLATILE

text \<open>The attributes of a role that are used here.\<close>

record endpoint_attr =
  ea_host_name :: "string option"
  ea_host_ip :: string
  ea_process_id :: "int option"
  ea_channel_name :: string
  ea_channel_id :: u64
  ea_id :: "u64 option"
  ea_durability :: durability_policy
  ea_history :: history_policy
  ea_depth :: u32

definition id_of :: "endpoint_attr \<Rightarrow> u64" where
  "id_of a = (case ea_id a of None \<Rightarrow> 0 | Some i \<Rightarrow> i)"

definition process_of :: "endpoint_attr \<Rightarrow> int" where
  "process_of a = (case ea_process_id a of None \<Rightarrow> 0 | Some p \<Rightarrow> p)"

text \<open>Missing attributes are filled in from the process and the new identity.\<close>

definition Endpoint_new :: "string \<Rightarrow> int \<Rightarrow> identity \<Rightarrow> endpoint_attr \<Rightarrow> endpoint_attr" where
  "Endpoint_new host_name process_id i a =
     a\<lparr>ea_host_name := (case ea_host_name a of None \<Rightarrow> Some host_name | Some n \<Rightarrow> Some n),
       ea_process_id := (case ea_process_id a of None \<Rightarrow> Some process_id | Some p \<Rightarrow> Some p),
       ea_id := (case ea_id a of None \<Rightarrow> Some (id_hash_value i) | Some j \<Rightarrow> Some j)\<rparr>"

section \<open>Numbering messages\<close>

record transmitter =
  tr_seq_num :: u64
  tr_msg_info :: message_info

definition Transmitter_new :: "(string \<Rightarrow> u64) \<Rightarrow> identity \<Rightarrow> transmitter" where
  "Transmitter_new Hash i = \<lparr>tr_seq_num = 0, tr_msg_info = (MessageInfo_new Hash)\<lparr>mi_sender_id := i, mi_seq_num := 0\<rparr>\<rparr>"

definition Transmitter_NextSeqNum :: "transmitter \<Rightarrow> u64 \<times> transmitter" where
  "Transmitter_NextSeqNum t = (tr_seq_num t + 1, t\<lparr>tr_seq_num := tr_seq_num t + 1\<rparr>)"

text \<open>The information that goes with the next message.\<close>

definition Transmitter_Transmit :: "transmitter \<Rightarrow> message_info \<times> transmitter" where
  "Transmitter_Transmit t =
     (case Transmitter_NextSeqNum t of
        (n, t) \<Rightarrow> let info = (tr_msg_info t)\<lparr>mi_seq_num := n\<rparr> in (info, t\<lparr>tr_msg_info := info\<rparr>))"

text \<open>The sequence number in the two parts of the RTPS library, and back.\<close>

unbundle bit_operations_syntax

abbreviation rtps_seq_high :: "u64 \<Rightarrow> 32 word" where
  "rtps_seq_high n \<equiv> ucast (drop_bit 32 (n AND 0xFFFFFFFF00000000))"

abbreviation rtps_seq_low :: "u64 \<Rightarrow> 32 word" where
  "rtps_seq_low n \<equiv> ucast (n AND 0xFFFFFFFF)"

abbreviation rtps_seq_num :: "32 word \<Rightarrow> 32 word \<Rightarrow> u64" where
  "rtps_seq_num high low \<equiv> push_bit 32 (scast high) OR ucast low"

section \<open>IntraTransmitter\<close>

record intra_transmitter =
  it_enabled :: bool
  it_channel_id :: u64

abbreviation IntraTransmitter_new :: "endpoint_attr \<Rightarrow> intra_transmitter" where
  "IntraTransmitter_new a \<equiv> \<lparr>it_enabled = False, it_channel_id = ea_channel_id a\<rparr>"

definition IntraTransmitter_Enable :: "intra_transmitter \<Rightarrow> intra_transmitter" where
  "IntraTransmitter_Enable t = t\<lparr>it_enabled := True\<rparr>"

abbreviation IntraTransmitter_Disable :: "intra_transmitter \<Rightarrow> intra_transmitter" where
  "IntraTransmitter_Disable t \<equiv> t\<lparr>it_enabled := False\<rparr>"

definition IntraTransmitter_Transmit ::
  "('m \<Rightarrow> string) \<Rightarrow> message_type \<Rightarrow> 'm \<Rightarrow> message_info \<Rightarrow> intra_transmitter \<Rightarrow> 'l dispatcher \<Rightarrow>
     bool \<times> ('l \<times> 'm payload \<times> message_info) list \<times> 'l dispatcher" where
  "IntraTransmitter_Transmit SerializeToString ty msg info t d =
     (if \<not> it_enabled t then (False, [], d)
      else (True, IntraDispatcher_OnMessage SerializeToString ty (it_channel_id t) msg info d))"

section \<open>Receivers of one mode\<close>

text \<open>
  The receivers within the process, for shared memory and for RTPS register their callback with the
  dispatcher of their mode in the same way; opening the segment of the channel is part of the
  dispatcher for shared memory.
\<close>

record 'l receiver =
  re_enabled :: bool
  re_dispatcher :: "'l dispatcher"

definition Receiver_Enable :: "message_type \<Rightarrow> endpoint_attr \<Rightarrow> 'l \<Rightarrow> 'l receiver \<Rightarrow> 'l receiver" where
  "Receiver_Enable ty a l r =
     (if re_enabled r then r
      else r\<lparr>re_dispatcher := Dispatcher_AddListener ty (ea_channel_id a) (id_of a) (Some l) (re_dispatcher r),
             re_enabled := True\<rparr>)"

definition Receiver_Disable :: "endpoint_attr \<Rightarrow> 'l receiver \<Rightarrow> 'l receiver" where
  "Receiver_Disable a r =
     (if \<not> re_enabled r then r
      else r\<lparr>re_dispatcher := Dispatcher_RemoveListener (ea_channel_id a) (id_of a) (re_dispatcher r),
             re_enabled := False\<rparr>)"

definition Receiver_Enable_to ::
  "message_type \<Rightarrow> endpoint_attr \<Rightarrow> endpoint_attr \<Rightarrow> 'l \<Rightarrow> 'l receiver \<Rightarrow> 'l receiver" where
  "Receiver_Enable_to ty a opposite l r =
     r\<lparr>re_dispatcher :=
         Dispatcher_AddListener_to ty (ea_channel_id a) (id_of a) (id_of opposite) (Some l) (re_dispatcher r)\<rparr>"

definition Receiver_Disable_from :: "endpoint_attr \<Rightarrow> endpoint_attr \<Rightarrow> 'l receiver \<Rightarrow> 'l receiver" where
  "Receiver_Disable_from a opposite r =
     r\<lparr>re_dispatcher := Dispatcher_RemoveListener_from (ea_channel_id a) (id_of a) (id_of opposite) (re_dispatcher r)\<rparr>"

section \<open>Choosing the mode\<close>

record communication_mode =
  cm_same_proc :: optional_mode
  cm_diff_proc :: optional_mode
  cm_diff_host :: optional_mode

text \<open>The defaults, and the configuration when there is one.\<close>

definition InitMode :: communication_mode where
  "InitMode = \<lparr>cm_same_proc = INTRA, cm_diff_proc = SHM, cm_diff_host = RTPS\<rparr>"

definition ObtainConfig :: "communication_mode option \<Rightarrow> communication_mode" where
  "ObtainConfig conf = (case conf of None \<Rightarrow> InitMode | Some m \<Rightarrow> m)"

fun mapping_table :: "communication_mode \<Rightarrow> relation \<Rightarrow> optional_mode" where
  "mapping_table m SAME_PROC = cm_same_proc m"
| "mapping_table m DIFF_PROC = cm_diff_proc m"
| "mapping_table m DIFF_HOST = cm_diff_host m"
| "mapping_table m NO_RELATION = HYBRID"

text \<open>The set of modes, in the order of the enumeration.\<close>

definition modes :: "communication_mode \<Rightarrow> optional_mode list" where
  "modes m = filter (\<lambda>x. x \<in> {cm_same_proc m, cm_diff_proc m, cm_diff_host m}) [HYBRID, INTRA, SHM, RTPS]"

definition GetRelation :: "endpoint_attr \<Rightarrow> endpoint_attr \<Rightarrow> relation" where
  "GetRelation self opposite =
     (if ea_channel_name opposite \<noteq> ea_channel_name self then NO_RELATION
      else if ea_host_ip opposite \<noteq> ea_host_ip self then DIFF_HOST
      else if process_of opposite \<noteq> process_of self then DIFF_PROC
      else SAME_PROC)"

definition InitHistory :: "u32 option \<Rightarrow> endpoint_attr \<Rightarrow> 'm history" where
  "InitHistory max_history_depth a =
     (let h = History_new max_history_depth (ea_history a) (ea_depth a)
      in if ea_durability a = DURABILITY_TRANSIENT_LOCAL then History_Enable h else h)"

section \<open>HybridTransmitter\<close>

text \<open>
  Of the transmitter of a mode only matters whether it is enabled; that of RTPS needs a publisher.  The
  constructor makes an entry for every mode that a relation is mapped to.
\<close>

record 'm hybrid_transmitter =
  ht_attr :: endpoint_attr
  ht_mode :: communication_mode
  ht_history :: "'m history"
  ht_transmitters :: "(optional_mode \<times> bool) list"
  ht_receivers :: "(optional_mode \<times> u64 list) list"

definition HybridTransmitter_new ::
  "communication_mode option \<Rightarrow> u32 option \<Rightarrow> endpoint_attr \<Rightarrow> 'm hybrid_transmitter" where
  "HybridTransmitter_new conf max_history_depth a =
     (let m = ObtainConfig conf
      in \<lparr>ht_attr = a, ht_mode = m, ht_history = InitHistory max_history_depth a,
          ht_transmitters = map (\<lambda>x. (x, False)) (modes m), ht_receivers = map (\<lambda>x. (x, [])) (modes m)\<rparr>)"

definition transmitter_enable :: "bool \<Rightarrow> optional_mode \<Rightarrow> bool \<Rightarrow> bool" where
  "transmitter_enable publisher mode enabled =
     (case mode of INTRA \<Rightarrow> True | SHM \<Rightarrow> True | _ \<Rightarrow> enabled \<or> publisher)"

definition HybridTransmitter_Enable :: "bool \<Rightarrow> 'm hybrid_transmitter \<Rightarrow> 'm hybrid_transmitter" where
  "HybridTransmitter_Enable publisher t =
     t\<lparr>ht_transmitters := map (\<lambda>(m, e). (m, transmitter_enable publisher m e)) (ht_transmitters t)\<rparr>"

abbreviation HybridTransmitter_Disable :: "'m hybrid_transmitter \<Rightarrow> 'm hybrid_transmitter" where
  "HybridTransmitter_Disable t \<equiv> t\<lparr>ht_transmitters := map (\<lambda>(m, e). (m, False)) (ht_transmitters t)\<rparr>"

text \<open>The messages that are sent to a new reader, and the channel on which they are sent.\<close>

abbreviation history_channel :: "u64 \<Rightarrow> u64 \<Rightarrow> string" where
  "history_channel writer reader \<equiv> to_string (uint writer) @ to_string (uint reader)"

definition TransmitHistoryMsg ::
  "endpoint_attr \<Rightarrow> 'm hybrid_transmitter \<Rightarrow> (string \<times> ('m \<times> message_info) list) option" where
  "TransmitHistoryMsg opposite t =
     (if ea_durability (ht_attr t) \<noteq> DURABILITY_TRANSIENT_LOCAL then None
      else
        let unsent_msgs = History_GetCachedMessage (ht_history t) []
        in if unsent_msgs = [] then None
           else Some (history_channel (id_of (ht_attr t)) (id_of opposite), unsent_msgs))"

definition HybridTransmitter_Enable_to ::
  "bool \<Rightarrow> endpoint_attr \<Rightarrow> 'm hybrid_transmitter \<Rightarrow>
     (string \<times> ('m \<times> message_info) list) option \<times> 'm hybrid_transmitter" where
  "HybridTransmitter_Enable_to publisher opposite t =
     (let relation = GetRelation (ht_attr t) opposite
      in if relation = NO_RELATION then (None, t)
         else
           let m = mapping_table (ht_mode t) relation;
               t = t\<lparr>ht_receivers := AList.update m (List.insert (id_of opposite) (found (ht_receivers t) m [])) (ht_receivers t),
                     ht_transmitters :=
                       AList.update m (transmitter_enable publisher m (found (ht_transmitters t) m False)) (ht_transmitters t)\<rparr>
           in (TransmitHistoryMsg opposite t, t))"

definition HybridTransmitter_Disable_from :: "endpoint_attr \<Rightarrow> 'm hybrid_transmitter \<Rightarrow> 'm hybrid_transmitter" where
  "HybridTransmitter_Disable_from opposite t =
     (let relation = GetRelation (ht_attr t) opposite
      in if relation = NO_RELATION then t
         else
           let m = mapping_table (ht_mode t) relation;
               ids = removeAll (id_of opposite) (found (ht_receivers t) m []);
               t = t\<lparr>ht_receivers := AList.update m ids (ht_receivers t)\<rparr>
           in if ids = [] then t\<lparr>ht_transmitters := AList.update m False (ht_transmitters t)\<rparr> else t)"

text \<open>The modes in which the message is sent.\<close>

definition HybridTransmitter_Transmit ::
  "'m \<Rightarrow> message_info \<Rightarrow> 'm hybrid_transmitter \<Rightarrow> optional_mode list \<times> 'm hybrid_transmitter" where
  "HybridTransmitter_Transmit msg info t =
     (map fst (filter snd (ht_transmitters t)), t\<lparr>ht_history := History_Add msg info (ht_history t)\<rparr>)"

section \<open>HybridReceiver\<close>

record ('l, 'm) hybrid_receiver =
  hr_attr :: endpoint_attr
  hr_mode :: communication_mode
  hr_history :: "'m history"
  hr_receivers :: "(optional_mode \<times> 'l receiver) list"
  hr_transmitters :: "(optional_mode \<times> (u64 \<times> endpoint_attr) list) list"

text \<open>The dispatchers of the modes are those of the process; the argument gives them.\<close>

definition HybridReceiver_new ::
  "communication_mode option \<Rightarrow> u32 option \<Rightarrow> endpoint_attr \<Rightarrow> (optional_mode \<Rightarrow> 'l dispatcher) \<Rightarrow> ('l, 'm) hybrid_receiver" where
  "HybridReceiver_new conf max_history_depth a ds =
     (let m = ObtainConfig conf
      in \<lparr>hr_attr = a, hr_mode = m, hr_history = InitHistory max_history_depth a,
          hr_receivers = map (\<lambda>x. (x, \<lparr>re_enabled = False, re_dispatcher = ds x\<rparr>)) (modes m),
          hr_transmitters = map (\<lambda>x. (x, [])) (modes m)\<rparr>)"

definition HybridReceiver_Enable :: "message_type \<Rightarrow> 'l \<Rightarrow> ('l, 'm) hybrid_receiver \<Rightarrow> ('l, 'm) hybrid_receiver" where
  "HybridReceiver_Enable ty l r =
     r\<lparr>hr_receivers := map (\<lambda>(m, x). (m, Receiver_Enable ty (hr_attr r) l x)) (hr_receivers r)\<rparr>"

abbreviation HybridReceiver_Disable :: "('l, 'm) hybrid_receiver \<Rightarrow> ('l, 'm) hybrid_receiver" where
  "HybridReceiver_Disable r \<equiv> r\<lparr>hr_receivers := map (\<lambda>(m, x). (m, Receiver_Disable (hr_attr r) x)) (hr_receivers r)\<rparr>"

text \<open>The channel on which the history of a writer is awaited.\<close>

definition ReceiveHistoryMsg :: "endpoint_attr \<Rightarrow> ('l, 'm) hybrid_receiver \<Rightarrow> string option" where
  "ReceiveHistoryMsg opposite r =
     (if ea_durability opposite \<noteq> DURABILITY_TRANSIENT_LOCAL then None
      else Some (history_channel (id_of opposite) (id_of (hr_attr r))))"

definition HybridReceiver_Enable_to ::
  "message_type \<Rightarrow> 'l \<Rightarrow> endpoint_attr \<Rightarrow> ('l, 'm) hybrid_receiver \<Rightarrow> (string option \<times> ('l, 'm) hybrid_receiver) outcome" where
  "HybridReceiver_Enable_to ty l opposite r =
     (let relation = GetRelation (hr_attr r) opposite
      in if relation = NO_RELATION then Inr (None, r)
         else
           let m = mapping_table (hr_mode r) relation; known = found (hr_transmitters r) m []
           in if map_of known (id_of opposite) \<noteq> None then Inr (None, r)
              else
                case map_of (hr_receivers r) m of
                  None \<Rightarrow> Inl Undefined
                | Some x \<Rightarrow>
                    Inr (ReceiveHistoryMsg opposite r,
                      r\<lparr>hr_transmitters := AList.update m ((id_of opposite, opposite) # known) (hr_transmitters r),
                        hr_receivers := AList.update m (Receiver_Enable_to ty (hr_attr r) opposite l x) (hr_receivers r)\<rparr>))"

definition HybridReceiver_Disable_from ::
  "endpoint_attr \<Rightarrow> ('l, 'm) hybrid_receiver \<Rightarrow> ('l, 'm) hybrid_receiver outcome" where
  "HybridReceiver_Disable_from opposite r =
     (let relation = GetRelation (hr_attr r) opposite
      in if relation = NO_RELATION then Inr r
         else
           let m = mapping_table (hr_mode r) relation; known = found (hr_transmitters r) m []
           in if map_of known (id_of opposite) = None then Inr r
              else
                case map_of (hr_receivers r) m of
                  None \<Rightarrow> Inl Undefined
                | Some x \<Rightarrow>
                    Inr (r\<lparr>hr_transmitters := AList.update m (AList.delete (id_of opposite) known) (hr_transmitters r),
                           hr_receivers := AList.update m (Receiver_Disable_from (hr_attr r) opposite x) (hr_receivers r)\<rparr>))"

text \<open>When the receiver is destroyed it leaves the writers it knows.\<close>

fun disable_all :: "endpoint_attr \<Rightarrow> (u64 \<times> endpoint_attr) list \<Rightarrow> 'l receiver \<Rightarrow> 'l receiver" where
  "disable_all a [] x = x"
| "disable_all a ((i, opposite) # rest) x = disable_all a rest (Receiver_Disable_from a opposite x)"

definition ClearTransmitters :: "('l, 'm) hybrid_receiver \<Rightarrow> ('l, 'm) hybrid_receiver" where
  "ClearTransmitters r =
     r\<lparr>hr_receivers :=
         map (\<lambda>(m, x). (m, disable_all (hr_attr r) (found (hr_transmitters r) m []) x)) (hr_receivers r),
       hr_transmitters := []\<rparr>"

section \<open>Sequence numbers\<close>

text \<open>The information of the \<open>n\<close>-th message has the number \<open>n\<close>, and the sender stays the same.\<close>

lemma Transmitter_numbers:
  "mi_seq_num (fst (Transmitter_Transmit (((snd \<circ> Transmitter_Transmit) ^^ n) (Transmitter_new Hash i)))) = of_nat (Suc n)
   \<and> mi_sender_id (fst (Transmitter_Transmit (((snd \<circ> Transmitter_Transmit) ^^ n) (Transmitter_new Hash i)))) = i"
proof -
  have "tr_seq_num (((snd \<circ> Transmitter_Transmit) ^^ n) (Transmitter_new Hash i)) = of_nat n
    \<and> mi_sender_id (tr_msg_info (((snd \<circ> Transmitter_Transmit) ^^ n) (Transmitter_new Hash i))) = i"
    by (induction n) (simp_all add: Transmitter_new_def Transmitter_Transmit_def Transmitter_NextSeqNum_def Let_def)
  then show ?thesis by (simp add: Transmitter_Transmit_def Transmitter_NextSeqNum_def Let_def)
qed

lemma rtps_seq_roundtrip: "rtps_seq_num (rtps_seq_high n) (rtps_seq_low n) = n"
proof (rule bit_word_eqI)
  fix k assume "k < LENGTH(64)"
  have masks: "(0xFFFFFFFF00000000 :: u64) = push_bit 32 (mask 32)" "(0xFFFFFFFF :: u64) = mask 32"
    by (simp_all add: mask_eq_exp_minus_1)
  show "bit (rtps_seq_num (rtps_seq_high n) (rtps_seq_low n)) k \<longleftrightarrow> bit n k"
    using \<open>k < LENGTH(64)\<close> unfolding masks
    by (cases "k < 32") (auto simp: bit_simps)
qed

section \<open>Choosing the same mode on both sides\<close>

lemma GetRelation_sym: "GetRelation a b = GetRelation b a"
  by (auto simp: GetRelation_def)

lemma mapping_in_modes: "r \<noteq> NO_RELATION \<Longrightarrow> mapping_table m r \<in> set (modes m)"
  by (cases r; cases "mapping_table m r") (auto simp: modes_def)

lemma map_of_modes: "map_of (map (\<lambda>x. (x, f x)) (modes m)) x = (if x \<in> set (modes m) then Some (f x) else None)"
  by (simp add: map_of_map_restrict restrict_map_def)

text \<open>Writer and reader wait for the history on the same channel.\<close>

lemma history_channel_agrees:
  assumes "TransmitHistoryMsg (hr_attr r) t = Some (channel, msgs)"
  shows "ReceiveHistoryMsg (ht_attr t) r = Some channel \<and> msgs = hi_msgs (ht_history t)"
  using assms
  by (auto simp: TransmitHistoryMsg_def ReceiveHistoryMsg_def Let_def split: if_splits)

text \<open>The name of the channel does not determine the pair.\<close>

lemma history_channel_ambiguous: "history_channel 1 23 = history_channel 12 3"
  by (simp add: to_string_def digits.simps)

section \<open>Meeting and parting\<close>

text \<open>
  A writer is told about readers that come and go, and a reader about writers: \<open>(True, i)\<close> introduces
  endpoint \<open>i\<close> and \<open>(False, i)\<close> removes it.  The attributes of the endpoints are given by \<open>attr\<close>.
\<close>

definition introduced :: "(bool \<times> u64) list \<Rightarrow> u64 set" where
  "introduced ops = fold (\<lambda>(b, i) S. if b then insert i S else S - {i}) ops {}"

definition writer_op :: "(u64 \<Rightarrow> endpoint_attr) \<Rightarrow> bool \<times> u64 \<Rightarrow> 'm hybrid_transmitter \<Rightarrow> 'm hybrid_transmitter" where
  "writer_op attr x t =
     (case x of (b, i) \<Rightarrow>
        if b then snd (HybridTransmitter_Enable_to True (attr i) t) else HybridTransmitter_Disable_from (attr i) t)"

definition reader_op ::
  "(u64 \<Rightarrow> endpoint_attr) \<Rightarrow> message_type \<Rightarrow> 'l \<Rightarrow> bool \<times> u64 \<Rightarrow> ('l, 'm) hybrid_receiver \<Rightarrow> ('l, 'm) hybrid_receiver outcome" where
  "reader_op attr ty l x r =
     (case x of (b, i) \<Rightarrow>
        if b then bind_outcome (HybridReceiver_Enable_to ty l (attr i) r) (\<lambda>(history, r). Inr r)
        else HybridReceiver_Disable_from (attr i) r)"

fun reader_ops ::
  "(u64 \<Rightarrow> endpoint_attr) \<Rightarrow> message_type \<Rightarrow> 'l \<Rightarrow> (bool \<times> u64) list \<Rightarrow> ('l, 'm) hybrid_receiver \<Rightarrow> ('l, 'm) hybrid_receiver outcome" where
  "reader_ops attr ty l [] r = Inr r"
| "reader_ops attr ty l (x # xs) r = bind_outcome (reader_op attr ty l x r) (reader_ops attr ty l xs)"

text \<open>The endpoints of a set that are reached in a mode.\<close>

definition in_mode :: "communication_mode \<Rightarrow> endpoint_attr \<Rightarrow> (u64 \<Rightarrow> endpoint_attr) \<Rightarrow> optional_mode \<Rightarrow> u64 set \<Rightarrow> u64 set" where
  "in_mode cm a attr m S =
     {i \<in> S. GetRelation a (attr i) \<noteq> NO_RELATION \<and> mapping_table cm (GetRelation a (attr i)) = m}"

text \<open>A writer sends in the modes in which there is a reader.\<close>

definition writer_inv :: "(u64 \<Rightarrow> endpoint_attr) \<Rightarrow> endpoint_attr \<Rightarrow> communication_mode \<Rightarrow> u64 set \<Rightarrow> 'm hybrid_transmitter \<Rightarrow> bool" where
  "writer_inv attr a cm S t \<longleftrightarrow>
     ht_attr t = a \<and> ht_mode t = cm \<and> distinct (map fst (ht_transmitters t))
     \<and> (\<forall>m. set (found (ht_receivers t) m []) = in_mode cm a attr m S
          \<and> found (ht_transmitters t) m False = (in_mode cm a attr m S \<noteq> {}))"

lemma writer_inv_new: "writer_inv attr a (ObtainConfig conf) {} (HybridTransmitter_new conf limit a)"
  by (simp add: writer_inv_def HybridTransmitter_new_def Let_def in_mode_def found_def map_of_modes comp_def)
    (simp add: modes_def)

lemma writer_inv_join:
  assumes "writer_inv attr a cm S t" and "id_of (attr i) = i"
  shows "writer_inv attr a cm (insert i S) (snd (HybridTransmitter_Enable_to True (attr i) t))"
proof (cases "GetRelation a (attr i) = NO_RELATION")
  case True
  then have "in_mode cm a attr m (insert i S) = in_mode cm a attr m S" for m by (auto simp: in_mode_def)
  then show ?thesis using assms True by (simp add: writer_inv_def HybridTransmitter_Enable_to_def Let_def)
next
  case False
  have "in_mode cm a attr m (insert i S)
      = (if m = mapping_table cm (GetRelation a (attr i)) then insert i (in_mode cm a attr m S) else in_mode cm a attr m S)" for m
    using False by (auto simp: in_mode_def)
  then show ?thesis
    using assms False
    by (auto simp: writer_inv_def HybridTransmitter_Enable_to_def Let_def distinct_update transmitter_enable_def
        split: optional_mode.splits)
qed

lemma writer_inv_part:
  assumes "writer_inv attr a cm S t" and "id_of (attr i) = i"
  shows "writer_inv attr a cm (S - {i}) (HybridTransmitter_Disable_from (attr i) t)"
proof (cases "GetRelation a (attr i) = NO_RELATION")
  case True
  then have "in_mode cm a attr m (S - {i}) = in_mode cm a attr m S" for m by (auto simp: in_mode_def)
  then show ?thesis using assms True by (simp add: writer_inv_def HybridTransmitter_Disable_from_def Let_def)
next
  case False
  let ?m = "mapping_table cm (GetRelation a (attr i))"
  have parts: "in_mode cm a attr m (S - {i})
      = (if m = ?m then in_mode cm a attr m S - {i} else in_mode cm a attr m S)" for m
    using False by (auto simp: in_mode_def)
  have "set (removeAll i (found (ht_receivers t) ?m [])) = in_mode cm a attr ?m S - {i}"
    using assms(1) by (auto simp: writer_inv_def)
  then have "removeAll i (found (ht_receivers t) ?m []) = [] \<longleftrightarrow> in_mode cm a attr ?m S - {i} = {}"
    by (metis set_empty)
  then show ?thesis
    using assms False
    by (auto simp: writer_inv_def HybridTransmitter_Disable_from_def Let_def distinct_update parts)
qed

lemma introduced_snoc: "introduced (ops @ [(b, i)]) = (if b then insert i (introduced ops) else introduced ops - {i})"
  by (simp add: introduced_def)

lemma writer_inv_ops:
  assumes "\<And>i. id_of (attr i) = i"
  shows "writer_inv attr a (ObtainConfig conf) (introduced ops) (fold (writer_op attr) ops (HybridTransmitter_new conf limit a))"
proof (induction ops rule: rev_induct)
  case Nil
  then show ?case by (simp add: introduced_def writer_inv_new)
next
  case (snoc x ops)
  then show ?case
    using writer_inv_join [OF snoc assms] writer_inv_part [OF snoc assms]
    by (cases x) (auto simp: introduced_snoc writer_op_def)
qed

section \<open>What a reader listens to\<close>

text \<open>One subscription to each sender of a set.\<close>

definition only_from :: "u64 \<Rightarrow> 'l \<Rightarrow> u64 set \<Rightarrow> u64 option \<Rightarrow> 'l subscriptions" where
  "only_from self_id l ids r = (case r of None \<Rightarrow> [] | Some i \<Rightarrow> if i \<in> ids then [(Some self_id, Some l)] else [])"

lemma only_from_empty: "only_from self_id l {} = (\<lambda>r. [])"
  by (simp add: only_from_def fun_eq_iff split: option.splits)

lemma only_from_insert:
  "i \<notin> ids \<Longrightarrow> (only_from self_id l ids)(Some i := subscribe self_id (Some l) (only_from self_id l ids (Some i)))
     = only_from self_id l (insert i ids)"
  by (auto simp: only_from_def fun_eq_iff subscribe_def split: option.splits)

lemma only_from_remove:
  "(only_from self_id l ids)(Some i := cancel self_id (only_from self_id l ids (Some i))) = only_from self_id l (ids - {i})"
  by (auto simp: only_from_def fun_eq_iff cancel_def split: option.splits)

definition listens :: "message_type \<Rightarrow> u64 \<Rightarrow> u64 \<Rightarrow> 'l \<Rightarrow> u64 set \<Rightarrow> 'l dispatcher \<Rightarrow> bool" where
  "listens ty channel_id self_id l ids d \<longleftrightarrow>
     \<not> di_is_shutdown d
     \<and> (case map_of (di_msg_listeners d) channel_id of
          None \<Rightarrow> ids = {}
        | Some h \<Rightarrow> lh_type h = ty \<and> handler_rel h (only_from self_id l ids))"

lemma lh_type_Connect_to [simp]: "lh_type (ListenerHandler_Connect_to self_id oppo_id l h) = lh_type h"
  by (simp add: ListenerHandler_Connect_to_def Signal_Connect_def Let_def)

lemma lh_type_Disconnect_from [simp]: "lh_type (ListenerHandler_Disconnect_from self_id oppo_id h) = lh_type h"
  by (auto simp: ListenerHandler_Disconnect_from_def split: option.splits)

lemma listens_new: "listens ty channel_id self_id l {} Dispatcher_new"
  by (simp add: listens_def Dispatcher_new_def)

lemma listens_handler:
  assumes "listens ty channel_id self_id l ids d"
  obtains h where "handler_for ty channel_id d = Some h" "handler_rel h (only_from self_id l ids)" "lh_type h = ty"
proof (cases "map_of (di_msg_listeners d) channel_id")
  case None
  then have "handler_rel (ListenerHandler_new ty) (only_from self_id l ids)"
    using assms handler_rel_new [of ty] by (simp add: listens_def only_from_empty)
  then show thesis using that None by (simp add: handler_for_def ListenerHandler_new_def)
next
  case (Some h)
  then show thesis using that [of h] assms by (simp add: listens_def handler_for_def)
qed

lemma listens_add:
  assumes "listens ty channel_id self_id l ids d" and "i \<notin> ids"
  shows "listens ty channel_id self_id l (insert i ids) (Dispatcher_AddListener_to ty channel_id self_id i (Some l) d)"
proof -
  obtain h where h: "handler_for ty channel_id d = Some h" "handler_rel h (only_from self_id l ids)" "lh_type h = ty"
    using assms(1) by (rule listens_handler)
  have "handler_rel (ListenerHandler_Connect_to self_id i (Some l) h) (only_from self_id l (insert i ids))"
    using handler_rel_Connect_to [OF h(2), of self_id i "Some l"] unfolding only_from_insert [OF assms(2)] .
  then show ?thesis
    using assms(1) h(1,3) by (simp add: listens_def Dispatcher_AddListener_to_def update_conv')
qed

lemma listens_remove:
  assumes "listens ty channel_id self_id l ids d" and "i \<in> ids"
  shows "listens ty channel_id self_id l (ids - {i}) (Dispatcher_RemoveListener_from channel_id self_id i d)"
proof -
  obtain h where h: "map_of (di_msg_listeners d) channel_id = Some h" "handler_rel h (only_from self_id l ids)" "lh_type h = ty"
    using assms by (auto simp: listens_def split: option.splits)
  have "handler_rel (ListenerHandler_Disconnect_from self_id i h) (only_from self_id l (ids - {i}))"
    using handler_rel_Disconnect_from [OF h(2), of self_id i] unfolding only_from_remove .
  then show ?thesis
    using assms(1) h by (simp add: listens_def Dispatcher_RemoveListener_from_def update_conv')
qed

text \<open>The listeners that the dispatcher of one mode calls for a message.\<close>

definition called_in :: "u64 \<Rightarrow> message_info \<Rightarrow> 'l dispatcher \<Rightarrow> 'l list" where
  "called_in channel_id info d =
     (if di_is_shutdown d then []
      else case map_of (di_msg_listeners d) channel_id of None \<Rightarrow> [] | Some h \<Rightarrow> fst (ListenerHandler_Run info h))"

lemma listens_called:
  assumes "listens ty channel_id self_id l ids d"
  shows "called_in channel_id info d = (if id_hash_value (mi_sender_id info) \<in> ids then [l] else [])"
  using assms
  by (auto simp: listens_def called_in_def notified_def List.map_filter_def ListenerHandler_Run_spec only_from_def
      split: option.splits)

definition reader_inv ::
  "(u64 \<Rightarrow> endpoint_attr) \<Rightarrow> endpoint_attr \<Rightarrow> communication_mode \<Rightarrow> message_type \<Rightarrow> 'l \<Rightarrow> u64 set \<Rightarrow> ('l, 'm) hybrid_receiver \<Rightarrow> bool" where
  "reader_inv attr a cm ty l S r \<longleftrightarrow>
     hr_attr r = a \<and> hr_mode r = cm
     \<and> (\<forall>m \<in> set (modes cm). map_of (hr_receivers r) m \<noteq> None)
     \<and> (\<forall>m x. map_of (hr_receivers r) m = Some x \<longrightarrow>
          listens ty (ea_channel_id a) (id_of a) l (in_mode cm a attr m S) (re_dispatcher x))
     \<and> (\<forall>m i. map_of (found (hr_transmitters r) m []) i \<noteq> None \<longleftrightarrow> i \<in> in_mode cm a attr m S)"

lemma reader_inv_new:
  "reader_inv attr a (ObtainConfig conf) ty l {} (HybridReceiver_new conf limit a (\<lambda>m. Dispatcher_new))"
  by (simp add: reader_inv_def HybridReceiver_new_def Let_def in_mode_def found_def map_of_modes listens_new)

lemma in_mode_insert:
  "in_mode cm a attr m (insert i S) =
     (if GetRelation a (attr i) \<noteq> NO_RELATION \<and> m = mapping_table cm (GetRelation a (attr i))
      then insert i (in_mode cm a attr m S) else in_mode cm a attr m S)"
  by (auto simp: in_mode_def)

lemma in_mode_remove:
  "in_mode cm a attr m (S - {i}) =
     (if GetRelation a (attr i) \<noteq> NO_RELATION \<and> m = mapping_table cm (GetRelation a (attr i))
      then in_mode cm a attr m S - {i} else in_mode cm a attr m S)"
  by (auto simp: in_mode_def)

lemma reader_inv_cong:
  "(\<And>m. in_mode cm a attr m S' = in_mode cm a attr m S) \<Longrightarrow> reader_inv attr a cm ty l S r \<Longrightarrow> reader_inv attr a cm ty l S' r"
  by (simp add: reader_inv_def)

lemma reader_inv_receiver:
  assumes "reader_inv attr a cm ty l S r" and "rel \<noteq> NO_RELATION"
  obtains x where "map_of (hr_receivers r) (mapping_table cm rel) = Some x"
    "listens ty (ea_channel_id a) (id_of a) l (in_mode cm a attr (mapping_table cm rel) S) (re_dispatcher x)"
  using assms mapping_in_modes [OF assms(2), of cm] unfolding reader_inv_def by blast

lemma reader_inv_join:
  assumes "reader_inv attr a cm ty l S r" and "id_of (attr i) = i"
  shows "\<exists>history r'. HybridReceiver_Enable_to ty l (attr i) r = Inr (history, r') \<and> reader_inv attr a cm ty l (insert i S) r'"
proof (cases "GetRelation a (attr i) = NO_RELATION")
  case True
  then have "reader_inv attr a cm ty l (insert i S) r" by (intro reader_inv_cong [OF _ assms(1)]) (simp add: in_mode_insert)
  then show ?thesis using assms(1) True by (simp add: reader_inv_def HybridReceiver_Enable_to_def)
next
  case False
  let ?m = "mapping_table cm (GetRelation a (attr i))"
  have r: "hr_attr r = a" "hr_mode r = cm" and known: "\<And>m j. map_of (found (hr_transmitters r) m []) j \<noteq> None \<longleftrightarrow> j \<in> in_mode cm a attr m S"
    and others: "\<forall>m \<in> set (modes cm). map_of (hr_receivers r) m \<noteq> None"
      "\<And>m x. map_of (hr_receivers r) m = Some x \<Longrightarrow>
         listens ty (ea_channel_id a) (id_of a) l (in_mode cm a attr m S) (re_dispatcher x)"
    using assms(1) unfolding reader_inv_def by blast+
  show ?thesis
  proof (cases "i \<in> in_mode cm a attr ?m S")
    case True
    then have "reader_inv attr a cm ty l (insert i S) r"
      by (intro reader_inv_cong [OF _ assms(1)]) (auto simp: in_mode_insert)
    then show ?thesis
      using True False known [of ?m i] assms(2) by (simp add: HybridReceiver_Enable_to_def r Let_def)
  next
    case out: False
    obtain x where x: "map_of (hr_receivers r) ?m = Some x"
      "listens ty (ea_channel_id a) (id_of a) l (in_mode cm a attr ?m S) (re_dispatcher x)"
      using assms(1) False by (rule reader_inv_receiver)
    have new: "listens ty (ea_channel_id a) (id_of a) l (insert i (in_mode cm a attr ?m S))
        (re_dispatcher (Receiver_Enable_to ty a (attr i) l x))"
      using listens_add [OF x(2) out] by (simp add: Receiver_Enable_to_def assms(2))
    let ?r = "r\<lparr>hr_transmitters := AList.update ?m ((i, attr i) # found (hr_transmitters r) ?m []) (hr_transmitters r),
      hr_receivers := AList.update ?m (Receiver_Enable_to ty a (attr i) l x) (hr_receivers r)\<rparr>"
    have "HybridReceiver_Enable_to ty l (attr i) r = Inr (ReceiveHistoryMsg (attr i) r, ?r)"
      using False known [of ?m i] out x(1) by (simp add: HybridReceiver_Enable_to_def r Let_def assms(2))
    moreover have "reader_inv attr a cm ty l (insert i S) ?r"
      unfolding reader_inv_def using False others known new
      by (auto simp: r in_mode_insert update_conv')
    ultimately show ?thesis by blast
  qed
qed

lemma reader_inv_part:
  assumes "reader_inv attr a cm ty l S r" and "id_of (attr i) = i"
  shows "\<exists>r'. HybridReceiver_Disable_from (attr i) r = Inr r' \<and> reader_inv attr a cm ty l (S - {i}) r'"
proof (cases "GetRelation a (attr i) = NO_RELATION")
  case True
  then have "reader_inv attr a cm ty l (S - {i}) r" by (intro reader_inv_cong [OF _ assms(1)]) (simp add: in_mode_remove)
  then show ?thesis using assms(1) True by (simp add: reader_inv_def HybridReceiver_Disable_from_def)
next
  case False
  let ?m = "mapping_table cm (GetRelation a (attr i))"
  have r: "hr_attr r = a" "hr_mode r = cm" and known: "\<And>m j. map_of (found (hr_transmitters r) m []) j \<noteq> None \<longleftrightarrow> j \<in> in_mode cm a attr m S"
    and others: "\<forall>m \<in> set (modes cm). map_of (hr_receivers r) m \<noteq> None"
      "\<And>m x. map_of (hr_receivers r) m = Some x \<Longrightarrow>
         listens ty (ea_channel_id a) (id_of a) l (in_mode cm a attr m S) (re_dispatcher x)"
    using assms(1) unfolding reader_inv_def by blast+
  show ?thesis
  proof (cases "i \<in> in_mode cm a attr ?m S")
    case out: False
    then have "reader_inv attr a cm ty l (S - {i}) r"
      by (intro reader_inv_cong [OF _ assms(1)]) (auto simp: in_mode_remove)
    then show ?thesis
      using out False known [of ?m i] assms(2) by (simp add: HybridReceiver_Disable_from_def r Let_def)
  next
    case True
    obtain x where x: "map_of (hr_receivers r) ?m = Some x"
      "listens ty (ea_channel_id a) (id_of a) l (in_mode cm a attr ?m S) (re_dispatcher x)"
      using assms(1) False by (rule reader_inv_receiver)
    have new: "listens ty (ea_channel_id a) (id_of a) l (in_mode cm a attr ?m S - {i})
        (re_dispatcher (Receiver_Disable_from a (attr i) x))"
      using listens_remove [OF x(2) True] by (simp add: Receiver_Disable_from_def assms(2))
    let ?r = "r\<lparr>hr_transmitters := AList.update ?m (AList.delete i (found (hr_transmitters r) ?m [])) (hr_transmitters r),
      hr_receivers := AList.update ?m (Receiver_Disable_from a (attr i) x) (hr_receivers r)\<rparr>"
    have "HybridReceiver_Disable_from (attr i) r = Inr ?r"
      using False known [of ?m i] True x(1) by (auto simp: HybridReceiver_Disable_from_def r Let_def assms(2))
    moreover have "reader_inv attr a cm ty l (S - {i}) ?r"
      unfolding reader_inv_def using False others known new
      by (auto simp: r in_mode_remove update_conv' delete_conv')
    ultimately show ?thesis by blast
  qed
qed

lemma reader_ops_snoc:
  "reader_ops attr ty l (xs @ [x]) r = bind_outcome (reader_ops attr ty l xs r) (reader_op attr ty l x)"
proof (induction xs arbitrary: r)
  case Nil
  then show ?case by (cases "reader_op attr ty l x r") simp_all
next
  case (Cons y xs)
  then show ?case by (cases "reader_op attr ty l y r") simp_all
qed

lemma reader_inv_ops:
  fixes r0 :: "('l, 'm) hybrid_receiver"
  assumes "\<And>i. id_of (attr i) = i" and "r0 = HybridReceiver_new conf limit a (\<lambda>m. Dispatcher_new)"
  shows "\<exists>r. reader_ops attr ty l ops r0 = Inr r \<and> reader_inv attr a (ObtainConfig conf) ty l (introduced ops) r"
proof (induction ops rule: rev_induct)
  case Nil
  then show ?case by (simp add: introduced_def assms(2) reader_inv_new)
next
  case (snoc x ops)
  then obtain r where r: "reader_ops attr ty l ops r0 = Inr r" "reader_inv attr a (ObtainConfig conf) ty l (introduced ops) r"
    by blast
  obtain b i where x: "x = (b, i)" by fastforce
  show ?case
    using reader_inv_join [OF r(2) assms(1), of i] reader_inv_part [OF r(2) assms(1), of i]
    by (cases b) (auto simp: reader_ops_snoc r(1) x introduced_snoc reader_op_def)
qed

section \<open>Exactly once\<close>

text \<open>The callbacks of a reader for a message that its writer sends, in all modes.\<close>

definition deliveries :: "'m \<Rightarrow> message_info \<Rightarrow> 'm hybrid_transmitter \<Rightarrow> ('l, 'm) hybrid_receiver \<Rightarrow> 'l list" where
  "deliveries msg info t r =
     concat (map (\<lambda>m. case map_of (hr_receivers r) m of
                        None \<Rightarrow> []
                      | Some x \<Rightarrow> called_in (ea_channel_id (hr_attr r)) info (re_dispatcher x))
               (fst (HybridTransmitter_Transmit msg info t)))"

lemma concat_single:
  "distinct ms \<Longrightarrow> concat (map (\<lambda>m. if m = k \<and> c then [l] else []) ms) = (if k \<in> set ms \<and> c then [l] else [])"
  by (induction ms) auto

lemma writer_inv_sends:
  assumes "writer_inv attr a cm S t"
  shows "distinct (fst (HybridTransmitter_Transmit msg info t))
    \<and> set (fst (HybridTransmitter_Transmit msg info t)) = {m. in_mode cm a attr m S \<noteq> {}}"
proof -
  have d: "distinct (map fst (ht_transmitters t))" using assms by (simp add: writer_inv_def)
  have "m \<in> fst ` set (filter snd (ht_transmitters t)) \<longleftrightarrow> (m, True) \<in> set (ht_transmitters t)" for m
    by force
  moreover have "(m, True) \<in> set (ht_transmitters t) \<longleftrightarrow> found (ht_transmitters t) m False" for m
    unfolding map_of_eq_Some_iff [OF d, symmetric] by (auto simp: found_def split: option.splits)
  ultimately show ?thesis
    using assms distinct_map_filter [OF d] by (auto simp: HybridTransmitter_Transmit_def writer_inv_def)
qed

lemma deliveries_spec:
  assumes "writer_inv attr a cm S t" and "reader_inv attr b cm ty l S' r"
    and "id_hash_value (mi_sender_id info) = w" and "attr w = a"
  shows "deliveries msg info t r =
    (if in_mode cm a attr (mapping_table cm (GetRelation a b)) S \<noteq> {} \<and> w \<in> S' \<and> GetRelation a b \<noteq> NO_RELATION
     then [l] else [])"
proof -
  let ?k = "mapping_table cm (GetRelation a b)" and ?c = "w \<in> S' \<and> GetRelation a b \<noteq> NO_RELATION"
  have mode: "w \<in> in_mode cm b attr m S' \<longleftrightarrow> m = ?k \<and> ?c" for m
    by (auto simp: in_mode_def assms(4) GetRelation_sym [of b a])
  have "(case map_of (hr_receivers r) m of
          None \<Rightarrow> []
        | Some x \<Rightarrow> called_in (ea_channel_id (hr_attr r)) info (re_dispatcher x)) = (if m = ?k \<and> ?c then [l] else [])" for m
  proof (cases "map_of (hr_receivers r) m")
    case None
    then have "m \<notin> set (modes cm)" using assms(2) unfolding reader_inv_def by blast
    then have "\<not> (m = ?k \<and> ?c)" using mapping_in_modes by blast
    then show ?thesis using None by auto
  next
    case (Some x)
    then have "listens ty (ea_channel_id b) (id_of b) l (in_mode cm b attr m S') (re_dispatcher x)"
      using assms(2) unfolding reader_inv_def by blast
    from listens_called [OF this, of info] show ?thesis
      using Some assms(2) by (simp add: reader_inv_def assms(3) mode)
  qed
  then show ?thesis
    using concat_single [of _ ?k ?c l] writer_inv_sends [OF assms(1), of msg info] by (simp add: deliveries_def)
qed


text \<open>Writer 1 and the readers 2 and 3 of three processes; reader 3 comes and goes.\<close>

definition sample_endpoint :: "u64 \<Rightarrow> endpoint_attr" where
  "sample_endpoint i =
     \<lparr>ea_host_name = None, ea_host_ip = ''10.0.0.1'', ea_process_id = Some (uint i), ea_channel_name = ''/c'',
      ea_channel_id = 7, ea_id = Some i, ea_durability = DURABILITY_VOLATILE, ea_history = HISTORY_KEEP_LAST, ea_depth = 1\<rparr>"

definition sender_info :: message_info where
  "sender_info = (MessageInfo_new (\<lambda>s. 0))\<lparr>mi_sender_id := \<lparr>id_data = [], id_hash_value = 1, id_hash_value_str = []\<rparr>\<rparr>"


end
