(* ===== verification/Geometry.thy ===== *)
theory Geometry
  imports Complex_Main Prelude
begin

text \<open>
  Points, axis-aligned boxes and line segments of the plane (\<open>modules/common/math/vec2d.cc\<close>,
  \<open>aabox2d.cc\<close>, \<open>line_segment2d.cc\<close>).  A \<open>double\<close> is a real number and \<open>hypot\<close> is exact: rounding is not
  modelled.  The heading of a segment, which none of the operations below reads, is left out.

  The theory shows that the distance from a point to a segment is the distance to the nearest of its
  points, that the point reported by \<open>GetIntersect\<close> lies on both segments, and that the points of a
  segment lie in its box.
\<close>

section \<open>Points\<close>

record vec2d =
  vx :: real
  vy :: real

abbreviation Vec2d :: "real \<Rightarrow> real \<Rightarrow> vec2d" where
  "Vec2d x y \<equiv> \<lparr>vx = x, vy = y\<rparr>"

abbreviation kMathEpsilon :: real where
  "kMathEpsilon \<equiv> 1 / 10000000000"

definition Vec2d_DistanceSquareTo :: "vec2d \<Rightarrow> vec2d \<Rightarrow> real" where
  "Vec2d_DistanceSquareTo p q = (let dx = vx p - vx q; dy = vy p - vy q in dx * dx + dy * dy)"

definition Vec2d_DistanceTo :: "vec2d \<Rightarrow> vec2d \<Rightarrow> real" where
  "Vec2d_DistanceTo p q = sqrt ((vx p - vx q)\<^sup>2 + (vy p - vy q)\<^sup>2)"

definition CrossProd :: "vec2d \<Rightarrow> vec2d \<Rightarrow> vec2d \<Rightarrow> real" where
  "CrossProd start_point p q =
     (vx p - vx start_point) * (vy q - vy start_point) - (vy p - vy start_point) * (vx q - vx start_point)"

lemma DistanceSquare_nonneg [simp]: "0 \<le> Vec2d_DistanceSquareTo p q"
  by (simp add: Vec2d_DistanceSquareTo_def Let_def)

lemma DistanceTo_sqrt: "Vec2d_DistanceTo p q = sqrt (Vec2d_DistanceSquareTo p q)"
  by (simp add: Vec2d_DistanceTo_def Vec2d_DistanceSquareTo_def Let_def power2_eq_square)

section \<open>Boxes\<close>

record aabox2d =
  ab_center :: vec2d
  ab_length :: real
  ab_width :: real
  ab_half_length :: real
  ab_half_width :: real

abbreviation min_x :: "aabox2d \<Rightarrow> real" where "min_x b \<equiv> vx (ab_center b) - ab_half_length b"
abbreviation max_x :: "aabox2d \<Rightarrow> real" where "max_x b \<equiv> vx (ab_center b) + ab_half_length b"
abbreviation min_y :: "aabox2d \<Rightarrow> real" where "min_y b \<equiv> vy (ab_center b) - ab_half_width b"
abbreviation max_y :: "aabox2d \<Rightarrow> real" where "max_y b \<equiv> vy (ab_center b) + ab_half_width b"

definition AABox2d_new :: "vec2d \<Rightarrow> real \<Rightarrow> real \<Rightarrow> aabox2d outcome" where
  "AABox2d_new center len width =
     (if - kMathEpsilon < len \<and> - kMathEpsilon < width
      then Inr \<lparr>ab_center = center, ab_length = len, ab_width = width,
                ab_half_length = len / 2, ab_half_width = width / 2\<rparr>
      else Inl Exit)"

definition AABox2d_of_corners :: "vec2d \<Rightarrow> vec2d \<Rightarrow> aabox2d outcome" where
  "AABox2d_of_corners p q =
     AABox2d_new (Vec2d ((vx p + vx q) / 2) ((vy p + vy q) / 2)) \<bar>vx p - vx q\<bar> \<bar>vy p - vy q\<bar>"

definition AABox2d_DistanceTo :: "aabox2d \<Rightarrow> vec2d \<Rightarrow> real" where
  "AABox2d_DistanceTo b p =
     (let dx = \<bar>vx p - vx (ab_center b)\<bar> - ab_half_length b;
          dy = \<bar>vy p - vy (ab_center b)\<bar> - ab_half_width b
      in if dx \<le> 0 then max 0 dy
         else if dy \<le> 0 then dx
         else sqrt (dx\<^sup>2 + dy\<^sup>2))"

definition in_box :: "aabox2d \<Rightarrow> vec2d \<Rightarrow> bool" where
  "in_box b p \<longleftrightarrow> min_x b \<le> vx p \<and> vx p \<le> max_x b \<and> min_y b \<le> vy p \<and> vy p \<le> max_y b"

lemma AABox2d_of_corners:
  obtains b where "AABox2d_of_corners p q = Inr b" "min_x b = min (vx p) (vx q)" "max_x b = max (vx p) (vx q)"
    "min_y b = min (vy p) (vy q)" "max_y b = max (vy p) (vy q)"
proof -
  let ?b = "\<lparr>ab_center = Vec2d ((vx p + vx q) / 2) ((vy p + vy q) / 2), ab_length = \<bar>vx p - vx q\<bar>,
             ab_width = \<bar>vy p - vy q\<bar>, ab_half_length = \<bar>vx p - vx q\<bar> / 2, ab_half_width = \<bar>vy p - vy q\<bar> / 2\<rparr>"
  have "AABox2d_of_corners p q = Inr ?b"
    unfolding AABox2d_of_corners_def AABox2d_new_def by (simp add: less_le_trans [of _ 0])
  moreover have "min_x ?b = min (vx p) (vx q)" "max_x ?b = max (vx p) (vx q)"
    "min_y ?b = min (vy p) (vy q)" "max_y ?b = max (vy p) (vy q)"
    by (auto simp: min_def max_def field_simps)
  ultimately show ?thesis by (rule that)
qed

section \<open>Segments\<close>

record line_segment2d =
  ls_start :: vec2d
  ls_end :: vec2d
  ls_unit_direction :: vec2d
  ls_length :: real

definition LineSegment2d_new :: "vec2d \<Rightarrow> vec2d \<Rightarrow> line_segment2d" where
  "LineSegment2d_new start endp =
     (let dx = vx endp - vx start;
          dy = vy endp - vy start;
          len = sqrt (dx\<^sup>2 + dy\<^sup>2)
      in \<lparr>ls_start = start, ls_end = endp,
          ls_unit_direction = (if len \<le> kMathEpsilon then Vec2d 0 0 else Vec2d (dx / len) (dy / len)),
          ls_length = len\<rparr>)"

definition LineSegment2d_DistanceSquareTo :: "line_segment2d \<Rightarrow> vec2d \<Rightarrow> real" where
  "LineSegment2d_DistanceSquareTo s p =
     (if ls_length s \<le> kMathEpsilon then Vec2d_DistanceSquareTo p (ls_start s)
      else
        let x0 = vx p - vx (ls_start s);
            y0 = vy p - vy (ls_start s);
            proj = x0 * vx (ls_unit_direction s) + y0 * vy (ls_unit_direction s)
        in if proj \<le> 0 then x0\<^sup>2 + y0\<^sup>2
           else if ls_length s \<le> proj then Vec2d_DistanceSquareTo p (ls_end s)
           else (x0 * vy (ls_unit_direction s) - y0 * vx (ls_unit_direction s))\<^sup>2)"

definition LineSegment2d_DistanceTo :: "line_segment2d \<Rightarrow> vec2d \<Rightarrow> real" where
  "LineSegment2d_DistanceTo s p =
     (if ls_length s \<le> kMathEpsilon then Vec2d_DistanceTo p (ls_start s)
      else
        let x0 = vx p - vx (ls_start s);
            y0 = vy p - vy (ls_start s);
            proj = x0 * vx (ls_unit_direction s) + y0 * vy (ls_unit_direction s)
        in if proj \<le> 0 then sqrt (x0\<^sup>2 + y0\<^sup>2)
           else if ls_length s \<le> proj then Vec2d_DistanceTo p (ls_end s)
           else \<bar>x0 * vy (ls_unit_direction s) - y0 * vx (ls_unit_direction s)\<bar>)"

definition LineSegment2d_nearest :: "line_segment2d \<Rightarrow> vec2d \<Rightarrow> real \<times> vec2d" where
  "LineSegment2d_nearest s p =
     (if ls_length s \<le> kMathEpsilon then (Vec2d_DistanceSquareTo p (ls_start s), ls_start s)
      else
        let x0 = vx p - vx (ls_start s);
            y0 = vy p - vy (ls_start s);
            proj = x0 * vx (ls_unit_direction s) + y0 * vy (ls_unit_direction s)
        in if proj \<le> 0 then (x0\<^sup>2 + y0\<^sup>2, ls_start s)
           else if ls_length s \<le> proj then (Vec2d_DistanceSquareTo p (ls_end s), ls_end s)
           else ((x0 * vy (ls_unit_direction s) - y0 * vx (ls_unit_direction s))\<^sup>2,
                 Vec2d (vx (ls_start s) + vx (ls_unit_direction s) * proj)
                       (vy (ls_start s) + vy (ls_unit_direction s) * proj)))"

definition LineSegment2d_DistanceTo_nearest :: "line_segment2d \<Rightarrow> vec2d \<Rightarrow> real \<times> vec2d" where
  "LineSegment2d_DistanceTo_nearest s p =
     (if ls_length s \<le> kMathEpsilon then (Vec2d_DistanceTo p (ls_start s), ls_start s)
      else
        let x0 = vx p - vx (ls_start s);
            y0 = vy p - vy (ls_start s);
            proj = x0 * vx (ls_unit_direction s) + y0 * vy (ls_unit_direction s)
        in if proj < 0 then (sqrt (x0\<^sup>2 + y0\<^sup>2), ls_start s)
           else if ls_length s < proj then (Vec2d_DistanceTo p (ls_end s), ls_end s)
           else (\<bar>x0 * vy (ls_unit_direction s) - y0 * vx (ls_unit_direction s)\<bar>,
                 Vec2d (vx (ls_start s) + vx (ls_unit_direction s) * proj)
                       (vy (ls_start s) + vy (ls_unit_direction s) * proj)))"

definition IsWithin :: "real \<Rightarrow> real \<Rightarrow> real \<Rightarrow> bool" where
  "IsWithin val bound1 bound2 =
     (let (bound1, bound2) = (if bound2 < bound1 then (bound2, bound1) else (bound1, bound2))
      in bound1 - kMathEpsilon \<le> val \<and> val \<le> bound2 + kMathEpsilon)"

definition LineSegment2d_IsPointIn :: "line_segment2d \<Rightarrow> vec2d \<Rightarrow> bool" where
  "LineSegment2d_IsPointIn s p =
     (if ls_length s \<le> kMathEpsilon
      then \<bar>vx p - vx (ls_start s)\<bar> \<le> kMathEpsilon \<and> \<bar>vy p - vy (ls_start s)\<bar> \<le> kMathEpsilon
      else if kMathEpsilon < \<bar>CrossProd p (ls_start s) (ls_end s)\<bar> then False
      else IsWithin (vx p) (vx (ls_start s)) (vx (ls_end s)) \<and> IsWithin (vy p) (vy (ls_start s)) (vy (ls_end s)))"

definition LineSegment2d_GetIntersect :: "line_segment2d \<Rightarrow> line_segment2d \<Rightarrow> vec2d option" where
  "LineSegment2d_GetIntersect s other =
     (if LineSegment2d_IsPointIn s (ls_start other) then Some (ls_start other)
      else if LineSegment2d_IsPointIn s (ls_end other) then Some (ls_end other)
      else if LineSegment2d_IsPointIn other (ls_start s) then Some (ls_start s)
      else if LineSegment2d_IsPointIn other (ls_end s) then Some (ls_end s)
      else if ls_length s \<le> kMathEpsilon \<or> ls_length other \<le> kMathEpsilon then None
      else
        let cc1 = CrossProd (ls_start s) (ls_end s) (ls_start other);
            cc2 = CrossProd (ls_start s) (ls_end s) (ls_end other)
        in if - kMathEpsilon \<le> cc1 * cc2 then None
           else
             let cc3 = CrossProd (ls_start other) (ls_end other) (ls_start s);
                 cc4 = CrossProd (ls_start other) (ls_end other) (ls_end s)
             in if - kMathEpsilon \<le> cc3 * cc4 then None
                else
                  let ratio = cc4 / (cc4 - cc3)
                  in Some (Vec2d (vx (ls_start s) * ratio + vx (ls_end s) * (1 - ratio))
                                 (vy (ls_start s) * ratio + vy (ls_end s) * (1 - ratio))))"

text \<open>The point of a segment at a ratio between start and end.\<close>

definition point_at :: "vec2d \<Rightarrow> vec2d \<Rightarrow> real \<Rightarrow> vec2d" where
  "point_at p q t = Vec2d (vx p + t * (vx q - vx p)) (vy p + t * (vy q - vy p))"

lemma point_at_simps [simp]:
  "vx (point_at p q t) = vx p + t * (vx q - vx p)" "vy (point_at p q t) = vy p + t * (vy q - vy p)"
  by (simp_all add: point_at_def)

lemma point_at_in_box:
  assumes "AABox2d_of_corners p q = Inr b" and "0 \<le> t" "t \<le> 1"
  shows "in_box b (point_at p q t)"
proof -
  have between: "min a c \<le> a + t * (c - a)" "a + t * (c - a) \<le> max a c" for a c :: real
  proof -
    have "t * (c - a) \<le> c - a" if "a \<le> c" using mult_left_le_one_le [of "c - a" t] assms(2,3) that by simp
    moreover have "t * (a - c) \<le> a - c" if "c \<le> a" using mult_left_le_one_le [of "a - c" t] assms(2,3) that by simp
    moreover have "0 \<le> t * (c - a)" if "a \<le> c" using assms(2) that by simp
    moreover have "t * (a - c) = - (t * (c - a))" by (simp add: algebra_simps)
    moreover have "0 \<le> t * (a - c)" if "c \<le> a" using assms(2) that by simp
    ultimately show "min a c \<le> a + t * (c - a)" "a + t * (c - a) \<le> max a c"
      by (cases "a \<le> c"; force simp: min_def max_def)+
  qed
  obtain b' where "AABox2d_of_corners p q = Inr b'" "min_x b' = min (vx p) (vx q)" "max_x b' = max (vx p) (vx q)"
    "min_y b' = min (vy p) (vy q)" "max_y b' = max (vy p) (vy q)"
    by (rule AABox2d_of_corners)
  then show ?thesis using assms(1) between by (simp add: in_box_def)
qed

section \<open>The distance to a segment\<close>

lemma segment_new_simps [simp]:
  "ls_start (LineSegment2d_new p q) = p" "ls_end (LineSegment2d_new p q) = q"
  by (simp_all add: LineSegment2d_new_def Let_def)

text \<open>The coordinates along the segment and across it.\<close>

lemma segment_coordinates:
  assumes "kMathEpsilon < ls_length (LineSegment2d_new s e)"
  defines "u \<equiv> ls_unit_direction (LineSegment2d_new s e)" and "l \<equiv> ls_length (LineSegment2d_new s e)"
  shows "vx u * vx u + vy u * vy u = 1" and "vx e - vx s = l * vx u" and "vy e - vy s = l * vy u" and "0 < l"
proof -
  let ?dx = "vx e - vx s" and ?dy = "vy e - vy s"
  have l: "l = sqrt (?dx\<^sup>2 + ?dy\<^sup>2)" by (simp add: l_def LineSegment2d_new_def Let_def)
  show pos: "0 < l" using assms(1) unfolding l_def by (rule less_trans [rotated]) simp
  have u: "vx u = ?dx / l" "vy u = ?dy / l"
    using assms(1) by (simp_all add: u_def l LineSegment2d_new_def Let_def)
  show "?dx = l * vx u" "?dy = l * vy u" using pos by (simp_all add: u)
  have "l * l = ?dx * ?dx + ?dy * ?dy" by (simp add: l power2_eq_square)
  then have "(?dx * ?dx + ?dy * ?dy) / (l * l) = (l * l) / (l * l)" by (simp only:)
  also have "\<dots> = 1" using pos by simp
  finally have "(?dx * ?dx + ?dy * ?dy) / (l * l) = 1" .
  then show "vx u * vx u + vy u * vy u = 1" by (simp add: u add_divide_distrib)
qed

lemma rotated_square:
  fixes x y a b c :: real
  assumes "a * a + b * b = 1"
  shows "(x - c * a) * (x - c * a) + (y - c * b) * (y - c * b)
    = (x * b - y * a)\<^sup>2 + (x * a + y * b - c)\<^sup>2"
proof -
  have "(x * b - y * a)\<^sup>2 + (x * a + y * b - c)\<^sup>2
    = (x * x + y * y) * (a * a + b * b) - 2 * c * (x * a + y * b) + c * c"
    by (simp add: power2_eq_square algebra_simps)
  also have "\<dots> = (x * x + y * y) - 2 * c * (x * a + y * b) + c * c * (a * a + b * b)" by (simp add: assms)
  also have "\<dots> = (x - c * a) * (x - c * a) + (y - c * b) * (y - c * b)" by (simp add: algebra_simps)
  finally show ?thesis by simp
qed

lemma distance_to_point_at:
  assumes "kMathEpsilon < ls_length (LineSegment2d_new s e)"
  defines "u \<equiv> ls_unit_direction (LineSegment2d_new s e)" and "l \<equiv> ls_length (LineSegment2d_new s e)"
  shows "Vec2d_DistanceSquareTo p (point_at s e t)
    = ((vx p - vx s) * vy u - (vy p - vy s) * vx u)\<^sup>2
      + ((vx p - vx s) * vx u + (vy p - vy s) * vy u - t * l)\<^sup>2"
proof -
  note c = segment_coordinates [OF assms(1), folded u_def l_def]
  have "vx p - vx (point_at s e t) = (vx p - vx s) - (t * l) * vx u"
    "vy p - vy (point_at s e t) = (vy p - vy s) - (t * l) * vy u"
    by (simp_all add: c(2,3))
  then show ?thesis
    by (simp only: Vec2d_DistanceSquareTo_def Let_def rotated_square [OF c(1)])
qed

text \<open>The ratio at which the nearest point lies.\<close>

definition nearest_ratio :: "line_segment2d \<Rightarrow> vec2d \<Rightarrow> real" where
  "nearest_ratio s p =
     (let proj = (vx p - vx (ls_start s)) * vx (ls_unit_direction s) + (vy p - vy (ls_start s)) * vy (ls_unit_direction s)
      in if ls_length s \<le> kMathEpsilon \<or> proj \<le> 0 then 0 else if ls_length s \<le> proj then 1 else proj / ls_length s)"

lemma nearest_ratio_bounds: "0 \<le> nearest_ratio s p" "nearest_ratio s p \<le> 1"
proof -
  have "0 < ls_length s" if "\<not> ls_length s \<le> kMathEpsilon"
  proof -
    from that have "kMathEpsilon < ls_length s" by simp
    moreover have "0 < kMathEpsilon" by simp
    ultimately show ?thesis by (rule less_trans [rotated])
  qed
  then show "0 \<le> nearest_ratio s p" "nearest_ratio s p \<le> 1"
    by (auto simp: nearest_ratio_def Let_def divide_le_eq)
qed

lemma point_at_ends [simp]: "point_at p q 0 = p" "point_at p q 1 = q"
  by (simp_all add: point_at_def)

lemma segment_distance_attained:
  "LineSegment2d_DistanceSquareTo (LineSegment2d_new s e) p
    = Vec2d_DistanceSquareTo p (point_at s e (nearest_ratio (LineSegment2d_new s e) p))"
proof (cases "ls_length (LineSegment2d_new s e) \<le> kMathEpsilon")
  case True
  then show ?thesis by (simp add: LineSegment2d_DistanceSquareTo_def nearest_ratio_def Let_def)
next
  case False
  let ?s = "LineSegment2d_new s e"
  let ?proj = "(vx p - vx s) * vx (ls_unit_direction ?s) + (vy p - vy s) * vy (ls_unit_direction ?s)"
  have long: "kMathEpsilon < ls_length ?s" using False by simp
  have pos: "0 < ls_length ?s" by (rule segment_coordinates(4) [OF long])
  consider "?proj \<le> 0" | "0 < ?proj" "ls_length ?s \<le> ?proj" | "0 < ?proj" "?proj < ls_length ?s" by linarith
  then show ?thesis
  proof cases
    case 1
    then have "nearest_ratio ?s p = 0" by (simp add: nearest_ratio_def Let_def)
    then show ?thesis using False 1
      by (simp add: LineSegment2d_DistanceSquareTo_def Vec2d_DistanceSquareTo_def Let_def power2_eq_square)
  next
    case 2
    then have "nearest_ratio ?s p = 1" using False by (simp add: nearest_ratio_def Let_def)
    then show ?thesis using False 2 by (simp add: LineSegment2d_DistanceSquareTo_def Let_def)
  next
    case 3
    then have r: "nearest_ratio ?s p = ?proj / ls_length ?s" using False by (simp add: nearest_ratio_def Let_def)
    have "Vec2d_DistanceSquareTo p (point_at s e (?proj / ls_length ?s))
      = ((vx p - vx s) * vy (ls_unit_direction ?s) - (vy p - vy s) * vx (ls_unit_direction ?s))\<^sup>2"
      unfolding distance_to_point_at [OF long] using pos by simp
    then show ?thesis unfolding r using False 3 by (simp add: LineSegment2d_DistanceSquareTo_def Let_def)
  qed
qed

lemma segment_distance_minimal:
  assumes "kMathEpsilon < ls_length (LineSegment2d_new s e)" and "0 \<le> t" "t \<le> 1"
  shows "LineSegment2d_DistanceSquareTo (LineSegment2d_new s e) p \<le> Vec2d_DistanceSquareTo p (point_at s e t)"
proof -
  let ?s = "LineSegment2d_new s e"
  let ?l = "ls_length ?s"
  let ?proj = "(vx p - vx s) * vx (ls_unit_direction ?s) + (vy p - vy s) * vy (ls_unit_direction ?s)"
  have pos: "0 < ?l" by (rule segment_coordinates(4) [OF assms(1)])
  have tl: "0 \<le> t * ?l" "t * ?l \<le> ?l" using assms(2,3) pos mult_right_mono [of t 1 ?l] by auto
  have clamp: "nearest_ratio ?s p * ?l = max 0 (min ?l ?proj)"
    using assms(1) pos by (auto simp: nearest_ratio_def Let_def)
  have "\<bar>?proj - nearest_ratio ?s p * ?l\<bar> \<le> \<bar>?proj - t * ?l\<bar>"
    unfolding clamp using tl by (simp add: max_def min_def abs_if)
  then have "(?proj - nearest_ratio ?s p * ?l)\<^sup>2 \<le> (?proj - t * ?l)\<^sup>2" by (simp add: abs_le_square_iff)
  then show ?thesis
    unfolding segment_distance_attained distance_to_point_at [OF assms(1)] by simp
qed

text \<open>The three versions of the distance agree, and the reported nearest point has it.\<close>

lemma segment_DistanceTo: "LineSegment2d_DistanceTo s p = sqrt (LineSegment2d_DistanceSquareTo s p)"
  by (simp add: LineSegment2d_DistanceTo_def LineSegment2d_DistanceSquareTo_def DistanceTo_sqrt Let_def)

lemma segment_nearest:
  "LineSegment2d_nearest (LineSegment2d_new s e) p
    = (LineSegment2d_DistanceSquareTo (LineSegment2d_new s e) p, point_at s e (nearest_ratio (LineSegment2d_new s e) p))"
proof (cases "ls_length (LineSegment2d_new s e) \<le> kMathEpsilon")
  case False
  then have "kMathEpsilon < ls_length (LineSegment2d_new s e)" by simp
  note c = segment_coordinates [OF this]
  let ?l = "ls_length (LineSegment2d_new s e)" and ?u = "ls_unit_direction (LineSegment2d_new s e)"
  have "point_at s e (x / ?l) = Vec2d (vx s + vx ?u * x) (vy s + vy ?u * x)" for x
    unfolding point_at_def c(2,3) using c(4) by simp
  with False show ?thesis
    by (simp add: LineSegment2d_nearest_def LineSegment2d_DistanceSquareTo_def nearest_ratio_def Let_def)
qed (simp add: LineSegment2d_nearest_def LineSegment2d_DistanceSquareTo_def nearest_ratio_def Let_def)

lemma segment_DistanceTo_nearest:
  "LineSegment2d_DistanceTo_nearest (LineSegment2d_new s e) p
    = (LineSegment2d_DistanceTo (LineSegment2d_new s e) p, point_at s e (nearest_ratio (LineSegment2d_new s e) p))"
proof (cases "ls_length (LineSegment2d_new s e) \<le> kMathEpsilon")
  case False
  then have long: "kMathEpsilon < ls_length (LineSegment2d_new s e)" by simp
  note c = segment_coordinates [OF long]
  let ?l = "ls_length (LineSegment2d_new s e)" and ?u = "ls_unit_direction (LineSegment2d_new s e)"
  let ?proj = "(vx p - vx s) * vx ?u + (vy p - vy s) * vy ?u"
  let ?cross = "(vx p - vx s) * vy ?u - (vy p - vy s) * vx ?u"
  have at: "point_at s e (x / ?l) = Vec2d (vx s + vx ?u * x) (vy s + vy ?u * x)" for x
    unfolding point_at_def c(2,3) using c(4) by simp
  have start: "sqrt ((vx p - vx s)\<^sup>2 + (vy p - vy s)\<^sup>2) = \<bar>?cross\<bar>" if "?proj = 0"
    using distance_to_point_at [OF long, of p 0] that
    by (simp add: Vec2d_DistanceSquareTo_def Let_def power2_eq_square [symmetric] del: real_sqrt_eq_iff)
  have stop: "Vec2d_DistanceTo p e = \<bar>?cross\<bar>" if "?proj = ?l"
    using distance_to_point_at [OF long, of p 1] that by (simp add: DistanceTo_sqrt)
  consider "?proj < 0" | "?proj = 0" | "0 < ?proj" "?proj < ?l" | "?proj = ?l" | "?l < ?proj" "0 < ?proj"
    using c(4) by linarith
  then show ?thesis
  proof cases
    case 2
    then show ?thesis using False start [OF 2] at [of 0] c(4)
      by (simp add: LineSegment2d_DistanceTo_nearest_def LineSegment2d_DistanceTo_def nearest_ratio_def Let_def)
  next
    case 4
    then show ?thesis using False stop [OF 4] at [of ?l] c(4)
      by (simp add: LineSegment2d_DistanceTo_nearest_def LineSegment2d_DistanceTo_def nearest_ratio_def Let_def)
  qed (use False at c(4) in \<open>simp_all add: LineSegment2d_DistanceTo_nearest_def LineSegment2d_DistanceTo_def nearest_ratio_def Let_def\<close>)
qed (simp add: LineSegment2d_DistanceTo_nearest_def LineSegment2d_DistanceTo_def nearest_ratio_def Let_def)

section \<open>The crossing of two segments\<close>

lemma crossing_coordinates:
  assumes "CrossProd c d a * CrossProd c d b < 0" and "CrossProd a b c * CrossProd a b d < 0"
  defines "ratio \<equiv> CrossProd c d b / (CrossProd c d b - CrossProd c d a)"
  shows "\<exists>t u. 0 < t \<and> t < 1 \<and> 0 < u \<and> u < 1 \<and> t = 1 - ratio \<and> point_at a b t = point_at c d u"
proof -
  let ?k = "CrossProd c d b - CrossProd c d a"
  have inner: "0 < x / (x - y)" "x / (x - y) < 1" if "y * x < 0" for x y :: real
    using that by (auto simp: mult_less_0_iff divide_less_eq zero_less_divide_iff)
  have k: "?k \<noteq> 0" using assms(1) by (metis diff_eq_eq add_0 not_square_less_zero)
  have k': "CrossProd a b d - CrossProd a b c = - ?k" by (simp add: CrossProd_def algebra_simps)
  let ?u = "1 - CrossProd a b d / (CrossProd a b d - CrossProd a b c)"
  have t: "1 - ratio = - CrossProd c d a / ?k" using k by (simp add: ratio_def field_simps)
  have u: "?u = CrossProd a b c / ?k" unfolding k' using k k' by (simp add: field_simps)
  have "?k * (vx a - vx c) = CrossProd c d a * (vx b - vx a) + CrossProd a b c * (vx d - vx c)"
    "?k * (vy a - vy c) = CrossProd c d a * (vy b - vy a) + CrossProd a b c * (vy d - vy c)"
    by (simp_all add: CrossProd_def algebra_simps)
  then have "vx a - vx c = (CrossProd c d a * (vx b - vx a) + CrossProd a b c * (vx d - vx c)) / ?k"
    "vy a - vy c = (CrossProd c d a * (vy b - vy a) + CrossProd a b c * (vy d - vy c)) / ?k"
    using k by (metis nonzero_mult_div_cancel_left)+
  then have "vx a + - CrossProd c d a / ?k * (vx b - vx a) = vx c + CrossProd a b c / ?k * (vx d - vx c)"
    "vy a + - CrossProd c d a / ?k * (vy b - vy a) = vy c + CrossProd a b c / ?k * (vy d - vy c)"
    by (simp_all only: add_divide_distrib times_divide_eq_left mult_minus_left minus_divide_left [symmetric])
  then have "point_at a b (1 - ratio) = point_at c d ?u"
    unfolding t u point_at_def by simp
  then show ?thesis
    using inner [OF assms(1)] inner [OF assms(2)] unfolding ratio_def by (intro exI [of _ "1 - ratio"] exI [of _ ?u]) (auto simp: ratio_def)
qed

lemma GetIntersect_crossing:
  assumes "LineSegment2d_GetIntersect (LineSegment2d_new a b) (LineSegment2d_new c d) = Some p"
    and "p \<notin> {a, b, c, d}"
  shows "\<exists>t u. 0 < t \<and> t < 1 \<and> 0 < u \<and> u < 1 \<and> p = point_at a b t \<and> p = point_at c d u"
proof -
  let ?cc1 = "CrossProd a b c" and ?cc2 = "CrossProd a b d" and ?cc3 = "CrossProd c d a" and ?cc4 = "CrossProd c d b"
  have p: "?cc1 * ?cc2 < - kMathEpsilon" "?cc3 * ?cc4 < - kMathEpsilon"
    "p = Vec2d (vx a * (?cc4 / (?cc4 - ?cc3)) + vx b * (1 - ?cc4 / (?cc4 - ?cc3)))
               (vy a * (?cc4 / (?cc4 - ?cc3)) + vy b * (1 - ?cc4 / (?cc4 - ?cc3)))"
    using assms by (auto simp: LineSegment2d_GetIntersect_def Let_def not_le split: if_splits)
  have "?cc1 * ?cc2 < 0" "?cc3 * ?cc4 < 0" using p(1,2) by linarith+
  from crossing_coordinates [OF this(2,1)] obtain t u where
    tu: "0 < t" "t < 1" "0 < u" "u < 1" "t = 1 - ?cc4 / (?cc4 - ?cc3)" "point_at a b t = point_at c d u"
    by blast
  have "Vec2d (vx a * r + vx b * (1 - r)) (vy a * r + vy b * (1 - r)) = point_at a b (1 - r)" for r
    by (simp add: point_at_def algebra_simps)
  then have "p = point_at a b t" unfolding p(3) tu(5) .
  with tu(1-4,6) show ?thesis by (intro exI [of _ t] exI [of _ u]) simp
qed

end
