(* ===== verification/KdTree.thy ===== *)
theory KdTree
  imports Geometry "HOL-Library.Multiset"
begin

text \<open>
  The search tree over objects with bounding boxes (\<open>modules/common/math/aaboxkdtree2d.h\<close>), which the map
  uses to find lanes, signals and other objects near a point.

  The type of the objects is a template parameter; its operations \<open>aabox\<close> and \<open>DistanceSquareTo\<close> are
  arguments.  What the tree relies on is the contract of the locale \<open>boxed_objects\<close>: the distance to an
  object is the distance to some point in its box.  A null pointer is \<open>Nullptr\<close>, and a \<open>new\<close> that the code
  guards by a test for an empty vector includes the guard.  Where \<open>std::sort\<close> may order equal
  elements in any way, the model keeps their order; no statement depends on it.  The infinity from which
  the search for the nearest object starts is \<^term>\<open>None\<close>.

  The theory shows that the search finds a nearest object up to the tolerance of the code, that the search
  for all objects within a distance finds exactly those, that the construction ends for parameters
  with a maximal depth or leaf dimension, and that with the default parameters it does not end for
  two equal points.
\<close>

section \<open>The tree\<close>

record kd_params =
  kp_max_depth :: int
  kp_max_leaf_size :: int
  kp_max_leaf_dimension :: real

abbreviation kd_params_new :: kd_params where
  "kd_params_new \<equiv> \<lparr>kp_max_depth = - 1, kp_max_leaf_size = - 1, kp_max_leaf_dimension = - 1\<rparr>"

datatype kd_partition = PARTITION_X | PARTITION_Y

record 'o kd_data =
  kd_sorted_by_min :: "'o list"
  kd_sorted_by_max :: "'o list"
  kd_sorted_by_min_bound :: "real list"
  kd_sorted_by_max_bound :: "real list"
  kd_depth :: int
  kd_min_x :: real
  kd_max_x :: real
  kd_min_y :: real
  kd_max_y :: real
  kd_mid_x :: real
  kd_mid_y :: real
  kd_partition :: kd_partition
  kd_partition_position :: real

datatype 'o kd_node = Nullptr | KD_node "'o kd_data" "'o kd_node" "'o kd_node"

section \<open>Construction\<close>

definition ComputeBoundary :: "('o \<Rightarrow> aabox2d) \<Rightarrow> 'o list \<Rightarrow> 'o kd_data \<Rightarrow> 'o kd_data" where
  "ComputeBoundary aabox objects n =
     (let least = (\<lambda>f. fold min (map f (tl objects)) (f (hd objects)));
          greatest = (\<lambda>f. fold max (map f (tl objects)) (f (hd objects)));
          x1 = least (min_x \<circ> aabox);
          x2 = greatest (max_x \<circ> aabox);
          y1 = least (min_y \<circ> aabox);
          y2 = greatest (max_y \<circ> aabox)
      in n\<lparr>kd_min_x := x1, kd_max_x := x2, kd_min_y := y1, kd_max_y := y2,
            kd_mid_x := (x1 + x2) / 2, kd_mid_y := (y1 + y2) / 2\<rparr>)"

definition ComputePartition :: "'o kd_data \<Rightarrow> 'o kd_data" where
  "ComputePartition n =
     (if kd_max_y n - kd_min_y n \<le> kd_max_x n - kd_min_x n
      then n\<lparr>kd_partition := PARTITION_X, kd_partition_position := (kd_min_x n + kd_max_x n) / 2\<rparr>
      else n\<lparr>kd_partition := PARTITION_Y, kd_partition_position := (kd_min_y n + kd_max_y n) / 2\<rparr>)"

fun lower_bound :: "kd_partition \<Rightarrow> aabox2d \<Rightarrow> real" where
  "lower_bound PARTITION_X b = min_x b"
| "lower_bound PARTITION_Y b = min_y b"

fun upper_bound :: "kd_partition \<Rightarrow> aabox2d \<Rightarrow> real" where
  "upper_bound PARTITION_X b = max_x b"
| "upper_bound PARTITION_Y b = max_y b"

definition InitObjects :: "('o \<Rightarrow> aabox2d) \<Rightarrow> 'o list \<Rightarrow> 'o kd_data \<Rightarrow> 'o kd_data" where
  "InitObjects aabox objects n =
     (let low = lower_bound (kd_partition n) \<circ> aabox;
          high = upper_bound (kd_partition n) \<circ> aabox;
          by_min = sort_key low objects;
          by_max = sort_key (\<lambda>ob. - high ob) objects
      in n\<lparr>kd_sorted_by_min := by_min, kd_sorted_by_max := by_max,
            kd_sorted_by_min_bound := map low by_min, kd_sorted_by_max_bound := map high by_max\<rparr>)"

definition SplitToSubNodes :: "'o list \<Rightarrow> kd_params \<Rightarrow> 'o kd_data \<Rightarrow> bool" where
  "SplitToSubNodes objects params n =
     (if 0 \<le> kp_max_depth params \<and> kp_max_depth params \<le> kd_depth n then False
      else if int (length objects) \<le> max 1 (kp_max_leaf_size params) then False
      else if 0 \<le> kp_max_leaf_dimension params
         \<and> max (kd_max_x n - kd_min_x n) (kd_max_y n - kd_min_y n) \<le> kp_max_leaf_dimension params then False
      else True)"

definition PartitionObjects :: "('o \<Rightarrow> aabox2d) \<Rightarrow> 'o list \<Rightarrow> 'o kd_data \<Rightarrow> 'o list \<times> 'o list \<times> 'o list" where
  "PartitionObjects aabox objects n =
     (let left = (\<lambda>ob. upper_bound (kd_partition n) (aabox ob) \<le> kd_partition_position n);
          right = (\<lambda>ob. kd_partition_position n \<le> lower_bound (kd_partition n) (aabox ob))
      in (filter left objects, filter (\<lambda>ob. \<not> left ob \<and> right ob) objects,
          filter (\<lambda>ob. \<not> left ob \<and> \<not> right ob) objects))"

definition kd_data_new :: "int \<Rightarrow> 'o kd_data" where
  "kd_data_new depth =
     \<lparr>kd_sorted_by_min = [], kd_sorted_by_max = [], kd_sorted_by_min_bound = [], kd_sorted_by_max_bound = [],
      kd_depth = depth, kd_min_x = 0, kd_max_x = 0, kd_min_y = 0, kd_max_y = 0, kd_mid_x = 0, kd_mid_y = 0,
      kd_partition = PARTITION_X, kd_partition_position = 0\<rparr>"

partial_function (option) kd_build ::
    "('o \<Rightarrow> aabox2d) \<Rightarrow> kd_params \<Rightarrow> 'o list \<Rightarrow> int \<Rightarrow> 'o kd_node option" where
  "kd_build aabox params objects depth =
     (if objects = [] then Some Nullptr
      else
        let n = ComputePartition (ComputeBoundary aabox objects (kd_data_new depth))
        in if SplitToSubNodes objects params n
           then
             let parts = PartitionObjects aabox objects n
             in Option.bind (kd_build aabox params (fst parts) (depth + 1))
                  (\<lambda>left. Option.bind (kd_build aabox params (fst (snd parts)) (depth + 1))
                     (\<lambda>right. Some (KD_node (InitObjects aabox (snd (snd parts)) n) left right)))
           else Some (KD_node (InitObjects aabox objects n) Nullptr Nullptr))"

section \<open>Search\<close>

definition LowerDistanceSquareToPoint :: "'o kd_data \<Rightarrow> vec2d \<Rightarrow> real" where
  "LowerDistanceSquareToPoint n p =
     (let dx = (if vx p < kd_min_x n then kd_min_x n - vx p else if kd_max_x n < vx p then vx p - kd_max_x n else 0);
          dy = (if vy p < kd_min_y n then kd_min_y n - vy p else if kd_max_y n < vy p then vy p - kd_max_y n else 0)
      in dx * dx + dy * dy)"

definition UpperDistanceSquareToPoint :: "'o kd_data \<Rightarrow> vec2d \<Rightarrow> real" where
  "UpperDistanceSquareToPoint n p =
     (let dx = (if kd_mid_x n < vx p then vx p - kd_min_x n else vx p - kd_max_x n);
          dy = (if kd_mid_y n < vy p then vy p - kd_min_y n else vy p - kd_max_y n)
      in dx * dx + dy * dy)"

fun GetAllObjects :: "'o kd_node \<Rightarrow> 'o list" where
  "GetAllObjects Nullptr = []"
| "GetAllObjects (KD_node n left right) = kd_sorted_by_min n @ GetAllObjects left @ GetAllObjects right"

abbreviation pvalue :: "'o kd_data \<Rightarrow> vec2d \<Rightarrow> real" where
  "pvalue n p \<equiv> (case kd_partition n of PARTITION_X \<Rightarrow> vx p | PARTITION_Y \<Rightarrow> vy p)"

text \<open>The loops over the sorted objects with their bounds: a bound that is too far ends the loop.\<close>

fun collect_objects :: "(real \<Rightarrow> bool) \<Rightarrow> ('o \<Rightarrow> bool) \<Rightarrow> (real \<times> 'o) list \<Rightarrow> 'o list" where
  "collect_objects too_far near [] = []"
| "collect_objects too_far near ((bound, ob) # rest) =
     (if too_far bound then []
      else if near ob then ob # collect_objects too_far near rest
      else collect_objects too_far near rest)"

fun GetObjectsInternal ::
    "('o \<Rightarrow> vec2d \<Rightarrow> real) \<Rightarrow> vec2d \<Rightarrow> real \<Rightarrow> real \<Rightarrow> 'o kd_node \<Rightarrow> 'o list" where
  "GetObjectsInternal DistanceSquareTo p distance distance_sqr Nullptr = []"
| "GetObjectsInternal DistanceSquareTo p distance distance_sqr (KD_node n left right) =
     (if distance_sqr < LowerDistanceSquareToPoint n p then []
      else if UpperDistanceSquareToPoint n p \<le> distance_sqr then GetAllObjects (KD_node n left right)
      else
        (if pvalue n p < kd_partition_position n
         then collect_objects (\<lambda>bound. pvalue n p + distance < bound) (\<lambda>ob. DistanceSquareTo ob p \<le> distance_sqr)
                (zip (kd_sorted_by_min_bound n) (kd_sorted_by_min n))
         else collect_objects (\<lambda>bound. bound < pvalue n p - distance) (\<lambda>ob. DistanceSquareTo ob p \<le> distance_sqr)
                (zip (kd_sorted_by_max_bound n) (kd_sorted_by_max n)))
        @ GetObjectsInternal DistanceSquareTo p distance distance_sqr left
        @ GetObjectsInternal DistanceSquareTo p distance distance_sqr right)"

text \<open>
  The smallest distance so far with its object; \<open>min_distance_sqr\<close> and \<open>nearest_object\<close> are always set
  together.
\<close>

type_synonym 'o best = "(real \<times> 'o) option"

fun exceeds :: "real \<Rightarrow> 'o best \<Rightarrow> bool" where
  "exceeds d None = False"
| "exceeds d (Some (m, ob)) = (m < d)"

fun improve :: "real \<Rightarrow> 'o \<Rightarrow> 'o best \<Rightarrow> 'o best" where
  "improve d ob None = Some (d, ob)"
| "improve d ob (Some (m, ob')) = (if d < m then Some (d, ob) else Some (m, ob'))"

fun is_near :: "'o best \<Rightarrow> bool" where
  "is_near None = False"
| "is_near (Some (m, ob)) = (m \<le> kMathEpsilon)"

fun prunes :: "real \<Rightarrow> 'o best \<Rightarrow> bool" where
  "prunes d None = False"
| "prunes d (Some (m, ob)) = (m - kMathEpsilon \<le> d)"

fun nearest_scan :: "(real \<Rightarrow> bool) \<Rightarrow> real \<Rightarrow> ('o \<Rightarrow> real) \<Rightarrow> (real \<times> 'o) list \<Rightarrow> 'o best \<Rightarrow> 'o best" where
  "nearest_scan beyond pv sqr [] best = best"
| "nearest_scan beyond pv sqr ((bound, ob) # rest) best =
     (if beyond bound \<and> exceeds ((bound - pv)\<^sup>2) best then best
      else nearest_scan beyond pv sqr rest (improve (sqr ob) ob best))"

fun GetNearestObjectInternal :: "('o \<Rightarrow> vec2d \<Rightarrow> real) \<Rightarrow> vec2d \<Rightarrow> 'o kd_node \<Rightarrow> 'o best \<Rightarrow> 'o best" where
  "GetNearestObjectInternal DistanceSquareTo p Nullptr best = best"
| "GetNearestObjectInternal DistanceSquareTo p (KD_node n left right) best =
     (if prunes (LowerDistanceSquareToPoint n p) best then best
      else
        let search_left_first = pvalue n p < kd_partition_position n;
            best = (if search_left_first then GetNearestObjectInternal DistanceSquareTo p left best
                    else GetNearestObjectInternal DistanceSquareTo p right best)
        in if is_near best then best
           else
             let best = (if search_left_first
                         then nearest_scan (\<lambda>bound. pvalue n p < bound) (pvalue n p) (\<lambda>ob. DistanceSquareTo ob p)
                                (zip (kd_sorted_by_min_bound n) (kd_sorted_by_min n)) best
                         else nearest_scan (\<lambda>bound. bound < pvalue n p) (pvalue n p) (\<lambda>ob. DistanceSquareTo ob p)
                                (zip (kd_sorted_by_max_bound n) (kd_sorted_by_max n)) best)
             in if is_near best then best
                else if search_left_first then GetNearestObjectInternal DistanceSquareTo p right best
                else GetNearestObjectInternal DistanceSquareTo p left best)"

definition GetNearestObject :: "('o \<Rightarrow> vec2d \<Rightarrow> real) \<Rightarrow> vec2d \<Rightarrow> 'o kd_node \<Rightarrow> 'o option" where
  "GetNearestObject DistanceSquareTo p tree =
     map_option snd (GetNearestObjectInternal DistanceSquareTo p tree None)"

definition GetObjects :: "('o \<Rightarrow> vec2d \<Rightarrow> real) \<Rightarrow> vec2d \<Rightarrow> real \<Rightarrow> 'o kd_node \<Rightarrow> 'o list" where
  "GetObjects DistanceSquareTo p distance tree =
     GetObjectsInternal DistanceSquareTo p distance (distance\<^sup>2) tree"

definition AABoxKDTree2d_new :: "('o \<Rightarrow> aabox2d) \<Rightarrow> 'o list \<Rightarrow> kd_params \<Rightarrow> 'o kd_node option" where
  "AABoxKDTree2d_new aabox objects params = kd_build aabox params objects 0"

section \<open>The tree that is built\<close>

definition box_within :: "aabox2d \<Rightarrow> 'o kd_data \<Rightarrow> bool" where
  "box_within b n \<longleftrightarrow> kd_min_x n \<le> min_x b \<and> max_x b \<le> kd_max_x n \<and> kd_min_y n \<le> min_y b \<and> max_y b \<le> kd_max_y n"

definition node_ok :: "('o \<Rightarrow> aabox2d) \<Rightarrow> 'o kd_data \<Rightarrow> bool" where
  "node_ok aabox n \<longleftrightarrow>
     (let low = lower_bound (kd_partition n) \<circ> aabox; high = upper_bound (kd_partition n) \<circ> aabox
      in mset (kd_sorted_by_max n) = mset (kd_sorted_by_min n)
         \<and> kd_sorted_by_min_bound n = map low (kd_sorted_by_min n) \<and> sorted (map low (kd_sorted_by_min n))
         \<and> kd_sorted_by_max_bound n = map high (kd_sorted_by_max n) \<and> sorted (map (\<lambda>ob. - high ob) (kd_sorted_by_max n))
         \<and> kd_mid_x n = (kd_min_x n + kd_max_x n) / 2 \<and> kd_mid_y n = (kd_min_y n + kd_max_y n) / 2)"

fun kd_inv :: "('o \<Rightarrow> aabox2d) \<Rightarrow> 'o kd_node \<Rightarrow> bool" where
  "kd_inv aabox Nullptr \<longleftrightarrow> True"
| "kd_inv aabox (KD_node n left right) \<longleftrightarrow>
     node_ok aabox n \<and> (\<forall>ob \<in> set (GetAllObjects (KD_node n left right)). box_within (aabox ob) n)
     \<and> kd_inv aabox left \<and> kd_inv aabox right"

lemma fold_min_le: "x \<in> insert a (set xs) \<Longrightarrow> fold min xs a \<le> (x :: real)"
  using Min_le [of "set (a # xs)" x] unfolding Min.set_eq_fold by simp

lemma fold_max_ge: "x \<in> insert a (set xs) \<Longrightarrow> (x :: real) \<le> fold max xs a"
  using Max_ge [of "set (a # xs)" x] unfolding Max.set_eq_fold by simp

lemma fold_min_in: "fold min xs (a :: real) \<in> insert a (set xs)"
  using Min_in [of "set (a # xs)"] unfolding Min.set_eq_fold by simp

lemma fold_max_in: "fold max xs (a :: real) \<in> insert a (set xs)"
  using Max_in [of "set (a # xs)"] unfolding Max.set_eq_fold by simp

abbreviation kd_bounds :: "('o \<Rightarrow> aabox2d) \<Rightarrow> 'o list \<Rightarrow> int \<Rightarrow> 'o kd_data" where
  "kd_bounds aabox objects depth \<equiv> ComputePartition (ComputeBoundary aabox objects (kd_data_new depth))"

lemma kd_bounds_within:
  assumes "ob \<in> set objects"
  shows "box_within (aabox ob) (kd_bounds aabox objects depth)"
proof -
  have "f (aabox ob) \<in> insert ((f \<circ> aabox) (hd objects)) (set (map (f \<circ> aabox) (tl objects)))" for f :: "aabox2d \<Rightarrow> real"
    using assms by (cases objects) auto
  note bounds = fold_min_le [OF this] fold_max_ge [OF this]
  show ?thesis
    using bounds [of min_x] bounds [of max_x] bounds [of min_y] bounds [of max_y]
    unfolding box_within_def ComputePartition_def ComputeBoundary_def Let_def by simp
qed

lemma kd_bounds_mid:
  "kd_mid_x (kd_bounds aabox objects depth) = (kd_min_x (kd_bounds aabox objects depth) + kd_max_x (kd_bounds aabox objects depth)) / 2"
  "kd_mid_y (kd_bounds aabox objects depth) = (kd_min_y (kd_bounds aabox objects depth) + kd_max_y (kd_bounds aabox objects depth)) / 2"
  by (simp_all add: ComputePartition_def ComputeBoundary_def Let_def)

lemma InitObjects_simps [simp]:
  "kd_partition (InitObjects aabox objects n) = kd_partition n"
  "kd_min_x (InitObjects aabox objects n) = kd_min_x n" "kd_max_x (InitObjects aabox objects n) = kd_max_x n"
  "kd_min_y (InitObjects aabox objects n) = kd_min_y n" "kd_max_y (InitObjects aabox objects n) = kd_max_y n"
  "kd_mid_x (InitObjects aabox objects n) = kd_mid_x n" "kd_mid_y (InitObjects aabox objects n) = kd_mid_y n"
  "mset (kd_sorted_by_min (InitObjects aabox objects n)) = mset objects"
  by (simp_all add: InitObjects_def Let_def)

lemma box_within_InitObjects [simp]: "box_within b (InitObjects aabox objects n) \<longleftrightarrow> box_within b n"
  by (simp add: box_within_def)

lemma node_ok_InitObjects:
  "kd_mid_x n = (kd_min_x n + kd_max_x n) / 2 \<Longrightarrow> kd_mid_y n = (kd_min_y n + kd_max_y n) / 2
    \<Longrightarrow> node_ok aabox (InitObjects aabox objects n)"
  by (simp add: node_ok_def Let_def) (simp add: InitObjects_def Let_def comp_def)

lemma PartitionObjects_mset:
  "mset (fst (PartitionObjects aabox objects n)) + mset (fst (snd (PartitionObjects aabox objects n)))
    + mset (snd (snd (PartitionObjects aabox objects n))) = mset objects"
  by (induction objects) (auto simp: PartitionObjects_def Let_def)

lemma kd_inv_node:
  assumes "kd_inv aabox left" "kd_inv aabox right"
    and "mset objects + mset (GetAllObjects left) + mset (GetAllObjects right) = mset all"
    and n_def: "n = InitObjects aabox objects (kd_bounds aabox all depth)"
  shows "kd_inv aabox (KD_node n left right) \<and> mset (GetAllObjects (KD_node n left right)) = mset all"
proof -
  have all: "mset (GetAllObjects (KD_node n left right)) = mset all"
    using assms(3) by (simp add: n_def ac_simps)
  have "node_ok aabox n" unfolding n_def using kd_bounds_mid by (rule node_ok_InitObjects)
  moreover have "\<forall>ob \<in> set (GetAllObjects (KD_node n left right)). box_within (aabox ob) n"
    using kd_bounds_within mset_eq_setD [OF all] unfolding n_def by fastforce
  ultimately show ?thesis using all assms(1,2) by simp
qed

lemma kd_build_inv:
  "kd_build aabox params objects depth = Some t \<Longrightarrow> kd_inv aabox t \<and> mset (GetAllObjects t) = mset objects"
proof (induction rule: kd_build.raw_induct [rotated, consumes 1, case_names build])
  case (build build aabox params objects depth t)
  let ?n = "kd_bounds aabox objects depth"
  let ?parts = "PartitionObjects aabox objects ?n"
  consider "objects = []" | "objects \<noteq> []" "\<not> SplitToSubNodes objects params ?n"
    | "objects \<noteq> []" "SplitToSubNodes objects params ?n" by blast
  then show ?case
  proof cases
    case 3
    then obtain left right where sub: "build aabox params (fst ?parts) (depth + 1) = Some left"
      "build aabox params (fst (snd ?parts)) (depth + 1) = Some right"
      and t: "t = KD_node (InitObjects aabox (snd (snd ?parts)) ?n) left right"
      using build(2) by (auto simp: Let_def split: Option.bind_splits)
    note left = build(1) [OF sub(1)] and right = build(1) [OF sub(2)]
    have "mset (snd (snd ?parts)) + mset (GetAllObjects left) + mset (GetAllObjects right) = mset objects"
      using left right PartitionObjects_mset [of aabox objects ?n] by (simp add: ac_simps)
    with left right show ?thesis unfolding t by (intro kd_inv_node) auto
  qed (use build(2) kd_inv_node [of aabox Nullptr Nullptr objects objects] in \<open>auto simp: Let_def\<close>)
qed

section \<open>Objects with boxes\<close>

locale boxed_objects =
  fixes aabox :: "'o \<Rightarrow> aabox2d" and DistanceSquareTo :: "'o \<Rightarrow> vec2d \<Rightarrow> real"
  assumes distance_in_box: "\<exists>q. in_box (aabox ob) q \<and> DistanceSquareTo ob p = Vec2d_DistanceSquareTo p q"

lemma square_gap:
  fixes a b c :: real
  assumes "0 \<le> a" "a \<le> \<bar>b\<bar>"
  shows "a * a \<le> b * b"
  using power_mono [OF assms(2,1), of 2] by (simp add: power2_eq_square)

lemma square_reach:
  fixes a b :: real
  assumes "\<bar>a\<bar> \<le> \<bar>b\<bar>"
  shows "a * a \<le> b * b"
  using power_mono [OF assms, of 2] by (simp add: power2_eq_square)

context boxed_objects
begin

lemma lower_distance:
  assumes "box_within (aabox ob) n"
  shows "LowerDistanceSquareToPoint n p \<le> DistanceSquareTo ob p"
proof -
  obtain q where q: "in_box (aabox ob) q" "DistanceSquareTo ob p = Vec2d_DistanceSquareTo p q"
    using distance_in_box by blast
  then show ?thesis
    using assms unfolding q(2) LowerDistanceSquareToPoint_def Vec2d_DistanceSquareTo_def Let_def box_within_def in_box_def
    by (intro add_mono square_gap) auto
qed

lemma upper_distance:
  assumes "box_within (aabox ob) n" and "node_ok aabox n"
  shows "DistanceSquareTo ob p \<le> UpperDistanceSquareToPoint n p"
proof -
  obtain q where q: "in_box (aabox ob) q" "DistanceSquareTo ob p = Vec2d_DistanceSquareTo p q"
    using distance_in_box by blast
  have "kd_mid_x n = (kd_min_x n + kd_max_x n) / 2" "kd_mid_y n = (kd_min_y n + kd_max_y n) / 2"
    using assms(2) by (simp_all add: node_ok_def Let_def)
  with q assms(1) show ?thesis
    unfolding q(2) UpperDistanceSquareToPoint_def Vec2d_DistanceSquareTo_def Let_def box_within_def in_box_def
    by (intro add_mono square_reach) (auto simp: abs_if)
qed

lemma bound_distance:
  "pvalue n p < lower_bound (kd_partition n) (aabox ob)
    \<Longrightarrow> (lower_bound (kd_partition n) (aabox ob) - pvalue n p)\<^sup>2 \<le> DistanceSquareTo ob p"
  "upper_bound (kd_partition n) (aabox ob) < pvalue n p
    \<Longrightarrow> (upper_bound (kd_partition n) (aabox ob) - pvalue n p)\<^sup>2 \<le> DistanceSquareTo ob p"
proof -
  obtain q where q: "in_box (aabox ob) q" "DistanceSquareTo ob p = Vec2d_DistanceSquareTo p q"
    using distance_in_box by blast
  have part: "g * g \<le> (vx p - vx q) * (vx p - vx q) \<Longrightarrow> g\<^sup>2 \<le> DistanceSquareTo ob p"
    "g * g \<le> (vy p - vy q) * (vy p - vy q) \<Longrightarrow> g\<^sup>2 \<le> DistanceSquareTo ob p" for g
    unfolding q(2) by (simp_all add: Vec2d_DistanceSquareTo_def Let_def power2_eq_square add_increasing add_increasing2)
  show "(lower_bound (kd_partition n) (aabox ob) - pvalue n p)\<^sup>2 \<le> DistanceSquareTo ob p"
    if "pvalue n p < lower_bound (kd_partition n) (aabox ob)"
  proof (cases "kd_partition n")
    case PARTITION_X
    then show ?thesis using that q(1) by (auto simp: in_box_def intro!: part(1) square_reach)
  next
    case PARTITION_Y
    then show ?thesis using that q(1) by (auto simp: in_box_def intro!: part(2) square_reach)
  qed
  show "(upper_bound (kd_partition n) (aabox ob) - pvalue n p)\<^sup>2 \<le> DistanceSquareTo ob p"
    if "upper_bound (kd_partition n) (aabox ob) < pvalue n p"
  proof (cases "kd_partition n")
    case PARTITION_X
    then show ?thesis using that q(1) by (auto simp: in_box_def intro!: part(1) square_reach)
  next
    case PARTITION_Y
    then show ?thesis using that q(1) by (auto simp: in_box_def intro!: part(2) square_reach)
  qed
qed

lemma distance_nonneg: "0 \<le> DistanceSquareTo ob p"
  using distance_in_box [of ob p] by auto

text \<open>All objects within a distance.\<close>

lemma collect_objects_all:
  assumes "sorted_wrt (\<lambda>(b, _) (b', _). too_far b \<longrightarrow> too_far b') xs"
    and "\<And>b ob. (b, ob) \<in> set xs \<Longrightarrow> too_far b \<Longrightarrow> \<not> near ob"
  shows "collect_objects too_far near xs = filter near (map snd xs)"
  using assms
proof (induction xs)
  case (Cons x xs)
  obtain b ob where x: "x = (b, ob)" by (cases x)
  show ?case
  proof (cases "too_far b")
    case True
    then have "\<not> near (snd y)" if "y \<in> set (x # xs)" for y
      using Cons.prems that unfolding x by (cases y) fastforce
    then have "filter near (map snd (x # xs)) = []" by (simp add: filter_empty_conv)
    with True show ?thesis by (simp add: x)
  next
    case False
    have "collect_objects too_far near xs = filter near (map snd xs)"
      by (rule Cons.IH) (use Cons.prems in auto)
    with False show ?thesis by (simp add: x)
  qed
qed simp

lemma scan_lists:
  assumes "node_ok aabox n"
  defines "by_min \<equiv> zip (kd_sorted_by_min_bound n) (kd_sorted_by_min n)"
    and "by_max \<equiv> zip (kd_sorted_by_max_bound n) (kd_sorted_by_max n)"
  shows "map snd by_min = kd_sorted_by_min n" "map snd by_max = kd_sorted_by_max n"
    "sorted_wrt (\<lambda>(b, _) (b', _). b \<le> b') by_min" "sorted_wrt (\<lambda>(b, _) (b', _). b' \<le> b) by_max"
    "(b, ob) \<in> set by_min \<Longrightarrow> b = lower_bound (kd_partition n) (aabox ob)"
    "(b, ob) \<in> set by_max \<Longrightarrow> b = upper_bound (kd_partition n) (aabox ob)"
proof -
  have min: "by_min = map (\<lambda>ob. (lower_bound (kd_partition n) (aabox ob), ob)) (kd_sorted_by_min n)"
    and max: "by_max = map (\<lambda>ob. (upper_bound (kd_partition n) (aabox ob), ob)) (kd_sorted_by_max n)"
    using assms(1) by (simp_all add: by_min_def by_max_def node_ok_def Let_def zip_map1 zip_same_conv_map)
  show "map snd by_min = kd_sorted_by_min n" "map snd by_max = kd_sorted_by_max n"
    by (simp_all add: min max comp_def)
  show "sorted_wrt (\<lambda>(b, _) (b', _). b \<le> b') by_min" "sorted_wrt (\<lambda>(b, _) (b', _). b' \<le> b) by_max"
    using assms(1) by (simp_all add: min max node_ok_def Let_def sorted_wrt_map sorted_map)
  show "(b, ob) \<in> set by_min \<Longrightarrow> b = lower_bound (kd_partition n) (aabox ob)"
    "(b, ob) \<in> set by_max \<Longrightarrow> b = upper_bound (kd_partition n) (aabox ob)"
    by (auto simp: min max)
qed

lemma GetObjectsInternal_mset:
  assumes "kd_inv aabox t" and "0 \<le> distance"
  shows "mset (GetObjectsInternal DistanceSquareTo p distance (distance\<^sup>2) t)
    = filter_mset (\<lambda>ob. DistanceSquareTo ob p \<le> distance\<^sup>2) (mset (GetAllObjects t))"
  using assms(1)
proof (induction t)
  case (KD_node n left right)
  let ?near = "\<lambda>ob. DistanceSquareTo ob p \<le> distance\<^sup>2"
  have ok: "node_ok aabox n" and within: "\<forall>ob \<in> set (GetAllObjects (KD_node n left right)). box_within (aabox ob) n"
    using KD_node.prems by simp_all
  consider "distance\<^sup>2 < LowerDistanceSquareToPoint n p" | "UpperDistanceSquareToPoint n p \<le> distance\<^sup>2"
      "\<not> distance\<^sup>2 < LowerDistanceSquareToPoint n p"
    | "\<not> distance\<^sup>2 < LowerDistanceSquareToPoint n p" "\<not> UpperDistanceSquareToPoint n p \<le> distance\<^sup>2" by blast
  then show ?case
  proof cases
    case 1
    have "\<not> ?near ob" if "ob \<in> set (GetAllObjects (KD_node n left right))" for ob
      using lower_distance [of ob n p] within that 1 by fastforce
    then have "filter_mset ?near (mset (GetAllObjects (KD_node n left right))) = {#}"
      by (metis filter_mset_eq_mempty_iff set_mset_mset)
    with 1 show ?thesis by simp
  next
    case 2
    have "?near ob" if "ob \<in> set (GetAllObjects (KD_node n left right))" for ob
      using upper_distance [of ob n p] ok within that 2(1) by fastforce
    then have "filter ?near (GetAllObjects (KD_node n left right)) = GetAllObjects (KD_node n left right)"
      by (rule filter_True [OF ballI])
    then have "filter_mset ?near (mset (GetAllObjects (KD_node n left right))) = mset (GetAllObjects (KD_node n left right))"
      by (metis mset_filter)
    with 2 show ?thesis by simp
  next
    case 3
    note lists = scan_lists [OF ok]
    have far: "\<not> ?near ob" if "distance < g" "g\<^sup>2 \<le> DistanceSquareTo ob p" for ob g
      using power_strict_mono [OF that(1) assms(2), of 2] that(2) by simp
    have min: "collect_objects (\<lambda>bound. pvalue n p + distance < bound) ?near (zip (kd_sorted_by_min_bound n) (kd_sorted_by_min n))
        = filter ?near (map snd (zip (kd_sorted_by_min_bound n) (kd_sorted_by_min n)))"
    proof (rule collect_objects_all)
      fix b ob assume "(b, ob) \<in> set (zip (kd_sorted_by_min_bound n) (kd_sorted_by_min n))" "pvalue n p + distance < b"
      then show "\<not> ?near ob" using lists(5) [of b ob] bound_distance(1) [where n = n and p = p and ob = ob] assms(2)
        by (intro far [of "b - pvalue n p"]) auto
    qed (rule sorted_wrt_mono_rel [OF _ lists(3)], auto)
    have max: "collect_objects (\<lambda>bound. bound < pvalue n p - distance) ?near (zip (kd_sorted_by_max_bound n) (kd_sorted_by_max n))
        = filter ?near (map snd (zip (kd_sorted_by_max_bound n) (kd_sorted_by_max n)))"
    proof (rule collect_objects_all)
      fix b ob assume "(b, ob) \<in> set (zip (kd_sorted_by_max_bound n) (kd_sorted_by_max n))" "b < pvalue n p - distance"
      then show "\<not> ?near ob" using lists(6) [of b ob] bound_distance(2) [where n = n and p = p and ob = ob] assms(2)
        by (intro far [of "pvalue n p - b"]) (auto simp: power2_commute)
    qed (rule sorted_wrt_mono_rel [OF _ lists(4)], auto)
    have "mset (filter ?near (kd_sorted_by_max n)) = mset (filter ?near (kd_sorted_by_min n))"
      using ok by (simp add: node_ok_def Let_def mset_filter)
    with 3 KD_node show ?thesis by (simp add: min max lists(1,2))
  qed
qed simp

text \<open>
  A better candidate: its distance is not larger, and it is the old one or one of the objects.  A
  candidate covers an object when it is at most the tolerance farther away.
\<close>

definition better :: "vec2d \<Rightarrow> 'o set \<Rightarrow> 'o best \<Rightarrow> 'o best \<Rightarrow> bool" where
  "better p obs best best' \<longleftrightarrow>
     (best' = best \<or> (\<exists>ob \<in> obs. best' = Some (DistanceSquareTo ob p, ob)))
     \<and> (\<forall>m ob. best = Some (m, ob) \<longrightarrow> (\<exists>m' ob'. best' = Some (m', ob') \<and> m' \<le> m))"

definition covers :: "vec2d \<Rightarrow> 'o best \<Rightarrow> 'o \<Rightarrow> bool" where
  "covers p best ob \<longleftrightarrow> (\<exists>m ob'. best = Some (m, ob') \<and> m \<le> DistanceSquareTo ob p + kMathEpsilon)"

lemma better_refl [simp]: "better p obs best best"
  by (auto simp: better_def)

lemma better_trans: "better p obs a b \<Longrightarrow> better p obs b c \<Longrightarrow> better p obs a c"
  unfolding better_def by (metis order_trans)

lemma better_mono: "better p obs a b \<Longrightarrow> obs \<subseteq> obs' \<Longrightarrow> better p obs' a b"
  by (auto simp: better_def)

lemma better_improve: "better p {ob} best (improve (DistanceSquareTo ob p) ob best)"
  by (cases best) (auto simp: better_def)

lemma covers_improve: "covers p (improve (DistanceSquareTo ob p) ob best) ob"
  by (cases best) (auto simp: covers_def not_less intro: add_increasing2)

lemma covers_better: "covers p a ob \<Longrightarrow> better p obs a b \<Longrightarrow> covers p b ob"
  unfolding covers_def better_def by (metis order_trans)

lemma covers_near: "is_near best \<Longrightarrow> covers p best ob"
  using distance_nonneg [of ob p] by (cases best) (auto simp: covers_def)

lemma covers_pruned: "prunes d best \<Longrightarrow> d \<le> DistanceSquareTo ob p \<Longrightarrow> covers p best ob"
  by (cases best) (auto simp: covers_def)

lemma nearest_scan_covers:
  assumes "sorted_wrt (\<lambda>(b, _) (b', _). beyond b \<longrightarrow> beyond b' \<and> (b - pv)\<^sup>2 \<le> (b' - pv)\<^sup>2) xs"
    and "\<And>b ob. (b, ob) \<in> set xs \<Longrightarrow> beyond b \<Longrightarrow> (b - pv)\<^sup>2 \<le> DistanceSquareTo ob p"
  shows "better p (snd ` set xs) best (nearest_scan beyond pv (\<lambda>ob. DistanceSquareTo ob p) xs best)
    \<and> (\<forall>ob \<in> snd ` set xs. covers p (nearest_scan beyond pv (\<lambda>ob. DistanceSquareTo ob p) xs best) ob)"
  using assms
proof (induction xs arbitrary: best)
  case (Cons x xs)
  obtain b ob where x: "x = (b, ob)" by (cases x)
  show ?case
  proof (cases "beyond b \<and> exceeds ((b - pv)\<^sup>2) best")
    case True
    have "covers p best (snd y)" if "y \<in> set (x # xs)" for y
    proof -
      have "beyond (fst y) \<and> (b - pv)\<^sup>2 \<le> (fst y - pv)\<^sup>2"
        using that Cons.prems(1) True unfolding x by (cases y) auto
      then have "(b - pv)\<^sup>2 \<le> DistanceSquareTo (snd y) p"
        using Cons.prems(2) [of "fst y" "snd y"] that by simp
      with True show ?thesis by (cases best) (auto simp: covers_def intro: add_increasing2)
    qed
    then have "\<forall>ob \<in> snd ` set (x # xs). covers p best ob" by blast
    with True show ?thesis by (simp add: x)
  next
    case False
    let ?best = "improve (DistanceSquareTo ob p) ob best"
    let ?result = "nearest_scan beyond pv (\<lambda>ob. DistanceSquareTo ob p) xs ?best"
    have IH: "better p (snd ` set xs) ?best ?result" "\<forall>ob \<in> snd ` set xs. covers p ?result ob"
      using Cons.IH [of ?best] Cons.prems by auto
    have "better p (insert ob (snd ` set xs)) best ?result"
      by (rule better_trans [OF better_mono [OF better_improve] better_mono [OF IH(1)]]) auto
    moreover have "covers p ?result ob" by (rule covers_better [OF covers_improve IH(1)])
    moreover have "nearest_scan beyond pv (\<lambda>ob. DistanceSquareTo ob p) (x # xs) best = ?result" using False by (auto simp: x)
    ultimately show ?thesis using IH(2) by (simp add: x del: nearest_scan.simps)
  qed
qed simp

lemma node_scan_covers:
  assumes "node_ok aabox n"
    and best'_def: "best' = (if pvalue n p < kd_partition_position n
      then nearest_scan (\<lambda>bound. pvalue n p < bound) (pvalue n p) (\<lambda>ob. DistanceSquareTo ob p)
             (zip (kd_sorted_by_min_bound n) (kd_sorted_by_min n)) best
      else nearest_scan (\<lambda>bound. bound < pvalue n p) (pvalue n p) (\<lambda>ob. DistanceSquareTo ob p)
             (zip (kd_sorted_by_max_bound n) (kd_sorted_by_max n)) best)"
  shows "better p (set (kd_sorted_by_min n)) best best' \<and> (\<forall>ob \<in> set (kd_sorted_by_min n). covers p best' ob)"
proof -
  note lists = scan_lists [OF assms(1)]
  have "mset (kd_sorted_by_max n) = mset (kd_sorted_by_min n)" using assms(1) by (simp add: node_ok_def Let_def)
  note same = mset_eq_setD [OF this]
  have sets: "snd ` set (zip (kd_sorted_by_min_bound n) (kd_sorted_by_min n)) = set (kd_sorted_by_min n)"
    "snd ` set (zip (kd_sorted_by_max_bound n) (kd_sorted_by_max n)) = set (kd_sorted_by_min n)"
    unfolding set_map [symmetric] lists(1,2) same by (rule refl)+
  show ?thesis
  proof (cases "pvalue n p < kd_partition_position n")
    case True
    have "sorted_wrt (\<lambda>(b, _) (b', _). pvalue n p < b \<longrightarrow> pvalue n p < b' \<and> (b - pvalue n p)\<^sup>2 \<le> (b' - pvalue n p)\<^sup>2)
        (zip (kd_sorted_by_min_bound n) (kd_sorted_by_min n))"
      by (rule sorted_wrt_mono_rel [OF _ lists(3)]) (auto intro!: power_mono)
    then show ?thesis
      unfolding best'_def sets(1) [symmetric] using True
      by (simp only: if_True) (rule nearest_scan_covers, auto dest!: lists(5) intro: bound_distance(1))
  next
    case False
    have "sorted_wrt (\<lambda>(b, _) (b', _). b < pvalue n p \<longrightarrow> b' < pvalue n p \<and> (b - pvalue n p)\<^sup>2 \<le> (b' - pvalue n p)\<^sup>2)
        (zip (kd_sorted_by_max_bound n) (kd_sorted_by_max n))"
      by (rule sorted_wrt_mono_rel [OF _ lists(4)]) (auto simp: abs_le_square_iff [symmetric])
    then show ?thesis
      unfolding best'_def sets(2) [symmetric] using False
      by (simp only: if_False) (rule nearest_scan_covers, auto dest!: lists(6) intro: bound_distance(2))
  qed
qed

lemma GetNearestObjectInternal_covers:
  assumes "kd_inv aabox t"
  shows "better p (set (GetAllObjects t)) best (GetNearestObjectInternal DistanceSquareTo p t best)
    \<and> (\<forall>ob \<in> set (GetAllObjects t). covers p (GetNearestObjectInternal DistanceSquareTo p t best) ob)"
  using assms
proof (induction t arbitrary: best)
  case (KD_node n left right)
  let ?all = "set (GetAllObjects (KD_node n left right))"
  have ok: "node_ok aabox n" and within: "\<forall>ob \<in> ?all. box_within (aabox ob) n"
    using KD_node.prems by simp_all
  show ?case
  proof (cases "prunes (LowerDistanceSquareToPoint n p) best")
    case True
    then have "\<forall>ob \<in> ?all. covers p best ob" 
      by (intro ballI) (rule covers_pruned [OF _ lower_distance [OF bspec [OF within]]])
    moreover have "GetNearestObjectInternal DistanceSquareTo p (KD_node n left right) best = best" using True by simp
    ultimately show ?thesis by (simp only: better_refl)
  next
    case False
    let ?first = "pvalue n p < kd_partition_position n"
    define t1 where "t1 = (if ?first then left else right)"
    define t2 where "t2 = (if ?first then right else left)"
    let ?b1 = "GetNearestObjectInternal DistanceSquareTo p t1 best"
    obtain b2 where b2: "b2 = (if ?first
        then nearest_scan (\<lambda>bound. pvalue n p < bound) (pvalue n p) (\<lambda>ob. DistanceSquareTo ob p)
               (zip (kd_sorted_by_min_bound n) (kd_sorted_by_min n)) ?b1
        else nearest_scan (\<lambda>bound. bound < pvalue n p) (pvalue n p) (\<lambda>ob. DistanceSquareTo ob p)
               (zip (kd_sorted_by_max_bound n) (kd_sorted_by_max n)) ?b1)" by blast
    let ?b3 = "GetNearestObjectInternal DistanceSquareTo p t2 b2"
    have result: "GetNearestObjectInternal DistanceSquareTo p (KD_node n left right) best
        = (if is_near ?b1 then ?b1 else if is_near b2 then b2 else ?b3)"
      using False by (cases ?first) (simp_all add: t1_def t2_def b2 Let_def)
    have all: "?all = set (GetAllObjects t1) \<union> set (kd_sorted_by_min n) \<union> set (GetAllObjects t2)"
      by (auto simp: t1_def t2_def)
    have s1: "better p (set (GetAllObjects t1)) best ?b1 \<and> (\<forall>ob \<in> set (GetAllObjects t1). covers p ?b1 ob)"
      using KD_node.IH [of best] KD_node.prems by (simp add: t1_def)
    note s2 = node_scan_covers [OF ok b2]
    have s3: "better p (set (GetAllObjects t2)) b2 ?b3 \<and> (\<forall>ob \<in> set (GetAllObjects t2). covers p ?b3 ob)"
      using KD_node.IH [of b2] KD_node.prems by (simp add: t2_def)
    have b1: "better p ?all best ?b1" by (rule better_mono [OF conjunct1 [OF s1]], unfold all) blast
    have b12: "better p ?all ?b1 b2" by (rule better_mono [OF conjunct1 [OF s2]], unfold all) blast
    have b23: "better p ?all b2 ?b3" by (rule better_mono [OF conjunct1 [OF s3]], unfold all) blast
    have b13: "better p ?all ?b1 ?b3" by (rule better_trans [OF b12 b23])
    consider "is_near ?b1" | "\<not> is_near ?b1" "is_near b2" | "\<not> is_near ?b1" "\<not> is_near b2" by blast
    then show ?thesis
    proof cases
      case 1
      then have "\<forall>ob \<in> ?all. covers p ?b1 ob" by (intro ballI covers_near)
      with 1 b1 show ?thesis unfolding result by (simp only: if_True)
    next
      case 2
      then have "\<forall>ob \<in> ?all. covers p b2 ob" by (intro ballI covers_near)
      with 2 better_trans [OF b1 b12] show ?thesis unfolding result by (simp only: if_True if_False)
    next
      case 3
      have "covers p ?b3 ob" if "ob \<in> ?all" for ob
      proof -
        from that consider "ob \<in> set (GetAllObjects t1)" | "ob \<in> set (kd_sorted_by_min n)" | "ob \<in> set (GetAllObjects t2)"
          unfolding all by blast
        then show ?thesis
          by cases (rule covers_better [OF bspec [OF conjunct2 [OF s1]] b13]
              covers_better [OF bspec [OF conjunct2 [OF s2]] b23] bspec [OF conjunct2 [OF s3]], assumption)+
      qed
      then have "\<forall>ob \<in> ?all. covers p ?b3 ob" by blast
      with 3 better_trans [OF b1 b13] show ?thesis unfolding result by (simp only: if_False)
    qed
  qed
qed simp

lemma GetNearestObject_correct:
  assumes "kd_inv aabox t" and "GetAllObjects t \<noteq> []"
  shows "\<exists>ob \<in> set (GetAllObjects t). GetNearestObject DistanceSquareTo p t = Some ob
    \<and> (\<forall>ob' \<in> set (GetAllObjects t). DistanceSquareTo ob p \<le> DistanceSquareTo ob' p + kMathEpsilon)"
proof -
  let ?best = "GetNearestObjectInternal DistanceSquareTo p t None"
  have res: "better p (set (GetAllObjects t)) None ?best" "\<forall>ob \<in> set (GetAllObjects t). covers p ?best ob"
    using GetNearestObjectInternal_covers [OF assms(1)] by blast+
  from assms(2) obtain ob0 where "ob0 \<in> set (GetAllObjects t)" by (cases "GetAllObjects t") auto
  with res(2) have "?best \<noteq> None" by (auto simp: covers_def)
  with res(1) obtain ob where ob: "ob \<in> set (GetAllObjects t)" "?best = Some (DistanceSquareTo ob p, ob)"
    by (auto simp: better_def)
  with res(2) show ?thesis by (auto simp: GetNearestObject_def covers_def)
qed

end

section \<open>Termination\<close>

text \<open>When the boundary has an extent, neither part has all the objects.\<close>

lemma PartitionObjects_shorter:
  assumes "objects \<noteq> []" and "0 < max (kd_max_x n - kd_min_x n) (kd_max_y n - kd_min_y n)"
    and n: "n = kd_bounds aabox objects depth"
  shows "length (fst (PartitionObjects aabox objects n)) < length objects"
    and "length (fst (snd (PartitionObjects aabox objects n))) < length objects"
proof -
  have attained: "\<exists>ob \<in> set objects. fold min (map f (tl objects)) (f (hd objects)) = f ob"
    "\<exists>ob \<in> set objects. fold max (map f (tl objects)) (f (hd objects)) = f ob" for f :: "'a \<Rightarrow> real"
    using fold_min_in [of "map f (tl objects)" "f (hd objects)"] fold_max_in [of "map f (tl objects)" "f (hd objects)"]
      assms(1) list.set_sel by fastforce+
  obtain x1 x2 y1 y2 where obs: "x1 \<in> set objects" "x2 \<in> set objects" "y1 \<in> set objects" "y2 \<in> set objects"
    and bounds: "kd_min_x n = min_x (aabox x1)" "kd_max_x n = max_x (aabox x2)"
      "kd_min_y n = min_y (aabox y1)" "kd_max_y n = max_y (aabox y2)"
    using attained(1) [of "min_x \<circ> aabox"] attained(2) [of "max_x \<circ> aabox"]
      attained(1) [of "min_y \<circ> aabox"] attained(2) [of "max_y \<circ> aabox"]
    by (auto simp: n ComputePartition_def ComputeBoundary_def Let_def)
  have part: "(kd_partition n = PARTITION_X \<and> kd_partition_position n = (kd_min_x n + kd_max_x n) / 2
        \<and> kd_max_y n - kd_min_y n \<le> kd_max_x n - kd_min_x n)
    \<or> (kd_partition n = PARTITION_Y \<and> kd_partition_position n = (kd_min_y n + kd_max_y n) / 2
        \<and> kd_max_x n - kd_min_x n < kd_max_y n - kd_min_y n)"
    by (simp add: n ComputePartition_def)
  have "\<exists>ob \<in> set objects. kd_partition_position n < upper_bound (kd_partition n) (aabox ob)"
    "\<exists>ob \<in> set objects. lower_bound (kd_partition n) (aabox ob) < kd_partition_position n"
  proof -
    from part show "\<exists>ob \<in> set objects. kd_partition_position n < upper_bound (kd_partition n) (aabox ob)"
    proof
      assume "kd_partition n = PARTITION_X \<and> kd_partition_position n = (kd_min_x n + kd_max_x n) / 2
        \<and> kd_max_y n - kd_min_y n \<le> kd_max_x n - kd_min_x n"
      then show ?thesis using assms(2) obs(2) unfolding bounds by (intro bexI [of _ x2]) (auto simp: less_max_iff_disj)
    next
      assume "kd_partition n = PARTITION_Y \<and> kd_partition_position n = (kd_min_y n + kd_max_y n) / 2
        \<and> kd_max_x n - kd_min_x n < kd_max_y n - kd_min_y n"
      then show ?thesis using assms(2) obs(4) unfolding bounds by (intro bexI [of _ y2]) (auto simp: less_max_iff_disj)
    qed
    from part show "\<exists>ob \<in> set objects. lower_bound (kd_partition n) (aabox ob) < kd_partition_position n"
    proof
      assume "kd_partition n = PARTITION_X \<and> kd_partition_position n = (kd_min_x n + kd_max_x n) / 2
        \<and> kd_max_y n - kd_min_y n \<le> kd_max_x n - kd_min_x n"
      then show ?thesis using assms(2) obs(1) unfolding bounds by (intro bexI [of _ x1]) (auto simp: less_max_iff_disj)
    next
      assume "kd_partition n = PARTITION_Y \<and> kd_partition_position n = (kd_min_y n + kd_max_y n) / 2
        \<and> kd_max_x n - kd_min_x n < kd_max_y n - kd_min_y n"
      then show ?thesis using assms(2) obs(3) unfolding bounds by (intro bexI [of _ y1]) (auto simp: less_max_iff_disj)
    qed
  qed
  then obtain a b where "a \<in> set objects" "kd_partition_position n < upper_bound (kd_partition n) (aabox a)"
    "b \<in> set objects" "lower_bound (kd_partition n) (aabox b) < kd_partition_position n" by blast
  then show "length (fst (PartitionObjects aabox objects n)) < length objects"
    "length (fst (snd (PartitionObjects aabox objects n))) < length objects"
    using length_filter_less [of a objects] length_filter_less [of b objects]
    by (simp_all add: PartitionObjects_def Let_def)
qed

lemma kd_build_step:
  assumes "objects \<noteq> []" and n: "n = kd_bounds aabox objects depth"
    and "SplitToSubNodes objects params n \<Longrightarrow> \<exists>t. kd_build aabox params (fst (PartitionObjects aabox objects n)) (depth + 1) = Some t"
    and "SplitToSubNodes objects params n \<Longrightarrow> \<exists>t. kd_build aabox params (fst (snd (PartitionObjects aabox objects n))) (depth + 1) = Some t"
  shows "\<exists>t. kd_build aabox params objects depth = Some t"
  using assms by (subst kd_build.simps) (auto simp: Let_def)

lemma kd_build_ends_dimension:
  assumes "0 \<le> kp_max_leaf_dimension params"
  shows "\<exists>t. kd_build aabox params objects depth = Some t"
proof (induction "length objects" arbitrary: objects depth rule: less_induct)
  case less
  show ?case
  proof (cases "objects = []")
    case True
    then show ?thesis by (simp add: kd_build.simps)
  next
    case False
    have "0 < max (kd_max_x n - kd_min_x n) (kd_max_y n - kd_min_y n)" if "SplitToSubNodes objects params n" for n :: "'a kd_data"
      using that assms by (auto simp: SplitToSubNodes_def split: if_splits)
    note shorter = PartitionObjects_shorter [OF False this refl]
    show ?thesis
      by (rule kd_build_step [OF False refl]; rule less) (erule shorter)+
  qed
qed

lemma kd_build_ends_depth:
  assumes "0 \<le> kp_max_depth params"
  shows "\<exists>t. kd_build aabox params objects depth = Some t"
proof (induction "nat (kp_max_depth params - depth)" arbitrary: objects depth rule: less_induct)
  case less
  show ?case
  proof (cases "objects = []")
    case True
    then show ?thesis by (simp add: kd_build.simps)
  next
    case False
    have "nat (kp_max_depth params - (depth + 1)) < nat (kp_max_depth params - depth)"
      if "SplitToSubNodes objects params (kd_bounds aabox objects depth)"
    proof -
      have "kd_depth (kd_bounds aabox objects depth) = depth"
        by (simp add: ComputePartition_def ComputeBoundary_def kd_data_new_def Let_def)
      with that assms show ?thesis by (auto simp: SplitToSubNodes_def split: if_splits)
    qed
    then show ?thesis by (intro kd_build_step [OF False refl]; intro less)
  qed
qed

lemma kd_build_diverges:
  assumes "kd_build aabox kd_params_new [a, b] depth = Some t"
    and "min_x (aabox a) = x" "max_x (aabox a) = x" "min_y (aabox a) = y" "max_y (aabox a) = y"
    and "min_x (aabox b) = x" "max_x (aabox b) = x" "min_y (aabox b) = y" "max_y (aabox b) = y"
  shows False
proof -
  have "kd_build aabox' params objects depth = Some t \<Longrightarrow> aabox' = aabox \<and> params = kd_params_new \<and> objects = [a, b] \<longrightarrow> False"
    for aabox' params objects depth and t :: "'a kd_node"
  proof (induction rule: kd_build.raw_induct [rotated, consumes 1, case_names build])
    case (build build aabox' params objects depth t)
    have "PartitionObjects aabox [a, b] (kd_bounds aabox [a, b] depth) = ([a, b], [], [])"
      "SplitToSubNodes [a, b] kd_params_new (kd_bounds aabox [a, b] depth)"
      using assms(2-9) by (simp_all add: PartitionObjects_def SplitToSubNodes_def ComputePartition_def ComputeBoundary_def Let_def)
    note parts = this
    show ?case
    proof
      assume eq: "aabox' = aabox \<and> params = kd_params_new \<and> objects = [a, b]"
      with build(2) parts obtain left where "build aabox kd_params_new [a, b] (depth + 1) = Some left"
        by (auto simp: Let_def split: Option.bind_splits)
      from build(1) [OF this] show False by simp
    qed
  qed
  with assms(1) show False by blast
qed

text \<open>
  C35: With the default parameters the construction of the tree does not end for two objects whose boxes are
  the same point: the boundary has no extent, both objects go to the left part, and the recursion never stops.
\<close>

theorem kd_tree_default_diverges:
  assumes "\<forall>ob \<in> {a, b}. min_x (aabox ob) = x \<and> max_x (aabox ob) = x \<and> min_y (aabox ob) = y \<and> max_y (aabox ob) = y"
  shows "AABoxKDTree2d_new aabox [a, b] kd_params_new = None"
  unfolding AABoxKDTree2d_new_def using kd_build_diverges [of aabox a b 0 _ x y] assms
  by (cases "kd_build aabox kd_params_new [a, b] 0") auto

theorem kd_tree_default_diverges_witness:
  "AABoxKDTree2d_new (\<lambda>ob :: bool. \<lparr>ab_center = Vec2d 1 2, ab_length = 0, ab_width = 0, ab_half_length = 0, ab_half_width = 0\<rparr>)
     [True, False] kd_params_new = None"
  by (rule kd_tree_default_diverges [where x = 1 and y = 2]) simp

end
