(* ===== verification/Frenet.thy ===== *)
theory Frenet
  imports Complex_Main Prelude
begin

text \<open>
  Angles (\<open>modules/common/math/math_utils.cc\<close>) and the conversion of the state of a vehicle between
  Cartesian coordinates and coordinates along a reference line, the Frenet frame
  (\<open>modules/common/math/cartesian_frenet_conversion.cc\<close>).  A \<open>double\<close> is a real number: rounding, infinities and
  not-a-number are not modelled.

  The theory shows that angles are normalized to the half-open interval from minus \<open>\<pi>\<close> to \<open>\<pi>\<close>, that a state
  that is converted to Cartesian coordinates and back is unchanged, and that the two formulas of the code for the
  curvature agree.
\<close>

section \<open>Angles\<close>

text \<open>The remainder of the C library has the sign of the dividend.\<close>

definition fmod :: "real \<Rightarrow> real \<Rightarrow> real" where
  "fmod x y = (let q = x / y in x - y * of_int (if 0 \<le> q then \<lfloor>q\<rfloor> else \<lceil>q\<rceil>))"

definition atan2 :: "real \<Rightarrow> real \<Rightarrow> real" where
  "atan2 y x =
     (if 0 < x then arctan (y / x)
      else if x < 0 then (if 0 \<le> y then arctan (y / x) + pi else arctan (y / x) - pi)
      else if 0 < y then pi / 2 else if y < 0 then - (pi / 2) else 0)"

definition copysign :: "real \<Rightarrow> real \<Rightarrow> real" where
  "copysign x y = (if 0 \<le> y then \<bar>x\<bar> else - \<bar>x\<bar>)"

definition WrapAngle :: "real \<Rightarrow> real" where
  "WrapAngle angle =
     (let new_angle = fmod angle (pi * 2) in if new_angle < 0 then new_angle + pi * 2 else new_angle)"

definition NormalizeAngle :: "real \<Rightarrow> real" where
  "NormalizeAngle angle =
     (let a = fmod (angle + pi) (2 * pi);
          a = (if a < 0 then a + 2 * pi else a)
      in a - pi)"

definition AngleDiff :: "real \<Rightarrow> real \<Rightarrow> real" where
  "AngleDiff from_angle to_angle = NormalizeAngle (to_angle - from_angle)"

lemma fmod_range:
  assumes "0 < y"
  shows "\<bar>fmod x y\<bar> < y" and "\<exists>k. fmod x y = x + y * of_int k"
proof -
  have scale: "x - y * of_int k = y * (x / y - of_int k)" for k using assms by (simp add: algebra_simps)
  have "\<bar>x / y - of_int (if 0 \<le> x / y then \<lfloor>x / y\<rfloor> else \<lceil>x / y\<rceil>)\<bar> < 1" by (auto simp: abs_if) linarith+
  then show "\<bar>fmod x y\<bar> < y"
    unfolding fmod_def Let_def scale abs_mult using assms by (simp add: mult_less_cancel_left2)
  show "\<exists>k. fmod x y = x + y * of_int k"
    unfolding fmod_def Let_def by (intro exI [of _ "- (if 0 \<le> x / y then \<lfloor>x / y\<rfloor> else \<lceil>x / y\<rceil>)"]) simp
qed

lemma fmod_positive:
  assumes "0 < y" and a_def: "a = (if fmod x y < 0 then fmod x y + y else fmod x y)"
  shows "0 \<le> a" "a < y" "\<exists>k. a = x + y * of_int k"
proof -
  obtain k where k: "fmod x y = x + y * of_int k" using fmod_range(2) [OF assms(1)] by blast
  have "fmod x y + y = x + y * of_int (k + 1)" by (simp add: k algebra_simps)
  then show "\<exists>k. a = x + y * of_int k" using k unfolding a_def by (auto intro: exI [of _ k] exI [of _ "k + 1"])
  show "0 \<le> a" "a < y" using fmod_range(1) [OF assms(1), of x] unfolding a_def by (auto simp: abs_less_iff)
qed

lemma NormalizeAngle_turns: "\<exists>k. NormalizeAngle angle = angle + 2 * pi * of_int k"
proof -
  have "0 < 2 * pi" by simp
  from fmod_positive(3) [OF this refl, of "angle + pi"] obtain k where
    "(if fmod (angle + pi) (2 * pi) < 0 then fmod (angle + pi) (2 * pi) + 2 * pi else fmod (angle + pi) (2 * pi))
      = angle + pi + 2 * pi * of_int k" ..
  then have "NormalizeAngle angle = angle + 2 * pi * of_int k" unfolding NormalizeAngle_def Let_def by linarith
  then show ?thesis ..
qed

text \<open>
  Normalizing an angle gives the angle in the half-open interval from minus \<open>\<pi>\<close> to \<open>\<pi>\<close> that differs from it by a
  multiple of a full turn, and wrapping gives the one in the half-open interval from 0 to \<open>2\<pi>\<close>.
\<close>

theorem NormalizeAngle_correct:
  "- pi \<le> NormalizeAngle angle \<and> NormalizeAngle angle < pi \<and> (\<exists>k. NormalizeAngle angle = angle + 2 * pi * of_int k)
   \<and> 0 \<le> WrapAngle angle \<and> WrapAngle angle < 2 * pi \<and> (\<exists>k. WrapAngle angle = angle + 2 * pi * of_int k)"
proof -
  have two_pi: "0 < 2 * pi" by simp
  note n = fmod_positive [OF two_pi refl, of "angle + pi"] and w = fmod_positive [OF two_pi refl, of angle]
  have "\<exists>k. NormalizeAngle angle = angle + 2 * pi * of_int k"
    by (rule NormalizeAngle_turns)
  moreover have "- pi \<le> NormalizeAngle angle" "NormalizeAngle angle < pi"
    using n(1,2) unfolding NormalizeAngle_def Let_def by auto
  moreover have wrap: "WrapAngle angle = (if fmod angle (2 * pi) < 0 then fmod angle (2 * pi) + 2 * pi else fmod angle (2 * pi))"
    by (simp add: WrapAngle_def Let_def mult.commute [of pi])
  ultimately show ?thesis using w unfolding wrap by blast
qed

section \<open>The Frenet frame\<close>

text \<open>
  A point of the reference line: arc length, position, heading, curvature and its derivative.  The state in the frame:
  longitudinal position with its derivatives by time, and lateral position with its derivatives by the arc length.
\<close>

record reference_point =
  rp_s :: real
  rp_x :: real
  rp_y :: real
  rp_theta :: real
  rp_kappa :: real
  rp_dkappa :: real

type_synonym condition = "real \<times> real \<times> real"

record cartesian_state =
  cs_x :: real
  cs_y :: real
  cs_theta :: real
  cs_kappa :: real
  cs_v :: real
  cs_a :: real

definition cartesian_to_frenet :: "reference_point \<Rightarrow> cartesian_state \<Rightarrow> condition \<times> condition" where
  "cartesian_to_frenet r c =
     (let dx = cs_x c - rp_x r;
          dy = cs_y c - rp_y r;
          cos_theta_r = cos (rp_theta r);
          sin_theta_r = sin (rp_theta r);
          cross_rd_nd = cos_theta_r * dy - sin_theta_r * dx;
          d0 = copysign (sqrt (dx * dx + dy * dy)) cross_rd_nd;
          delta_theta = cs_theta c - rp_theta r;
          tan_delta_theta = tan delta_theta;
          cos_delta_theta = cos delta_theta;
          one_minus_kappa_r_d = 1 - rp_kappa r * d0;
          d1 = one_minus_kappa_r_d * tan_delta_theta;
          kappa_r_d_prime = rp_dkappa r * d0 + rp_kappa r * d1;
          d2 = - kappa_r_d_prime * tan_delta_theta
            + one_minus_kappa_r_d / cos_delta_theta / cos_delta_theta
              * (cs_kappa c * one_minus_kappa_r_d / cos_delta_theta - rp_kappa r);
          s0 = rp_s r;
          s1 = cs_v c * cos_delta_theta / one_minus_kappa_r_d;
          delta_theta_prime = one_minus_kappa_r_d / cos_delta_theta * cs_kappa c - rp_kappa r;
          s2 = (cs_a c * cos_delta_theta - s1 * s1 * (d1 * delta_theta_prime - kappa_r_d_prime)) / one_minus_kappa_r_d
      in ((s0, s1, s2), (d0, d1, d2)))"

definition frenet_to_cartesian :: "reference_point \<Rightarrow> condition \<times> condition \<Rightarrow> cartesian_state outcome" where
  "frenet_to_cartesian r sd =
     (case sd of ((s0, s1, s2), (d0, d1, d2)) \<Rightarrow>
        if \<not> \<bar>rp_s r - s0\<bar> < 1 / 10 ^ 6 then Inl Exit
        else
          let cos_theta_r = cos (rp_theta r);
              sin_theta_r = sin (rp_theta r);
              x = rp_x r - sin_theta_r * d0;
              y = rp_y r + cos_theta_r * d0;
              one_minus_kappa_r_d = 1 - rp_kappa r * d0;
              tan_delta_theta = d1 / one_minus_kappa_r_d;
              delta_theta = atan2 d1 one_minus_kappa_r_d;
              cos_delta_theta = cos delta_theta;
              theta = NormalizeAngle (delta_theta + rp_theta r);
              kappa_r_d_prime = rp_dkappa r * d0 + rp_kappa r * d1;
              kappa = ((d2 + kappa_r_d_prime * tan_delta_theta) * cos_delta_theta * cos_delta_theta / one_minus_kappa_r_d
                + rp_kappa r) * cos_delta_theta / one_minus_kappa_r_d;
              d_dot = d1 * s1;
              v = sqrt (one_minus_kappa_r_d * one_minus_kappa_r_d * s1 * s1 + d_dot * d_dot);
              delta_theta_prime = one_minus_kappa_r_d / cos_delta_theta * kappa - rp_kappa r;
              a = s2 * one_minus_kappa_r_d / cos_delta_theta
                + s1 * s1 / cos_delta_theta * (d1 * delta_theta_prime - kappa_r_d_prime)
          in Inr \<lparr>cs_x = x, cs_y = y, cs_theta = theta, cs_kappa = kappa, cs_v = v, cs_a = a\<rparr>)"

definition CalculateTheta :: "real \<Rightarrow> real \<Rightarrow> real \<Rightarrow> real \<Rightarrow> real" where
  "CalculateTheta rtheta rkappa l dl = NormalizeAngle (rtheta + atan2 dl (1 - l * rkappa))"

definition CalculateKappa :: "real \<Rightarrow> real \<Rightarrow> real \<Rightarrow> real \<Rightarrow> real \<Rightarrow> real" where
  "CalculateKappa rkappa rdkappa l dl ddl =
     (let denominator = dl * dl + (1 - l * rkappa) * (1 - l * rkappa)
      in if \<bar>denominator\<bar> < 1 / 10 ^ 8 then 0
         else
           (rkappa + ddl - 2 * l * rkappa * rkappa - l * ddl * rkappa + l * l * rkappa * rkappa * rkappa
             + l * dl * rdkappa + 2 * dl * dl * rkappa) / (denominator powr (3 / 2)))"

definition CalculateCartesianPoint :: "real \<Rightarrow> real \<times> real \<Rightarrow> real \<Rightarrow> real \<times> real" where
  "CalculateCartesianPoint rtheta rpoint l = (fst rpoint - l * sin rtheta, snd rpoint + l * cos rtheta)"

definition CalculateLateralDerivative :: "real \<Rightarrow> real \<Rightarrow> real \<Rightarrow> real \<Rightarrow> real" where
  "CalculateLateralDerivative rtheta theta l rkappa = (1 - rkappa * l) * tan (theta - rtheta)"

definition CalculateSecondOrderLateralDerivative :: "real \<Rightarrow> real \<Rightarrow> real \<Rightarrow> real \<Rightarrow> real \<Rightarrow> real \<Rightarrow> real" where
  "CalculateSecondOrderLateralDerivative rtheta theta rkappa kappa rdkappa l =
     (let dl = CalculateLateralDerivative rtheta theta l rkappa;
          theta_diff = theta - rtheta;
          cos_theta_diff = cos theta_diff
      in - (rdkappa * l + rkappa * dl) * tan (theta - rtheta)
         + (1 - rkappa * l) / (cos_theta_diff * cos_theta_diff) * (kappa * (1 - rkappa * l) / cos_theta_diff - rkappa))"

section \<open>The round trip\<close>

lemma turns_periodic:
  "cos (x + 2 * pi * of_int k) = cos x" "tan (x + 2 * pi * of_int k) = tan x"
  using cos_int_2pin [of k] sin_int_2pin [of k] by (simp_all add: cos_add sin_add tan_def)

lemma NormalizeAngle_diff:
  "cos (NormalizeAngle (x + y) - y) = cos x" "tan (NormalizeAngle (x + y) - y) = tan x"
proof -
  obtain k where "NormalizeAngle (x + y) = x + y + 2 * pi * of_int k" using NormalizeAngle_turns by blast
  then have "NormalizeAngle (x + y) - y = x + 2 * pi * of_int k" by simp
  then show "cos (NormalizeAngle (x + y) - y) = cos x" "tan (NormalizeAngle (x + y) - y) = tan x"
    by (simp_all only: turns_periodic)
qed

lemma atan2_right:
  assumes "0 < x"
  shows "tan (atan2 y x) = y / x" and "cos (atan2 y x) = x / sqrt (x * x + y * y)" and "0 < cos (atan2 y x)"
proof -
  show "tan (atan2 y x) = y / x" using assms by (simp add: atan2_def tan_arctan)
  have "1 + (y / x)\<^sup>2 = (x * x + y * y) / (x * x)" using assms by (simp add: field_simps power2_eq_square)
  then have "sqrt (1 + (y / x)\<^sup>2) = sqrt (x * x + y * y) / x" using assms by (simp add: real_sqrt_divide)
  then show c: "cos (atan2 y x) = x / sqrt (x * x + y * y)" using assms by (simp add: atan2_def cos_arctan)
  show "0 < cos (atan2 y x)" unfolding c using assms by (simp add: add_pos_nonneg)
qed

lemma offset_distance:
  "copysign (sqrt (sin t * d * (sin t * d) + cos t * d * (cos t * d))) (cos t * (cos t * d) + sin t * (sin t * d)) = d"
proof -
  have one: "cos t * cos t + sin t * sin t = 1" using sin_cos_squared_add3 [of t] by (simp add: add.commute)
  have "sin t * d * (sin t * d) + cos t * d * (cos t * d) = (cos t * cos t + sin t * sin t) * (d * d)"
    "cos t * (cos t * d) + sin t * (sin t * d) = (cos t * cos t + sin t * sin t) * d"
    by (simp_all only: distrib_right) simp_all
  then show ?thesis unfolding one by (simp add: copysign_def)
qed

lemma lateral_back:
  fixes K c :: real
  assumes "0 < K" "0 < c"
  shows "- P * T + K / c / c * (((d2 + P * T) * c * c / K + k) * c / K * K / c - k) = d2"
  using assms by (simp add: field_simps)

lemma longitudinal_back:
  fixes K c :: real
  assumes "0 < K" "0 < c"
  shows "((s2 * K / c + s1 * s1 / c * E) * c - s1 * s1 * E) / K = s2"
  using assms by (simp add: field_simps)

lemma speed_back:
  assumes "0 < K" "0 \<le> s1"
  shows "sqrt (K * K * s1 * s1 + d1 * s1 * (d1 * s1)) * cos (atan2 d1 K) / K = s1"
proof -
  have "K * K * s1 * s1 + d1 * s1 * (d1 * s1) = s1\<^sup>2 * (K * K + d1 * d1)" by (simp add: algebra_simps power2_eq_square)
  then have "sqrt (K * K * s1 * s1 + d1 * s1 * (d1 * s1)) = s1 * sqrt (K * K + d1 * d1)"
    using assms(2) by (simp add: real_sqrt_mult)
  moreover have "0 < sqrt (K * K + d1 * d1)" using assms(1) by (simp add: add_pos_nonneg)
  ultimately show ?thesis using assms(1) by (simp add: atan2_right(2) [OF assms(1)])
qed

text \<open>
  C18: A state along the reference line that is converted to Cartesian coordinates and back is unchanged, if
  the vehicle does not go backwards and is nearer to the reference line than the centre of its curvature.
\<close>

theorem frenet_roundtrip:
  assumes "0 < 1 - rp_kappa r * d0" and "0 \<le> s1"
  shows "\<exists>c. frenet_to_cartesian r ((rp_s r, s1, s2), (d0, d1, d2)) = Inr c
    \<and> cartesian_to_frenet r c = ((rp_s r, s1, s2), (d0, d1, d2))"
proof -
  let ?K = "1 - rp_kappa r * d0"
  let ?delta = "atan2 d1 ?K"
  note t = atan2_right [OF assms(1), of d1]
  have d1: "?K * tan ?delta = d1" using assms(1) t(1) by simp
  obtain c where c: "frenet_to_cartesian r ((rp_s r, s1, s2), (d0, d1, d2)) = Inr c" by (simp add: frenet_to_cartesian_def Let_def)
  let ?P = "rp_dkappa r * d0 + rp_kappa r * d1"
  have fields: "cs_x c - rp_x r = - (sin (rp_theta r) * d0)" "cs_y c - rp_y r = cos (rp_theta r) * d0"
    "cs_theta c = NormalizeAngle (?delta + rp_theta r)"
    "cs_kappa c = ((d2 + ?P * tan ?delta) * cos ?delta * cos ?delta / ?K + rp_kappa r) * cos ?delta / ?K"
    "cs_v c = sqrt (?K * ?K * s1 * s1 + d1 * s1 * (d1 * s1))"
    "cs_a c = s2 * ?K / cos ?delta + s1 * s1 / cos ?delta * (d1 * (?K / cos ?delta * cs_kappa c - rp_kappa r) - ?P)"
    using c by (auto simp: frenet_to_cartesian_def Let_def t(1))
  have d0: "copysign (sqrt (- (sin (rp_theta r) * d0) * - (sin (rp_theta r) * d0) + cos (rp_theta r) * d0 * (cos (rp_theta r) * d0)))
      (cos (rp_theta r) * (cos (rp_theta r) * d0) - sin (rp_theta r) * - (sin (rp_theta r) * d0)) = d0"
    using offset_distance [of "rp_theta r" d0] by simp
  have "cartesian_to_frenet r c = ((rp_s r, s1, s2), (d0, d1, d2))"
    unfolding cartesian_to_frenet_def Let_def fields(1,2,3) NormalizeAngle_diff d0 d1 fields(5) speed_back [OF assms] fields(6)
      longitudinal_back [OF assms(1) t(3)] fields(4) lateral_back [OF assms(1) t(3)] by (rule refl)
  with c show ?thesis by blast
qed

theorem frenet_roundtrip_witness:
  "\<exists>c. frenet_to_cartesian \<lparr>rp_s = 3, rp_x = 1, rp_y = 2, rp_theta = 1, rp_kappa = 1 / 10, rp_dkappa = 1\<rparr> ((3, 4, 1), (2, 1 / 2, 1)) = Inr c
    \<and> cartesian_to_frenet \<lparr>rp_s = 3, rp_x = 1, rp_y = 2, rp_theta = 1, rp_kappa = 1 / 10, rp_dkappa = 1\<rparr> c = ((3, 4, 1), (2, 1 / 2, 1))"
  using frenet_roundtrip [of "\<lparr>rp_s = 3, rp_x = 1, rp_y = 2, rp_theta = 1, rp_kappa = 1 / 10, rp_dkappa = 1\<rparr>" 2 4 1 "1 / 2" 1] by simp

lemma curvature_common_denominator:
  fixes K R :: real
  assumes "0 < K" "0 < R"
  shows "((d2 + P * (d1 / K)) * (K / R) * (K / R) / K + k) * (K / R) / K = (d2 * K + P * d1 + k * (R * R)) / (R * R * R)"
proof -
  have "(d2 + P * (d1 / K)) * (K / R) * (K / R) / K = (d2 * K + P * d1) / (R * R)"
    using assms by (simp add: field_simps)
  then show ?thesis using assms by (simp add: field_simps)
qed

text \<open>
  C40: The closed formula for the curvature agrees with the one of the conversion to Cartesian coordinates, and
  so do the formulas for the heading, for the position and for the lateral derivatives, unless the vehicle is so near to the
  centre of the curvature that the closed formula gives up.
\<close>

theorem frenet_formulas_agree:
  assumes "0 < 1 - rp_kappa r * d0" and "1 / 10 ^ 8 \<le> d1 * d1 + (1 - rp_kappa r * d0)\<^sup>2"
    and "frenet_to_cartesian r ((rp_s r, s1, s2), (d0, d1, d2)) = Inr c"
  shows "cs_kappa c = CalculateKappa (rp_kappa r) (rp_dkappa r) d0 d1 d2
    \<and> cs_theta c = CalculateTheta (rp_theta r) (rp_kappa r) d0 d1
    \<and> (cs_x c, cs_y c) = CalculateCartesianPoint (rp_theta r) (rp_x r, rp_y r) d0
    \<and> CalculateLateralDerivative (rp_theta r) (cs_theta c) d0 (rp_kappa r) = d1
    \<and> CalculateSecondOrderLateralDerivative (rp_theta r) (cs_theta c) (rp_kappa r) (cs_kappa c) (rp_dkappa r) d0 = d2"
proof -
  let ?K = "1 - rp_kappa r * d0"
  let ?delta = "atan2 d1 ?K"
  let ?P = "rp_dkappa r * d0 + rp_kappa r * d1"
  let ?R = "sqrt (?K * ?K + d1 * d1)"
  note t = atan2_right [OF assms(1), of d1]
  have fields: "cs_x c = rp_x r - sin (rp_theta r) * d0" "cs_y c = rp_y r + cos (rp_theta r) * d0"
    "cs_theta c = NormalizeAngle (?delta + rp_theta r)"
    "cs_kappa c = ((d2 + ?P * (d1 / ?K)) * cos ?delta * cos ?delta / ?K + rp_kappa r) * cos ?delta / ?K"
    using assms(3) by (auto simp: frenet_to_cartesian_def Let_def)
  have R: "0 < ?R" "?R * ?R = ?K * ?K + d1 * d1" using assms(1) by (simp_all add: add_pos_nonneg)
  have "cs_kappa c = (d2 * ?K + ?P * d1 + rp_kappa r * (?R * ?R)) / (?R * ?R * ?R)"
    unfolding fields(4) t(2) by (rule curvature_common_denominator [OF assms(1) R(1)])
  also have "d2 * ?K + ?P * d1 + rp_kappa r * (?R * ?R)
      = rp_kappa r + d2 - 2 * d0 * rp_kappa r * rp_kappa r - d0 * d2 * rp_kappa r + d0 * d0 * rp_kappa r * rp_kappa r * rp_kappa r
        + d0 * d1 * rp_dkappa r + 2 * d1 * d1 * rp_kappa r"
    unfolding R(2) by (simp add: algebra_simps)
  also have "?R * ?R * ?R = (d1 * d1 + (1 - d0 * rp_kappa r) * (1 - d0 * rp_kappa r)) powr (3 / 2)"
  proof -
    have sum: "0 < ?K * ?K + d1 * d1" using assms(1) by (simp add: add_pos_nonneg)
    have "(?K * ?K + d1 * d1) powr (3 / 2) = (?K * ?K + d1 * d1) powr 1 * (?K * ?K + d1 * d1) powr (1 / 2)"
      unfolding powr_add [symmetric] by simp
    also have "\<dots> = ?R * ?R * ?R" using sum R(2) by (simp add: powr_half_sqrt)
    finally show ?thesis unfolding mult.commute [of d0 "rp_kappa r"] add.commute [of "d1 * d1"] by (rule sym)
  qed
  finally have kappa: "cs_kappa c = CalculateKappa (rp_kappa r) (rp_dkappa r) d0 d1 d2"
    using assms(2) unfolding CalculateKappa_def Let_def mult.commute [of d0 "rp_kappa r"] power2_eq_square by simp
  have theta: "cs_theta c = CalculateTheta (rp_theta r) (rp_kappa r) d0 d1"
    unfolding fields(3) CalculateTheta_def mult.commute [of d0 "rp_kappa r"] add.commute [of "rp_theta r"] by (rule refl)
  have lateral: "CalculateLateralDerivative (rp_theta r) (cs_theta c) d0 (rp_kappa r) = d1"
    unfolding CalculateLateralDerivative_def fields(3) NormalizeAngle_diff t(1) using assms(1) by simp
  have "CalculateSecondOrderLateralDerivative (rp_theta r) (cs_theta c) (rp_kappa r) (cs_kappa c) (rp_dkappa r) d0 = d2"
    unfolding CalculateSecondOrderLateralDerivative_def Let_def lateral
    unfolding fields(3) NormalizeAngle_diff fields(4) t(1)
    using lateral_back [OF assms(1) t(3), of ?P "d1 / ?K" d2 "rp_kappa r"] by simp
  with kappa theta lateral show ?thesis by (simp add: fields(1,2) CalculateCartesianPoint_def mult.commute)
qed

theorem frenet_formulas_agree_witness:
  "\<exists>c. frenet_to_cartesian \<lparr>rp_s = 3, rp_x = 1, rp_y = 2, rp_theta = 1, rp_kappa = 1 / 10, rp_dkappa = 1\<rparr> ((3, 4, 1), (2, 1 / 2, 1)) = Inr c
    \<and> cs_kappa c = CalculateKappa (1 / 10) 1 2 (1 / 2) 1 \<and> cs_theta c = CalculateTheta 1 (1 / 10) 2 (1 / 2)"
proof -
  let ?r = "\<lparr>rp_s = 3, rp_x = 1, rp_y = 2, rp_theta = 1, rp_kappa = 1 / 10, rp_dkappa = 1\<rparr>"
  obtain c where "frenet_to_cartesian ?r ((3, 4, 1), (2, 1 / 2, 1)) = Inr c" by (simp add: frenet_to_cartesian_def Let_def)
  with frenet_formulas_agree [of ?r 2 "1 / 2" 4 1 1 c] show ?thesis by (simp add: power2_eq_square)
qed

end
