(* ===== verification/LaneSearch.thy ===== *)
theory LaneSearch
  imports KdTree Frenet "HOL-Library.AList"
begin

text \<open>
  Lanes of the map and the search for lanes near a point (\<open>modules/map/hdmap/hdmap_common.cc\<close>, class \<open>LaneInfo\<close>,
  and \<open>hdmap_impl.cc\<close>, class \<open>HDMapImpl\<close>).  A lane is the polyline of its central curve, with its widths given by samples.  The
  overlaps of lanes, the roads they belong to, and the other objects of the map are left out, as are the messages that
  \<open>LaneInfo::Init\<close> logs.  Where the code goes through a hash table, in no fixed order, the model takes the entries in the
  order in which they were added; no statement depends on it.

  The box and the line segment of an entry of the search tree are functions of its end points; the
  pointer to its lane is the id of the lane.  A computation that does not return is \<^term>\<open>None\<close>, and a failed
  \<open>CHECK\<close> a \<open>failure\<close>.  Rounding is not modelled.

  The theory shows that the search trees of all maps can be built, that the nearest lane has a point
  that is as near as any point of any lane up to the tolerance of the tree, at the reported arc length, and that the
  lanes within a distance are exactly those that have a point within it.
\<close>

section \<open>Entries of the search tree\<close>

record segment_object =
  so_object :: string
  so_start :: vec2d
  so_end :: vec2d
  so_id :: nat

abbreviation so_segment :: "segment_object \<Rightarrow> line_segment2d" where
  "so_segment ob \<equiv> LineSegment2d_new (so_start ob) (so_end ob)"

definition so_aabox :: "segment_object \<Rightarrow> aabox2d" where
  "so_aabox ob = projr (AABox2d_of_corners (so_start ob) (so_end ob))"

definition so_DistanceSquareTo :: "segment_object \<Rightarrow> vec2d \<Rightarrow> real" where
  "so_DistanceSquareTo ob p = LineSegment2d_DistanceSquareTo (so_segment ob) p"

interpretation segments: boxed_objects so_aabox so_DistanceSquareTo
proof
  fix ob p
  let ?q = "point_at (so_start ob) (so_end ob) (nearest_ratio (so_segment ob) p)"
  obtain b where "AABox2d_of_corners (so_start ob) (so_end ob) = Inr b"
    by (rule AABox2d_of_corners [of "so_start ob" "so_end ob"])
  moreover from point_at_in_box [OF this nearest_ratio_bounds [of "so_segment ob" p]] have "in_box b ?q" .
  ultimately show "\<exists>q. in_box (so_aabox ob) q \<and> so_DistanceSquareTo ob p = Vec2d_DistanceSquareTo p q"
    by (intro exI [of _ ?q]) (simp add: so_aabox_def so_DistanceSquareTo_def segment_distance_attained)
qed

section \<open>Lanes\<close>

definition RemoveDuplicates :: "vec2d list \<Rightarrow> vec2d list" where
  "RemoveDuplicates points =
     rev (fold (\<lambda>p kept. case kept of
                   [] \<Rightarrow> [p]
                 | q # _ \<Rightarrow> if 1 / 10 ^ 14 < Vec2d_DistanceSquareTo p q then p # kept else kept) points [])"

text \<open>A curve is a list of segments; a segment that is not a line segment is \<^term>\<open>None\<close>.\<close>

definition PointsFromCurve :: "vec2d list option list \<Rightarrow> vec2d list" where
  "PointsFromCurve curve = RemoveDuplicates (concat (map (case_option [] id) curve))"

text \<open>What a map says of a lane, and what is computed from it; a sample is a distance along the lane and a width.\<close>

record lane_message =
  lm_central_curve :: "vec2d list option list"
  lm_left_sample :: "(real \<times> real) list"
  lm_right_sample :: "(real \<times> real) list"
  lm_left_road_sample :: "(real \<times> real) list"
  lm_right_road_sample :: "(real \<times> real) list"

abbreviation lane_points :: "lane_message \<Rightarrow> vec2d list" where
  "lane_points msg \<equiv> PointsFromCurve (lm_central_curve msg)"

record lane_info =
  li_id :: string
  li_points :: "vec2d list"
  li_segments :: "line_segment2d list"
  li_accumulated_s :: "real list"
  li_unit_directions :: "vec2d list"
  li_headings :: "real list"
  li_total_length :: real
  li_sampled_left_width :: "(real \<times> real) list"
  li_sampled_right_width :: "(real \<times> real) list"
  li_sampled_left_road_width :: "(real \<times> real) list"
  li_sampled_right_road_width :: "(real \<times> real) list"
  li_kdtree :: "segment_object kd_node"

fun lane_loop :: "vec2d list \<Rightarrow> real \<Rightarrow> line_segment2d list \<times> real list" where
  "lane_loop (p # q # points) s =
     (let segment = LineSegment2d_new p q;
          (segments, accumulated_s) = lane_loop (q # points) (s + ls_length segment)
      in (segment # segments, s # accumulated_s))"
| "lane_loop points s = ([], [s])"

definition segment_boxes :: "string \<Rightarrow> line_segment2d list \<Rightarrow> segment_object list" where
  "segment_boxes lane segments =
     map (\<lambda>(i, s). \<lparr>so_object = lane, so_start = ls_start s, so_end = ls_end s, so_id = i\<rparr>) (List.enumerate 0 segments)"

definition lane_params :: kd_params where
  "lane_params = kd_params_new\<lparr>kp_max_leaf_dimension := 5, kp_max_leaf_size := 16\<rparr>"

definition LaneInfo_CreateKDTree :: "string \<Rightarrow> line_segment2d list \<Rightarrow> segment_object kd_node option" where
  "LaneInfo_CreateKDTree lane segments = AABoxKDTree2d_new so_aabox (segment_boxes lane segments) lane_params"

definition Vec2d_Angle :: "vec2d \<Rightarrow> real" where
  "Vec2d_Angle p = atan2 (vy p) (vx p)"

definition LaneInfo_Init :: "string \<Rightarrow> lane_message \<Rightarrow> lane_info outcome option" where
  "LaneInfo_Init lane msg =
     (let points = PointsFromCurve (lm_central_curve msg)
      in if length points < 2 then Some (Inl Exit)
         else
           let (segments, accumulated_s) = lane_loop points 0;
               unit_directions = map ls_unit_direction segments;
               unit_directions = unit_directions @ [last unit_directions]
           in map_option
                (\<lambda>tree. Inr \<lparr>li_id = lane, li_points = points, li_segments = segments,
                   li_accumulated_s = accumulated_s, li_unit_directions = unit_directions,
                   li_headings = map Vec2d_Angle unit_directions, li_total_length = last accumulated_s,
                   li_sampled_left_width = lm_left_sample msg, li_sampled_right_width = lm_right_sample msg,
                   li_sampled_left_road_width = lm_left_road_sample msg,
                   li_sampled_right_road_width = lm_right_road_sample msg, li_kdtree = tree\<rparr>)
                (LaneInfo_CreateKDTree lane segments))"

definition LaneInfo_DistanceTo :: "vec2d \<Rightarrow> lane_info \<Rightarrow> real" where
  "LaneInfo_DistanceTo p lane =
     (case GetNearestObject so_DistanceSquareTo p (li_kdtree lane) of
        None \<Rightarrow> 0
      | Some segment_box \<Rightarrow> LineSegment2d_DistanceTo (so_segment segment_box) p)"

definition LaneInfo_DistanceTo_offset :: "vec2d \<Rightarrow> lane_info \<Rightarrow> (real \<times> vec2d \<times> real \<times> nat) option" where
  "LaneInfo_DistanceTo_offset p lane =
     map_option
       (\<lambda>segment_box.
          let index = so_id segment_box;
              (distance, map_point) = LineSegment2d_DistanceTo_nearest (li_segments lane ! index) p
          in (distance, map_point,
              li_accumulated_s lane ! index + Vec2d_DistanceTo (ls_start (li_segments lane ! index)) map_point, index))
       (GetNearestObject so_DistanceSquareTo p (li_kdtree lane))"

definition LaneInfo_GetNearestPoint :: "vec2d \<Rightarrow> lane_info \<Rightarrow> (vec2d \<times> real) option" where
  "LaneInfo_GetNearestPoint p lane =
     map_option
       (\<lambda>segment_box.
          let (distance, nearest_point) = LineSegment2d_DistanceTo_nearest (li_segments lane ! so_id segment_box) p
          in (nearest_point, distance))
       (GetNearestObject so_DistanceSquareTo p (li_kdtree lane))"

section \<open>The map\<close>

record hdmap =
  hm_lane_table :: "(string \<times> lane_info) list"
  hm_lane_segment_kdtree :: "segment_object kd_node option"

fun load_lanes :: "(string \<times> lane_message) list \<Rightarrow> (string \<times> lane_info) list \<Rightarrow> (string \<times> lane_info) list outcome option" where
  "load_lanes [] table = Some (Inr table)"
| "load_lanes ((lane, msg) # lanes) table =
     Option.bind (LaneInfo_Init lane msg)
       (\<lambda>r. case r of Inl e \<Rightarrow> Some (Inl e) | Inr info \<Rightarrow> load_lanes lanes (AList.update lane info table))"

definition lane_boxes :: "(string \<times> lane_info) list \<Rightarrow> segment_object list" where
  "lane_boxes table = concat (map (\<lambda>(_, info). segment_boxes (li_id info) (li_segments info)) table)"

definition BuildSegmentKDTree :: "(string \<times> lane_info) list \<Rightarrow> kd_params \<Rightarrow> segment_object kd_node option" where
  "BuildSegmentKDTree table params = AABoxKDTree2d_new so_aabox (lane_boxes table) params"

definition BuildLaneSegmentKDTree :: "hdmap \<Rightarrow> hdmap option" where
  "BuildLaneSegmentKDTree m =
     map_option (\<lambda>tree. m\<lparr>hm_lane_segment_kdtree := Some tree\<rparr>) (BuildSegmentKDTree (hm_lane_table m) lane_params)"

definition LoadMapFromProto :: "(string \<times> lane_message) list \<Rightarrow> hdmap outcome option" where
  "LoadMapFromProto lanes =
     Option.bind (load_lanes lanes [])
       (\<lambda>r. case r of
              Inl e \<Rightarrow> Some (Inl e)
            | Inr table \<Rightarrow> map_option Inr (BuildLaneSegmentKDTree \<lparr>hm_lane_table = table, hm_lane_segment_kdtree = None\<rparr>))"

definition GetLaneById :: "string \<Rightarrow> hdmap \<Rightarrow> lane_info option" where
  "GetLaneById lane m = map_of (hm_lane_table m) lane"

definition SearchObjects :: "vec2d \<Rightarrow> real \<Rightarrow> segment_object kd_node \<Rightarrow> string list" where
  "SearchObjects center radius tree = remdups (map so_object (GetObjects so_DistanceSquareTo center radius tree))"

definition HDMapImpl_GetLanes :: "vec2d \<Rightarrow> real \<Rightarrow> hdmap \<Rightarrow> lane_info option list option" where
  "HDMapImpl_GetLanes p distance m =
     map_option (\<lambda>tree. map (\<lambda>lane. GetLaneById lane m) (SearchObjects p distance tree)) (hm_lane_segment_kdtree m)"

definition HDMapImpl_GetNearestLane :: "vec2d \<Rightarrow> hdmap \<Rightarrow> (lane_info \<times> real \<times> real) option outcome" where
  "HDMapImpl_GetNearestLane p m =
     (case hm_lane_segment_kdtree m of
        None \<Rightarrow> Inl Undefined
      | Some tree \<Rightarrow>
          (case GetNearestObject so_DistanceSquareTo p tree of
             None \<Rightarrow> Inr None
           | Some segment_object \<Rightarrow>
               (case GetLaneById (so_object segment_object) m of
                  None \<Rightarrow> Inl Exit
                | Some nearest_lane \<Rightarrow>
                    let i = so_id segment_object;
                        segment = li_segments nearest_lane ! i;
                        nearest_pt = snd (LineSegment2d_DistanceTo_nearest segment p);
                        nearest_s = li_accumulated_s nearest_lane ! i + Vec2d_DistanceTo nearest_pt (ls_start segment);
                        nearest_l = vx (ls_unit_direction segment) * (vy p - vy (ls_start segment))
                          - vy (ls_unit_direction segment) * (vx p - vx (ls_start segment))
                    in Inr (Some (nearest_lane, nearest_s, nearest_l)))))"

section \<open>The points of a lane\<close>

text \<open>A point of a lane at a distance from its beginning, measured along the polyline.\<close>

definition on_lane :: "lane_info \<Rightarrow> vec2d \<Rightarrow> real \<Rightarrow> bool" where
  "on_lane lane q s \<longleftrightarrow>
     (\<exists>i t. Suc i < length (li_points lane) \<and> 0 \<le> t \<and> t \<le> 1
        \<and> q = point_at (li_points lane ! i) (li_points lane ! Suc i) t
        \<and> s = (\<Sum>j<i. Vec2d_DistanceTo (li_points lane ! j) (li_points lane ! Suc j))
            + t * Vec2d_DistanceTo (li_points lane ! i) (li_points lane ! Suc i))"

lemma segment_length: "ls_length (LineSegment2d_new p q) = Vec2d_DistanceTo p q"
  by (simp add: LineSegment2d_new_def Vec2d_DistanceTo_def Let_def power2_commute)

lemma DistanceTo_commute: "Vec2d_DistanceTo p q = Vec2d_DistanceTo q p"
  by (simp add: Vec2d_DistanceTo_def power2_commute)

lemma DistanceTo_point_at: "0 \<le> t \<Longrightarrow> Vec2d_DistanceTo (point_at p q t) p = t * Vec2d_DistanceTo p q"
proof -
  assume "0 \<le> t"
  have "(t * (vx q - vx p))\<^sup>2 + (t * (vy q - vy p))\<^sup>2 = t\<^sup>2 * ((vx p - vx q)\<^sup>2 + (vy p - vy q)\<^sup>2)"
    by (simp add: power2_eq_square algebra_simps)
  then show ?thesis using \<open>0 \<le> t\<close> by (simp add: Vec2d_DistanceTo_def real_sqrt_mult)
qed

lemma RemoveDuplicates_apart:
  "Suc i < length (RemoveDuplicates points)
    \<Longrightarrow> kMathEpsilon < Vec2d_DistanceTo (RemoveDuplicates points ! i) (RemoveDuplicates points ! Suc i)"
proof -
  let ?far = "\<lambda>p q. 1 / 10 ^ 14 < Vec2d_DistanceSquareTo p q"
  let ?step = "\<lambda>p kept. case kept of [] \<Rightarrow> [p] | q # _ \<Rightarrow> if ?far p q then p # kept else kept"
  have "successively ?far kept \<Longrightarrow> successively ?far (fold ?step points kept)" for kept
    by (induction points arbitrary: kept) (auto simp: successively_Cons split: list.split)
  then have "successively (\<lambda>p q. ?far q p) (RemoveDuplicates points)"
    by (simp add: RemoveDuplicates_def)
  moreover assume "Suc i < length (RemoveDuplicates points)"
  ultimately have "?far (RemoveDuplicates points ! Suc i) (RemoveDuplicates points ! i)"
    by (simp add: successively_conv_nth)
  then have "sqrt (1 / 10 ^ 14) < Vec2d_DistanceTo (RemoveDuplicates points ! Suc i) (RemoveDuplicates points ! i)"
    by (simp only: DistanceTo_sqrt real_sqrt_less_iff)
  moreover have "sqrt (1 / 10 ^ 14) = 1 / 10 ^ 7" by (rule real_sqrt_unique) (simp_all add: power_divide)
  moreover have "kMathEpsilon < 1 / 10 ^ 7" by simp
  ultimately show ?thesis unfolding DistanceTo_commute [of "RemoveDuplicates points ! i"] by linarith
qed

lemma lane_loop_nth:
  assumes "lane_loop points s = (segments, accumulated_s)" and "points \<noteq> []"
  shows "length segments = length points - 1 \<and> length accumulated_s = length points
    \<and> (\<forall>i. Suc i < length points \<longrightarrow> segments ! i = LineSegment2d_new (points ! i) (points ! Suc i))
    \<and> (\<forall>i < length points. accumulated_s ! i = s + (\<Sum>j<i. Vec2d_DistanceTo (points ! j) (points ! Suc j)))"
  using assms
proof (induction points s arbitrary: segments accumulated_s rule: lane_loop.induct)
  case (1 p q points s)
  obtain segs acc where rest: "lane_loop (q # points) (s + ls_length (LineSegment2d_new p q)) = (segs, acc)"
    by (cases "lane_loop (q # points) (s + ls_length (LineSegment2d_new p q))")
  then have eq: "segments = LineSegment2d_new p q # segs" "accumulated_s = s # acc" using 1(2) by (simp_all add: Let_def)
  note hyp = 1(1) [OF refl rest]
  have IH: "length segs = length points" "length acc = Suc (length points)"
    "\<And>i. Suc i < length (q # points) \<Longrightarrow> segs ! i = LineSegment2d_new ((q # points) ! i) ((q # points) ! Suc i)"
    "\<And>i. i < length (q # points) \<Longrightarrow> acc ! i = s + ls_length (LineSegment2d_new p q)
        + (\<Sum>j<i. Vec2d_DistanceTo ((q # points) ! j) ((q # points) ! Suc j))"
    using hyp by simp_all
  have "segments ! i = LineSegment2d_new ((p # q # points) ! i) ((p # q # points) ! Suc i)"
    if "Suc i < length (p # q # points)" for i
    using that IH(3) by (cases i) (simp_all add: eq)
  moreover have "accumulated_s ! i = s + (\<Sum>j<i. Vec2d_DistanceTo ((p # q # points) ! j) ((p # q # points) ! Suc j))"
    if "i < length (p # q # points)" for i
  proof (cases i)
    case (Suc k)
    then have "accumulated_s ! i = s + Vec2d_DistanceTo p q + (\<Sum>j<k. Vec2d_DistanceTo ((q # points) ! j) ((q # points) ! Suc j))"
      using that IH(4) [of k] by (simp add: eq segment_length)
    then show ?thesis unfolding Suc sum.lessThan_Suc_shift by simp
  qed (simp add: eq)
  ultimately show ?case using IH(1,2) by (simp add: eq)
qed simp_all

section \<open>Lanes and maps that are loaded\<close>

definition lane_ok :: "lane_info \<Rightarrow> bool" where
  "lane_ok lane \<longleftrightarrow>
     2 \<le> length (li_points lane)
     \<and> (\<forall>i. Suc i < length (li_points lane) \<longrightarrow> kMathEpsilon < Vec2d_DistanceTo (li_points lane ! i) (li_points lane ! Suc i))
     \<and> length (li_segments lane) = length (li_points lane) - 1
     \<and> (\<forall>i. Suc i < length (li_points lane) \<longrightarrow> li_segments lane ! i = LineSegment2d_new (li_points lane ! i) (li_points lane ! Suc i))
     \<and> (\<forall>i < length (li_points lane). li_accumulated_s lane ! i = (\<Sum>j<i. Vec2d_DistanceTo (li_points lane ! j) (li_points lane ! Suc j)))
     \<and> length (li_accumulated_s lane) = length (li_points lane) \<and> li_total_length lane = last (li_accumulated_s lane)
     \<and> length (li_unit_directions lane) = length (li_points lane) \<and> length (li_headings lane) = length (li_points lane)
     \<and> (\<forall>i. Suc i < length (li_points lane) \<longrightarrow> li_unit_directions lane ! i = ls_unit_direction (li_segments lane ! i))
     \<and> kd_inv so_aabox (li_kdtree lane)
     \<and> mset (GetAllObjects (li_kdtree lane)) = mset (segment_boxes (li_id lane) (li_segments lane))"

lemma lane_tree:
  "\<exists>tree. AABoxKDTree2d_new so_aabox obs lane_params = Some tree \<and> kd_inv so_aabox tree \<and> mset (GetAllObjects tree) = mset obs"
  using kd_build_ends_dimension [of lane_params so_aabox obs 0] kd_build_inv
  unfolding AABoxKDTree2d_new_def by (fastforce simp: lane_params_def)

lemma LaneInfo_Init_cases:
  "if length (lane_points msg) < 2 then LaneInfo_Init lane msg = Some (Inl Exit)
   else \<exists>info. LaneInfo_Init lane msg = Some (Inr info) \<and> li_id info = lane \<and> li_points info = lane_points msg
     \<and> li_sampled_left_width info = lm_left_sample msg \<and> li_sampled_right_width info = lm_right_sample msg \<and> lane_ok info"
proof (cases "length (lane_points msg) < 2")
  case True
  then show ?thesis by (simp add: LaneInfo_Init_def Let_def)
next
  case False
  obtain segs acc where loop: "lane_loop (lane_points msg) 0 = (segs, acc)" by (cases "lane_loop (lane_points msg) 0")
  obtain tree where tree: "LaneInfo_CreateKDTree lane segs = Some tree" "kd_inv so_aabox tree"
      "mset (GetAllObjects tree) = mset (segment_boxes lane segs)"
    using lane_tree [of "segment_boxes lane segs"] unfolding LaneInfo_CreateKDTree_def by blast
  have "lane_points msg \<noteq> []" using False by auto
  note lists = lane_loop_nth [OF loop this]
  let ?info = "\<lparr>li_id = lane, li_points = lane_points msg, li_segments = segs, li_accumulated_s = acc,
    li_unit_directions = map ls_unit_direction segs @ [last (map ls_unit_direction segs)],
    li_headings = map Vec2d_Angle (map ls_unit_direction segs @ [last (map ls_unit_direction segs)]), li_total_length = last acc,
    li_sampled_left_width = lm_left_sample msg, li_sampled_right_width = lm_right_sample msg,
    li_sampled_left_road_width = lm_left_road_sample msg, li_sampled_right_road_width = lm_right_road_sample msg, li_kdtree = tree\<rparr>"
  have init: "LaneInfo_Init lane msg = Some (Inr ?info)"
    using False tree(1) by (simp add: LaneInfo_Init_def Let_def loop)
  have "kMathEpsilon < Vec2d_DistanceTo (lane_points msg ! i) (lane_points msg ! Suc i)"
    if "Suc i < length (lane_points msg)" for i
    using RemoveDuplicates_apart that unfolding PointsFromCurve_def .
  then have "lane_ok ?info" using False tree(2,3) lists by (auto simp: lane_ok_def nth_append)
  with init False show ?thesis by simp
qed

lemma LaneInfo_Init_ok: "LaneInfo_Init lane msg = Some (Inr info) \<Longrightarrow> lane_ok info"
  using LaneInfo_Init_cases [of msg lane] by (auto split: if_splits)

definition lane_table_ok :: "(string \<times> lane_info) list \<Rightarrow> bool" where
  "lane_table_ok table \<longleftrightarrow> distinct (map fst table) \<and> (\<forall>(k, info) \<in> set table. k = li_id info \<and> lane_ok info)"

lemma lane_table_ok_update:
  assumes "lane_table_ok table" and "li_id info = lane" and "lane_ok info"
  shows "lane_table_ok (AList.update lane info table)"
proof -
  have "(k, v) = (lane, info) \<or> (k, v) \<in> set table" if "(k, v) \<in> set (AList.update lane info table)" for k v
    using that assms(1) distinct_update [of table lane info] unfolding lane_table_ok_def
    by (metis map_of_eq_Some_iff map_of_is_SomeI update_Some_unfold)
  then show ?thesis using assms distinct_update [of table lane info] unfolding lane_table_ok_def by fastforce
qed

lemma load_lanes_cases:
  assumes "lane_table_ok table"
  shows "if \<forall>(lane, msg) \<in> set lanes. 2 \<le> length (lane_points msg)
    then \<exists>table'. load_lanes lanes table = Some (Inr table') \<and> lane_table_ok table' \<and> fst ` set table' = fst ` set table \<union> fst ` set lanes
    else load_lanes lanes table = Some (Inl Exit)"
  using assms
proof (induction lanes arbitrary: table)
  case (Cons x lanes)
  obtain lane msg where x: "x = (lane, msg)" by (cases x)
  show ?case
  proof (cases "length (lane_points msg) < 2")
    case True
    then have "LaneInfo_Init lane msg = Some (Inl Exit)" using LaneInfo_Init_cases [of msg lane] by simp
    with True show ?thesis by (auto simp: x)
  next
    case False
    then obtain info where info: "LaneInfo_Init lane msg = Some (Inr info)" "li_id info = lane" "lane_ok info"
      using LaneInfo_Init_cases [of msg lane] by auto
    have "fst ` set (AList.update lane info table) = insert lane (fst ` set table)"
      by (simp add: dom_update)
    with Cons.IH [OF lane_table_ok_update [OF Cons.prems info(2,3)]] info(1) False show ?thesis by (auto simp: x)
  qed
qed simp

definition map_ok :: "hdmap \<Rightarrow> bool" where
  "map_ok m \<longleftrightarrow> lane_table_ok (hm_lane_table m)
     \<and> (\<exists>tree. hm_lane_segment_kdtree m = Some tree \<and> kd_inv so_aabox tree \<and> mset (GetAllObjects tree) = mset (lane_boxes (hm_lane_table m)))"

lemma LoadMap_cases:
  "if \<forall>(lane, msg) \<in> set lanes. 2 \<le> length (lane_points msg)
   then \<exists>m. LoadMapFromProto lanes = Some (Inr m) \<and> map_ok m \<and> fst ` set (hm_lane_table m) = fst ` set lanes
   else LoadMapFromProto lanes = Some (Inl Exit)"
proof -
  have "\<exists>tree. BuildSegmentKDTree table lane_params = Some tree \<and> kd_inv so_aabox tree \<and> mset (GetAllObjects tree) = mset (lane_boxes table)" for table
    using lane_tree [of "lane_boxes table"] by (simp add: BuildSegmentKDTree_def)
  then have "\<exists>m. BuildLaneSegmentKDTree \<lparr>hm_lane_table = table, hm_lane_segment_kdtree = None\<rparr> = Some m \<and> map_ok m \<and> hm_lane_table m = table"
    if "lane_table_ok table" for table
    using that unfolding BuildLaneSegmentKDTree_def map_ok_def by fastforce
  moreover have "lane_table_ok []" by (simp add: lane_table_ok_def)
  ultimately show ?thesis
    using load_lanes_cases [of "[]" lanes] unfolding LoadMapFromProto_def by fastforce
qed

text \<open>The entry of the tree for a segment of a lane.\<close>

definition box_of :: "lane_info \<Rightarrow> nat \<Rightarrow> segment_object" where
  "box_of lane i = \<lparr>so_object = li_id lane, so_start = li_points lane ! i, so_end = li_points lane ! Suc i, so_id = i\<rparr>"

lemma box_of_simps [simp]:
  "so_object (box_of lane i) = li_id lane" "so_start (box_of lane i) = li_points lane ! i"
  "so_end (box_of lane i) = li_points lane ! Suc i" "so_id (box_of lane i) = i"
  by (simp_all add: box_of_def)

lemma segment_boxes_set:
  assumes "lane_ok lane"
  shows "set (segment_boxes (li_id lane) (li_segments lane)) = {box_of lane i | i. Suc i < length (li_points lane)}"
proof -
  have "set (segment_boxes (li_id lane) (li_segments lane))
      = (\<lambda>i. \<lparr>so_object = li_id lane, so_start = ls_start (li_segments lane ! i), so_end = ls_end (li_segments lane ! i), so_id = i\<rparr>)
          ` {i. i < length (li_segments lane)}"
    by (force simp: segment_boxes_def in_set_enumerate_eq image_iff)
  also have "\<dots> = box_of lane ` {i. Suc i < length (li_points lane)}"
    using assms by (intro image_cong) (auto simp: lane_ok_def box_of_def)
  finally show ?thesis by blast
qed

lemma GetLaneById_iff: "lane_table_ok (hm_lane_table m) \<Longrightarrow> GetLaneById k m = Some lane \<longleftrightarrow> (k, lane) \<in> set (hm_lane_table m)"
  by (simp add: GetLaneById_def lane_table_ok_def)

lemma lane_of_table: "lane_table_ok (hm_lane_table m) \<Longrightarrow> GetLaneById k m = Some lane \<Longrightarrow> li_id lane = k \<and> lane_ok lane"
  by (auto simp: GetLaneById_iff) (auto simp: lane_table_ok_def)

lemma lane_boxes_set:
  assumes "lane_table_ok (hm_lane_table m)"
  shows "set (lane_boxes (hm_lane_table m)) = {box_of lane i | lane i. GetLaneById (li_id lane) m = Some lane \<and> Suc i < length (li_points lane)}"
    (is "?L = ?R")
proof (intro set_eqI iffI)
  fix ob assume "ob \<in> ?L"
  then obtain k lane where k: "(k, lane) \<in> set (hm_lane_table m)" "ob \<in> set (segment_boxes (li_id lane) (li_segments lane))"
    by (auto simp: lane_boxes_def)
  then have "k = li_id lane" "lane_ok lane" using assms by (auto simp: lane_table_ok_def)
  with k show "ob \<in> ?R" by (auto simp: segment_boxes_set GetLaneById_iff [OF assms])
next
  fix ob assume "ob \<in> ?R"
  then obtain lane i where lane: "ob = box_of lane i" "GetLaneById (li_id lane) m = Some lane" "Suc i < length (li_points lane)"
    by blast
  then have "ob \<in> set (segment_boxes (li_id lane) (li_segments lane))"
    using lane_of_table [OF assms lane(2)] by (auto simp: segment_boxes_set)
  moreover have "(li_id lane, lane) \<in> set (hm_lane_table m)" using lane(2) by (simp add: GetLaneById_iff [OF assms])
  ultimately show "ob \<in> ?L" by (force simp: lane_boxes_def)
qed

text \<open>The nearest point of a segment, and the points of a lane near a given one.\<close>

lemma box_nearest_point:
  assumes "lane_ok lane" and "Suc i < length (li_points lane)"
    and q_def: "q = snd (LineSegment2d_DistanceTo_nearest (li_segments lane ! i) p)"
  shows "on_lane lane q (li_accumulated_s lane ! i + Vec2d_DistanceTo q (ls_start (li_segments lane ! i)))"
    and "Vec2d_DistanceSquareTo p q = so_DistanceSquareTo (box_of lane i) p"
proof -
  let ?a = "li_points lane ! i" and ?b = "li_points lane ! Suc i"
  let ?t = "nearest_ratio (LineSegment2d_new ?a ?b) p"
  have seg: "li_segments lane ! i = LineSegment2d_new ?a ?b" using assms(1,2) by (simp add: lane_ok_def)
  have q: "q = point_at ?a ?b ?t" by (simp add: q_def seg segment_DistanceTo_nearest)
  show "Vec2d_DistanceSquareTo p q = so_DistanceSquareTo (box_of lane i) p"
    by (simp add: q so_DistanceSquareTo_def segment_distance_attained)
  have "li_accumulated_s lane ! i + Vec2d_DistanceTo q (ls_start (li_segments lane ! i))
      = (\<Sum>j<i. Vec2d_DistanceTo (li_points lane ! j) (li_points lane ! Suc j)) + ?t * Vec2d_DistanceTo ?a ?b"
    using assms(1,2) nearest_ratio_bounds by (simp add: lane_ok_def seg q DistanceTo_point_at)
  then show "on_lane lane q (li_accumulated_s lane ! i + Vec2d_DistanceTo q (ls_start (li_segments lane ! i)))"
    unfolding on_lane_def using assms(2) q nearest_ratio_bounds by blast
qed

lemma box_minimal:
  assumes "lane_ok lane" and "on_lane lane q s"
  obtains i where "Suc i < length (li_points lane)" "so_DistanceSquareTo (box_of lane i) p \<le> Vec2d_DistanceSquareTo p q"
proof -
  from assms(2) obtain i t where it: "Suc i < length (li_points lane)" "0 \<le> t" "t \<le> 1"
      "q = point_at (li_points lane ! i) (li_points lane ! Suc i) t"
    by (auto simp: on_lane_def)
  have "kMathEpsilon < ls_length (LineSegment2d_new (li_points lane ! i) (li_points lane ! Suc i))"
    using assms(1) it(1) by (simp add: lane_ok_def segment_length)
  from segment_distance_minimal [OF this it(2,3)] show ?thesis
    using that [OF it(1)] by (simp add: so_DistanceSquareTo_def it(4))
qed

lemma lateral_bound:
  assumes "lane_ok lane" and "Suc i < length (li_points lane)"
  defines "segment \<equiv> li_segments lane ! i"
  shows "\<bar>vx (ls_unit_direction segment) * (vy p - vy (ls_start segment)) - vy (ls_unit_direction segment) * (vx p - vx (ls_start segment))\<bar>
    \<le> Vec2d_DistanceTo p (snd (LineSegment2d_DistanceTo_nearest segment p))"
proof -
  let ?a = "li_points lane ! i" and ?b = "li_points lane ! Suc i"
  have seg: "segment = LineSegment2d_new ?a ?b" and long: "kMathEpsilon < ls_length (LineSegment2d_new ?a ?b)"
    using assms(1,2) by (simp_all add: lane_ok_def segment_def segment_length)
  let ?l = "vx (ls_unit_direction segment) * (vy p - vy ?a) - vy (ls_unit_direction segment) * (vx p - vx ?a)"
  have "?l\<^sup>2 = ((vx p - vx ?a) * vy (ls_unit_direction segment) - (vy p - vy ?a) * vx (ls_unit_direction segment))\<^sup>2"
    by (simp add: power2_eq_square algebra_simps)
  then have "?l\<^sup>2 \<le> Vec2d_DistanceSquareTo p (snd (LineSegment2d_DistanceTo_nearest segment p))"
    by (simp add: seg segment_DistanceTo_nearest distance_to_point_at [OF long])
  then show ?thesis by (simp add: DistanceTo_sqrt seg real_le_rsqrt)
qed

section \<open>The search\<close>

text \<open>
  C14: The nearest lane is right.  In every map with lanes that can be loaded, the search gives a lane of the map
  and the arc length of one of its points, and no point of any lane of the map is nearer than that point by more
  than the tolerance of the search in the squared distance.  The reported lateral offset is at most the
  distance to that point.
\<close>

theorem GetNearestLane_correct:
  assumes "LoadMapFromProto lanes = Some (Inr m)" and "lanes \<noteq> []"
  shows "\<exists>lane s l q. HDMapImpl_GetNearestLane p m = Inr (Some (lane, s, l))
    \<and> GetLaneById (li_id lane) m = Some lane \<and> on_lane lane q s \<and> \<bar>l\<bar> \<le> Vec2d_DistanceTo p q
    \<and> (\<forall>k lane' q' s'. GetLaneById k m = Some lane' \<longrightarrow> on_lane lane' q' s'
          \<longrightarrow> Vec2d_DistanceSquareTo p q \<le> Vec2d_DistanceSquareTo p q' + kMathEpsilon)"
proof -
  have ok: "map_ok m" and keys: "fst ` set (hm_lane_table m) = fst ` set lanes"
    using LoadMap_cases [of lanes] assms(1) by (auto split: if_splits)
  from ok obtain tree where tree: "hm_lane_segment_kdtree m = Some tree" "kd_inv so_aabox tree"
      "mset (GetAllObjects tree) = mset (lane_boxes (hm_lane_table m))" and table: "lane_table_ok (hm_lane_table m)"
    by (auto simp: map_ok_def)
  note boxes = mset_eq_setD [OF tree(3), unfolded lane_boxes_set [OF table]]
  from assms(2) keys obtain k info where "(k, info) \<in> set (hm_lane_table m)" by (cases "hm_lane_table m") auto
  then have info: "GetLaneById (li_id info) m = Some info" "Suc 0 < length (li_points info)"
    using table by (auto simp: GetLaneById_iff lane_table_ok_def lane_ok_def)
  then have "box_of info 0 \<in> set (GetAllObjects tree)" unfolding boxes by blast
  then have "GetAllObjects tree \<noteq> []" by auto
  from segments.GetNearestObject_correct [OF tree(2) this] obtain ob where
    ob: "ob \<in> set (GetAllObjects tree)" "GetNearestObject so_DistanceSquareTo p tree = Some ob"
      "\<forall>ob' \<in> set (GetAllObjects tree). so_DistanceSquareTo ob p \<le> so_DistanceSquareTo ob' p + kMathEpsilon" by blast
  from ob(1) obtain lane i where lane: "ob = box_of lane i" "GetLaneById (li_id lane) m = Some lane" "Suc i < length (li_points lane)"
    unfolding boxes by blast
  note lane_ok = conjunct2 [OF lane_of_table [OF table lane(2)]]
  let ?q = "snd (LineSegment2d_DistanceTo_nearest (li_segments lane ! i) p)"
  note nearest = box_nearest_point [OF lane_ok lane(3) refl, of p] and lateral = lateral_bound [OF lane_ok lane(3), of p]
  have "Vec2d_DistanceSquareTo p ?q \<le> Vec2d_DistanceSquareTo p q' + kMathEpsilon"
    if "GetLaneById k m = Some lane'" "on_lane lane' q' s'" for k lane' q' s'
  proof -
    note l' = lane_of_table [OF table that(1)]
    from box_minimal [OF conjunct2 [OF l'] that(2)] obtain j where
      j: "Suc j < length (li_points lane')" "so_DistanceSquareTo (box_of lane' j) p \<le> Vec2d_DistanceSquareTo p q'" by blast
    have "box_of lane' j \<in> set (GetAllObjects tree)" unfolding boxes using j(1) that(1) l' by blast
    with ob(3) have "so_DistanceSquareTo ob p \<le> so_DistanceSquareTo (box_of lane' j) p + kMathEpsilon" by blast
    then show ?thesis using j(2) unfolding nearest(2) lane(1) by linarith
  qed
  moreover have "HDMapImpl_GetNearestLane p m = Inr (Some (lane, li_accumulated_s lane ! i + Vec2d_DistanceTo ?q (ls_start (li_segments lane ! i)),
      vx (ls_unit_direction (li_segments lane ! i)) * (vy p - vy (ls_start (li_segments lane ! i)))
        - vy (ls_unit_direction (li_segments lane ! i)) * (vx p - vx (ls_start (li_segments lane ! i)))))"
    using tree(1) ob(2) lane by (simp add: HDMapImpl_GetNearestLane_def Let_def)
  ultimately show ?thesis using lane(2) nearest(1) lateral by blast
qed

text \<open>Two lanes that cross; the point is next to the first.\<close>

definition sample_lane :: "vec2d list option list \<Rightarrow> lane_message" where
  "sample_lane curve =
     \<lparr>lm_central_curve = curve, lm_left_sample = [(0, 2)], lm_right_sample = [(0, 2)], lm_left_road_sample = [], lm_right_road_sample = []\<rparr>"

definition sample_lanes :: "(string \<times> lane_message) list" where
  "sample_lanes =
     [(''a'', sample_lane [Some [Vec2d 0 0, Vec2d 10 0]]), (''b'', sample_lane [Some [Vec2d 5 5, Vec2d 5 (- 5)], None])]"

lemma sample_loads: "\<exists>m. LoadMapFromProto sample_lanes = Some (Inr m)"
proof -
  have "\<forall>(lane, msg) \<in> set sample_lanes. 2 \<le> length (lane_points msg)"
    by (simp add: sample_lanes_def sample_lane_def PointsFromCurve_def RemoveDuplicates_def Vec2d_DistanceSquareTo_def)
  then show ?thesis using LoadMap_cases [of sample_lanes] by auto
qed

theorem GetNearestLane_correct_witness:
  "\<exists>m lane s l q. LoadMapFromProto sample_lanes = Some (Inr m)
    \<and> HDMapImpl_GetNearestLane (Vec2d 2 1) m = Inr (Some (lane, s, l)) \<and> on_lane lane q s
    \<and> (\<forall>k lane' q' s'. GetLaneById k m = Some lane' \<longrightarrow> on_lane lane' q' s'
          \<longrightarrow> Vec2d_DistanceSquareTo (Vec2d 2 1) q \<le> Vec2d_DistanceSquareTo (Vec2d 2 1) q' + kMathEpsilon)"
proof -
  obtain m where m: "LoadMapFromProto sample_lanes = Some (Inr m)" using sample_loads by blast
  have "sample_lanes \<noteq> []" by (simp add: sample_lanes_def)
  from GetNearestLane_correct [OF m this, of "Vec2d 2 1"] m show ?thesis by blast
qed

text \<open>The ids that the search returns are those of the lanes within the distance.\<close>

lemma SearchObjects_ids:
  assumes table: "lane_table_ok (hm_lane_table m)" and "0 \<le> distance" and tree: "kd_inv so_aabox tree"
    "mset (GetAllObjects tree) = mset (lane_boxes (hm_lane_table m))"
  shows "k \<in> set (SearchObjects p distance tree)
    \<longleftrightarrow> (\<exists>lane. GetLaneById k m = Some lane \<and> (\<exists>q s. on_lane lane q s \<and> Vec2d_DistanceTo p q \<le> distance))"
proof -
  note boxes = mset_eq_setD [OF tree(2), unfolded lane_boxes_set [OF table]]
  let ?ids = "SearchObjects p distance tree"
  let ?near = "\<lambda>lane. \<exists>q s. on_lane lane q s \<and> Vec2d_DistanceTo p q \<le> distance"
  have near: "Vec2d_DistanceTo p q \<le> distance \<longleftrightarrow> Vec2d_DistanceSquareTo p q \<le> distance\<^sup>2" for q
    unfolding DistanceTo_sqrt using real_sqrt_le_iff [of "Vec2d_DistanceSquareTo p q" "distance\<^sup>2"] assms(2) by simp
  have found: "set (GetObjects so_DistanceSquareTo p distance tree)
      = {ob \<in> set (GetAllObjects tree). so_DistanceSquareTo ob p \<le> distance\<^sup>2}"
    using segments.GetObjectsInternal_mset [OF tree(1) assms(2), of p]
    unfolding GetObjects_def by (metis mset_filter set_filter set_mset_mset)
  show ?thesis
  proof
    assume "k \<in> set ?ids"
    then obtain lane i where lane: "k = li_id lane" "GetLaneById (li_id lane) m = Some lane" "Suc i < length (li_points lane)"
        "so_DistanceSquareTo (box_of lane i) p \<le> distance\<^sup>2"
      by (auto simp: SearchObjects_def found boxes)
    note q = box_nearest_point [OF conjunct2 [OF lane_of_table [OF table lane(2)]] lane(3) refl, of p]
    have "?near lane" using q(1) q(2) lane(4) unfolding near by auto
    with lane show "\<exists>lane. GetLaneById k m = Some lane \<and> ?near lane" by blast
  next
    assume "\<exists>lane. GetLaneById k m = Some lane \<and> ?near lane"
    then obtain lane q s where lane: "GetLaneById k m = Some lane" "on_lane lane q s" "Vec2d_DistanceSquareTo p q \<le> distance\<^sup>2"
      unfolding near by blast
    note ok = lane_of_table [OF table lane(1)]
    from box_minimal [OF conjunct2 [OF ok] lane(2)] obtain i where
      i: "Suc i < length (li_points lane)" "so_DistanceSquareTo (box_of lane i) p \<le> Vec2d_DistanceSquareTo p q" by blast
    have "box_of lane i \<in> set (GetObjects so_DistanceSquareTo p distance tree)"
      unfolding found boxes using i lane(1,3) ok by auto
    then have "so_object (box_of lane i) \<in> set ?ids" unfolding SearchObjects_def set_remdups set_map by (rule imageI)
    with ok show "k \<in> set ?ids" by simp
  qed
qed

text \<open>
  C16: The lanes within a distance are right.  In every map that can be loaded, the search for lanes within a
  distance that is not negative gives each lane of the map that has a point within this distance exactly
  once, and no other lane.
\<close>

theorem GetLanes_correct:
  assumes "LoadMapFromProto lanes = Some (Inr m)" and "0 \<le> distance"
  shows "\<exists>found. HDMapImpl_GetLanes p distance m = Some (map Some found) \<and> distinct (map li_id found)
    \<and> set found = {lane. \<exists>k q s. GetLaneById k m = Some lane \<and> on_lane lane q s \<and> Vec2d_DistanceTo p q \<le> distance}"
proof -
  have ok: "map_ok m" using LoadMap_cases [of lanes] assms(1) by (auto split: if_splits)
  then obtain tree where tree: "hm_lane_segment_kdtree m = Some tree" "kd_inv so_aabox tree"
      "mset (GetAllObjects tree) = mset (lane_boxes (hm_lane_table m))" and table: "lane_table_ok (hm_lane_table m)"
    by (auto simp: map_ok_def)
  let ?ids = "SearchObjects p distance tree"
  note ids = SearchObjects_ids [OF table assms(2) tree(2,3), of _ p]
  let ?found = "map (\<lambda>k. the (GetLaneById k m)) ?ids"
  have the: "GetLaneById k m = Some (the (GetLaneById k m))" if "k \<in> set ?ids" for k using that unfolding ids by auto
  have lanes: "HDMapImpl_GetLanes p distance m = Some (map Some ?found)"
    using tree(1) the by (simp add: HDMapImpl_GetLanes_def)
  have "map li_id ?found = ?ids" using lane_of_table [OF table the] by (simp add: map_idI)
  then have "distinct (map li_id ?found)" by (simp only: SearchObjects_def distinct_remdups)
  moreover have "set ?found = {lane. \<exists>k q s. GetLaneById k m = Some lane \<and> on_lane lane q s \<and> Vec2d_DistanceTo p q \<le> distance}"
    using ids by force
  ultimately show ?thesis using lanes by blast
qed

theorem GetLanes_correct_witness:
  "\<exists>m found. LoadMapFromProto sample_lanes = Some (Inr m) \<and> HDMapImpl_GetLanes (Vec2d 2 1) 1 m = Some (map Some found)
    \<and> set found = {lane. \<exists>k q s. GetLaneById k m = Some lane \<and> on_lane lane q s \<and> Vec2d_DistanceTo (Vec2d 2 1) q \<le> 1}"
proof -
  obtain m where m: "LoadMapFromProto sample_lanes = Some (Inr m)" using sample_loads by blast
  from GetLanes_correct [OF m zero_le_one, of "Vec2d 2 1"] m show ?thesis by blast
qed

text \<open>
  Loading a map ends.  It fails exactly when some lane has fewer than two distinct points; otherwise all
  search trees are built, and the table has an entry for every lane that was given.
\<close>

theorem LoadMap_ends:
  "if \<exists>(lane, msg) \<in> set lanes. length (lane_points msg) < 2
   then LoadMapFromProto lanes = Some (Inl Exit)
   else \<exists>m. LoadMapFromProto lanes = Some (Inr m) \<and> (\<forall>lane. (\<exists>info. GetLaneById lane m = Some info) \<longleftrightarrow> lane \<in> fst ` set lanes)"
proof -
  have "(\<exists>info. GetLaneById lane m = Some info) \<longleftrightarrow> lane \<in> fst ` set (hm_lane_table m)" if "map_ok m" for lane m
    unfolding GetLaneById_def by (metis map_of_eq_None_iff not_None_eq)
  moreover have "(\<forall>(lane, msg) \<in> set lanes. 2 \<le> length (lane_points msg))
      \<longleftrightarrow> \<not> (\<exists>(lane, msg) \<in> set lanes. length (lane_points msg) < 2)" by force
  ultimately show ?thesis using LoadMap_cases [of lanes] by (cases "\<exists>(lane, msg) \<in> set lanes. length (lane_points msg) < 2") auto
qed

text \<open>
  C36: A map that is loaded is well formed.  The ids in the table are distinct and are those of its lanes; each lane
  has at least two points, neighbouring points of a lane are apart, and its segments, directions, headings and arc lengths
  belong to its points; every node of a search tree bounds the boxes below it and keeps its objects sorted; and the
  trees hold exactly the segments of the lanes.
\<close>

theorem LoadMap_well_formed:
  assumes "LoadMapFromProto lanes = Some (Inr m)"
  shows "map_ok m"
  using LoadMap_cases [of lanes] assms by (auto split: if_splits)

theorem LoadMap_well_formed_witness:
  "\<exists>m. LoadMapFromProto sample_lanes = Some (Inr m) \<and> map_ok m"
  using sample_loads LoadMap_well_formed by blast

end
