(* ===== verification/LaneGeometry.thy ===== *)
theory LaneGeometry
  imports LaneSearch
begin

text \<open>
  What a lane knows of its shape (\<open>modules/map/hdmap/hdmap_common.cc\<close>, class \<open>LaneInfo\<close>): its width at a distance
  from its beginning, found by bisection in the samples, its heading and curvature, the point at a distance, and the projection of a point
  to the lane, which decides whether the point is on it.  The reading of an element past the end of
  an array is a \<open>failure\<close>.  Indices are natural numbers: the \<open>int\<close> of the code does not overflow for fewer than
  \<open>2\<^sup>30\<close> samples.  Rounding is not modelled.

  The theory shows that the bisection ends inside the samples and gives a width between those of two neighbouring
  samples, that the point at a distance lies on the lane at this distance, and that the projection gives the
  nearest point of the lane.  It also shows two defects: the heading just behind the end reads past the end
  of an array, and a lane of a single segment counts points behind its end as being on the lane.
\<close>

section \<open>Widths\<close>

function width_search :: "(real \<times> real) list \<Rightarrow> real \<Rightarrow> nat \<Rightarrow> nat \<Rightarrow> nat \<times> nat" where
  "width_search samples s low high =
     (if low + 1 < high
      then let mid = (low + high) div 2
           in if fst (samples ! mid) \<le> s then width_search samples s mid high else width_search samples s low mid
      else (low, high))"
  by pat_completeness auto
termination by (relation "measure (\<lambda>(_, _, low, high). high - low)") auto

declare width_search.simps [simp del]

definition GetWidthFromSample :: "(real \<times> real) list \<Rightarrow> real \<Rightarrow> real outcome" where
  "GetWidthFromSample samples s =
     (if samples = [] then Inr 0
      else if s \<le> fst (hd samples) then Inr (snd (hd samples))
      else if fst (last samples) \<le> s then Inr (snd (last samples))
      else
        let (low, high) = width_search samples s 0 (length samples)
        in if high < length samples
           then let sample1 = samples ! low;
                    sample2 = samples ! high;
                    ratio = (fst sample2 - s) / (fst sample2 - fst sample1)
                in Inr (snd sample1 * ratio + snd sample2 * (1 - ratio))
           else Inl Undefined)"

definition LaneInfo_GetWidth :: "real \<Rightarrow> lane_info \<Rightarrow> (real \<times> real) outcome" where
  "LaneInfo_GetWidth s lane =
     bind_outcome (GetWidthFromSample (li_sampled_left_width lane) s)
       (\<lambda>left_width. bind_outcome (GetWidthFromSample (li_sampled_right_width lane) s)
          (\<lambda>right_width. Inr (left_width, right_width)))"

definition LaneInfo_GetWidth_sum :: "real \<Rightarrow> lane_info \<Rightarrow> real outcome" where
  "LaneInfo_GetWidth_sum s lane =
     bind_outcome (LaneInfo_GetWidth s lane) (\<lambda>(left_width, right_width). Inr (left_width + right_width))"

definition LaneInfo_GetEffectiveWidth :: "real \<Rightarrow> lane_info \<Rightarrow> real outcome" where
  "LaneInfo_GetEffectiveWidth s lane =
     bind_outcome (LaneInfo_GetWidth s lane) (\<lambda>(left_width, right_width). Inr (2 * min left_width right_width))"

definition LaneInfo_GetRoadWidth :: "real \<Rightarrow> lane_info \<Rightarrow> (real \<times> real) outcome" where
  "LaneInfo_GetRoadWidth s lane =
     bind_outcome (GetWidthFromSample (li_sampled_left_road_width lane) s)
       (\<lambda>left_width. bind_outcome (GetWidthFromSample (li_sampled_right_road_width lane) s)
          (\<lambda>right_width. Inr (left_width, right_width)))"

definition LaneInfo_GetRoadWidth_sum :: "real \<Rightarrow> lane_info \<Rightarrow> real outcome" where
  "LaneInfo_GetRoadWidth_sum s lane =
     bind_outcome (LaneInfo_GetRoadWidth s lane) (\<lambda>(left_width, right_width). Inr (left_width + right_width))"

section \<open>Headings and points along the lane\<close>

definition slerp :: "real \<Rightarrow> real \<Rightarrow> real \<Rightarrow> real \<Rightarrow> real \<Rightarrow> real" where
  "slerp a0 t0 a1 t1 t =
     (if \<bar>t1 - t0\<bar> \<le> kMathEpsilon then NormalizeAngle a0
      else
        let a0_n = NormalizeAngle a0;
            a1_n = NormalizeAngle a1;
            d = a1_n - a0_n;
            d = (if pi < d then d - 2 * pi else if d < - pi then d + 2 * pi else d);
            r = (t - t0) / (t1 - t0)
        in NormalizeAngle (a0_n + d * r))"

text \<open>The index that \<open>std::lower_bound\<close> finds in a sorted vector.\<close>

definition lower_index :: "real list \<Rightarrow> real \<Rightarrow> nat" where
  "lower_index xs s = length (takeWhile (\<lambda>x. x < s) xs)"

definition LaneInfo_Heading :: "real \<Rightarrow> lane_info \<Rightarrow> real outcome" where
  "LaneInfo_Heading s lane =
     (let accumulated_s = li_accumulated_s lane;
          headings = li_headings lane
      in if s + 1 / 1000 < hd accumulated_s then Inr 0
         else if last accumulated_s < s - 1 / 1000 then Inr 0
         else
           let index = lower_index accumulated_s s
           in if index = 0 then Inr (headings ! index)
              else if length accumulated_s \<le> index then Inl Undefined
              else if accumulated_s ! index - s \<le> kMathEpsilon then Inr (headings ! index)
              else Inr (slerp (headings ! (index - 1)) (accumulated_s ! (index - 1)) (headings ! index) (accumulated_s ! index) s))"

definition LaneInfo_Curvature :: "real \<Rightarrow> lane_info \<Rightarrow> real" where
  "LaneInfo_Curvature s lane =
     (let accumulated_s = li_accumulated_s lane;
          headings = li_headings lane;
          index = lower_index accumulated_s s
      in if length (li_points lane) < 2 then 0
         else if s + 1 / 1000 < hd accumulated_s then 0
         else if last accumulated_s + 1 / 1000 < s then 0
         else if index = length accumulated_s then 0
         else if index = 0 then 0
         else (headings ! index - headings ! (index - 1)) / (accumulated_s ! index - accumulated_s ! (index - 1) + 1 / 1000))"

text \<open>The empty point that is returned when there is no point is \<^term>\<open>None\<close>.\<close>

definition LaneInfo_GetSmoothPoint :: "real \<Rightarrow> lane_info \<Rightarrow> vec2d option" where
  "LaneInfo_GetSmoothPoint s lane =
     (let points = li_points lane;
          accumulated_s = li_accumulated_s lane
      in if length points < 2 then None
         else if s \<le> 0 then Some (hd points)
         else if li_total_length lane \<le> s then Some (last points)
         else
           let index = lower_index accumulated_s s
           in if index = length accumulated_s then None
              else
                let delta_s = accumulated_s ! index - s;
                    direction = li_unit_directions lane ! (index - 1)
                in if delta_s < kMathEpsilon then Some (points ! index)
                   else Some (Vec2d (vx (points ! index) - vx direction * delta_s) (vy (points ! index) - vy direction * delta_s)))"

section \<open>Projection\<close>

definition ProjectOntoUnit :: "line_segment2d \<Rightarrow> vec2d \<Rightarrow> real" where
  "ProjectOntoUnit seg p =
     vx (ls_unit_direction seg) * (vx p - vx (ls_start seg)) + vy (ls_unit_direction seg) * (vy p - vy (ls_start seg))"

definition ProductOntoUnit :: "line_segment2d \<Rightarrow> vec2d \<Rightarrow> real" where
  "ProductOntoUnit seg p =
     vx (ls_unit_direction seg) * (vy p - vy (ls_start seg)) - vy (ls_unit_direction seg) * (vx p - vx (ls_start seg))"

text \<open>The loop for the segment with the least distance, which is infinite, \<^term>\<open>None\<close>, at the start.\<close>

definition nearest_segment :: "vec2d \<Rightarrow> line_segment2d list \<Rightarrow> nat \<times> real option" where
  "nearest_segment p segments =
     fold (\<lambda>(i, seg) (min_index, min_dist).
             let distance = LineSegment2d_DistanceSquareTo seg p
             in if (case min_dist of None \<Rightarrow> True | Some d \<Rightarrow> distance < d) then (i, Some distance) else (min_index, min_dist))
       (List.enumerate 0 segments) (0, None)"

definition LaneInfo_GetProjection :: "vec2d \<Rightarrow> lane_info \<Rightarrow> (real \<times> real) option" where
  "LaneInfo_GetProjection p lane =
     (case nearest_segment p (li_segments lane) of
        (_, None) \<Rightarrow> None
      | (min_index, Some min_dist_sqr) \<Rightarrow>
          let min_dist = sqrt min_dist_sqr;
              nearest_seg = li_segments lane ! min_index;
              prod = ProductOntoUnit nearest_seg p;
              proj = ProjectOntoUnit nearest_seg p;
              side = (if 0 < prod then 1 else - 1) * min_dist
          in if min_index = 0
             then Some (min proj (ls_length nearest_seg), if proj < 0 then prod else side)
             else if min_index = length (li_segments lane) - 1
             then Some (li_accumulated_s lane ! min_index + max 0 proj, if 0 < proj then prod else side)
             else Some (li_accumulated_s lane ! min_index + max 0 (min proj (ls_length nearest_seg)), side))"

definition LaneInfo_IsOnLane :: "vec2d \<Rightarrow> lane_info \<Rightarrow> bool outcome" where
  "LaneInfo_IsOnLane p lane =
     (case LaneInfo_GetProjection p lane of
        None \<Rightarrow> Inr False
      | Some (accumulate_s, lateral) \<Rightarrow>
          if li_total_length lane + 1 / 10 < accumulate_s \<or> accumulate_s + 1 / 10 < 0 then Inr False
          else
            bind_outcome (LaneInfo_GetWidth accumulate_s lane)
              (\<lambda>(left_width, right_width). Inr (lateral < left_width \<and> - right_width < lateral)))"

section \<open>Widths are interpolated\<close>

lemma width_search_between:
  assumes "width_search samples s low high = (l, h)" and "low < high" "high \<le> length samples"
    and "fst (samples ! low) \<le> s" and "high = length samples \<or> s < fst (samples ! high)"
  shows "h = Suc l \<and> h \<le> length samples \<and> fst (samples ! l) \<le> s \<and> (h = length samples \<or> s < fst (samples ! h))"
  using assms
proof (induction samples s low high rule: width_search.induct)
  case (1 samples s low high)
  let ?mid = "(low + high) div 2"
  show ?case
  proof (cases "low + 1 < high")
    case True
    then have mid: "low < ?mid" "?mid < high" by simp_all
    show ?thesis
    proof (cases "fst (samples ! ?mid) \<le> s")
      case left: True
      have "width_search samples s ?mid high = (l, h)"
        using 1(3) True left by (simp add: width_search.simps [of samples s low high])
      from 1(1) [OF True refl left this] mid 1(5,7) left show ?thesis by auto
    next
      case right: False
      have "width_search samples s low ?mid = (l, h)"
        using 1(3) True right by (simp add: width_search.simps [of samples s low high])
      from 1(2) [OF True refl right this] mid 1(5,6) right show ?thesis by auto
    qed
  next
    case False
    then have "l = low" "h = high" using 1(3) by (simp_all add: width_search.simps [of samples s low high])
    with False 1(4-7) show ?thesis by simp
  qed
qed

lemma width_search_neighbours:
  assumes "samples \<noteq> []" and "fst (hd samples) < s" and "s < fst (last samples)"
  shows "\<exists>l. width_search samples s 0 (length samples) = (l, Suc l) \<and> Suc l < length samples
    \<and> fst (samples ! l) \<le> s \<and> s < fst (samples ! Suc l)"
proof -
  obtain l h where search: "width_search samples s 0 (length samples) = (l, h)" by (cases "width_search samples s 0 (length samples)")
  have "fst (samples ! 0) \<le> s" using assms(1,2) by (simp add: hd_conv_nth [symmetric])
  then have between: "h = Suc l" "h \<le> length samples" "fst (samples ! l) \<le> s" "h = length samples \<or> s < fst (samples ! h)"
    using width_search_between [OF search] assms(1) by auto
  have "h \<noteq> length samples"
  proof
    assume "h = length samples"
    with between(1) have "samples ! l = last samples" by (metis assms(1) diff_Suc_1 last_conv_nth)
    with between(3) assms(3) show False by simp
  qed
  with search between show ?thesis by auto
qed

lemma GetWidthFromSample_defined: "\<exists>w. GetWidthFromSample samples s = Inr w"
  using width_search_neighbours [of samples s] by (force simp: GetWidthFromSample_def Let_def)

lemma GetWidth_defined: "\<exists>left_width right_width. LaneInfo_GetWidth s lane = Inr (left_width, right_width)"
  using GetWidthFromSample_defined [of "li_sampled_left_width lane" s] GetWidthFromSample_defined [of "li_sampled_right_width lane" s]
  by (auto simp: LaneInfo_GetWidth_def)

lemma interpolation_between:
  fixes a b :: real
  assumes "0 \<le> r" "r \<le> 1"
  shows "min a b \<le> a * r + b * (1 - r)" "a * r + b * (1 - r) \<le> max a b"
proof -
  have "min a b = min a b * r + min a b * (1 - r)" "max a b = max a b * r + max a b * (1 - r)" by (simp_all add: algebra_simps)
  moreover have "min a b * r \<le> a * r" "min a b * (1 - r) \<le> b * (1 - r)" "a * r \<le> max a b * r" "b * (1 - r) \<le> max a b * (1 - r)"
    using assms by (auto intro: mult_right_mono)
  ultimately show "min a b \<le> a * r + b * (1 - r)" "a * r + b * (1 - r) \<le> max a b" by linarith+
qed

text \<open>
  C37: The width of a lane is defined for all samples and at every distance.  It is zero without samples; before the
  first and behind the last sample it is the width of that sample; in between it is interpolated between two neighbouring samples around
  the distance, so that it lies between their widths.
\<close>

theorem GetWidthFromSample_correct:
  "\<exists>w. GetWidthFromSample samples s = Inr w
    \<and> (samples = [] \<and> w = 0
       \<or> 0 < length samples \<and> s \<le> fst (hd samples) \<and> w = snd (hd samples)
       \<or> 0 < length samples \<and> fst (last samples) \<le> s \<and> w = snd (last samples)
       \<or> (\<exists>i x a y b. Suc i < length samples \<and> samples ! i = (x, a) \<and> samples ! Suc i = (y, b) \<and> x \<le> s \<and> s < y
            \<and> w * (y - x) = a * (y - s) + b * (s - x) \<and> min a b \<le> w \<and> w \<le> max a b))"
proof (cases "samples = [] \<or> s \<le> fst (hd samples) \<or> fst (last samples) \<le> s")
  case True
  then show ?thesis by (auto simp: GetWidthFromSample_def)
next
  case False
  then obtain l where l: "width_search samples s 0 (length samples) = (l, Suc l)" "Suc l < length samples"
      "fst (samples ! l) \<le> s" "s < fst (samples ! Suc l)"
    using width_search_neighbours [of samples s] by auto
  obtain x a y b where xy: "samples ! l = (x, a)" "samples ! Suc l = (y, b)" by (metis surj_pair)
  have order: "x \<le> s" "s < y" using l(3,4) xy by simp_all
  let ?r = "(y - s) / (y - x)"
  let ?w = "a * ?r + b * (1 - ?r)"
  have "GetWidthFromSample samples s = Inr ?w"
    using False l(1,2) xy by (simp add: GetWidthFromSample_def Let_def)
  moreover have "?w * (y - x) = a * (y - s) + b * (s - x)"
  proof -
    have "?r * (y - x) = y - s" using order by simp
    moreover have "?w * (y - x) = a * (?r * (y - x)) + b * ((y - x) - ?r * (y - x))" by (simp add: algebra_simps)
    ultimately show ?thesis by simp
  qed
  moreover have "0 \<le> ?r" "?r \<le> 1" using order by (simp_all add: divide_le_eq)
  note interpolation_between [OF this, of a b]
  ultimately show ?thesis using l(2) xy order by (intro exI [of _ ?w]) auto
qed

section \<open>Points along the lane\<close>

abbreviation seg_length :: "lane_info \<Rightarrow> nat \<Rightarrow> real" where
  "seg_length lane i \<equiv> Vec2d_DistanceTo (li_points lane ! i) (li_points lane ! Suc i)"

lemma lane_ok_segment:
  assumes "lane_ok lane" and "Suc i < length (li_points lane)"
  shows "kMathEpsilon < seg_length lane i" and "0 < seg_length lane i"
    and "li_segments lane ! i = LineSegment2d_new (li_points lane ! i) (li_points lane ! Suc i)"
    and "ls_length (li_segments lane ! i) = seg_length lane i"
    and "li_accumulated_s lane ! Suc i = li_accumulated_s lane ! i + seg_length lane i"
proof -
  show long: "kMathEpsilon < seg_length lane i" using assms by (simp only: lane_ok_def)
  then show "0 < seg_length lane i" by (rule less_trans [rotated]) simp
  show "li_segments lane ! i = LineSegment2d_new (li_points lane ! i) (li_points lane ! Suc i)"
    using assms by (simp add: lane_ok_def)
  then show "ls_length (li_segments lane ! i) = seg_length lane i" by (simp add: segment_length)
  show "li_accumulated_s lane ! Suc i = li_accumulated_s lane ! i + seg_length lane i"
    using assms by (simp add: lane_ok_def)
qed

lemma lane_ok_lengths:
  assumes "lane_ok lane"
  shows "2 \<le> length (li_points lane)" "length (li_accumulated_s lane) = length (li_points lane)"
    "length (li_segments lane) = length (li_points lane) - 1" "length (li_headings lane) = length (li_points lane)"
    "li_accumulated_s lane ! 0 = 0" "hd (li_accumulated_s lane) = 0" "last (li_accumulated_s lane) = li_total_length lane"
    "li_accumulated_s lane ! (length (li_points lane) - 1) = li_total_length lane"
proof -
  show two: "2 \<le> length (li_points lane)" and len: "length (li_accumulated_s lane) = length (li_points lane)"
    and "length (li_segments lane) = length (li_points lane) - 1" and "length (li_headings lane) = length (li_points lane)"
    and last: "last (li_accumulated_s lane) = li_total_length lane" using assms by (simp_all add: lane_ok_def)
  have ne: "li_accumulated_s lane \<noteq> []" using two len by auto
  have "0 < length (li_points lane)" using two by linarith
  then show zero: "li_accumulated_s lane ! 0 = 0" using assms by (simp add: lane_ok_def)
  then show "hd (li_accumulated_s lane) = 0" using ne by (simp add: hd_conv_nth)
  show "li_accumulated_s lane ! (length (li_points lane) - 1) = li_total_length lane"
    using last last_conv_nth [OF ne] len by simp
qed

lemma accumulated_mono:
  assumes "lane_ok lane" and "i < j" and "j < length (li_points lane)"
  shows "li_accumulated_s lane ! i < li_accumulated_s lane ! j"
  using assms(2,3)
proof (induction j)
  case (Suc j)
  have "li_accumulated_s lane ! j < li_accumulated_s lane ! Suc j"
    using lane_ok_segment(2,5) [OF assms(1) Suc.prems(2)] by simp
  with Suc show ?case by (cases "i = j") auto
qed simp

lemma accumulated_range:
  assumes "lane_ok lane" and "i < length (li_points lane)"
  shows "0 \<le> li_accumulated_s lane ! i" "li_accumulated_s lane ! i \<le> li_total_length lane"
proof -
  note lengths = lane_ok_lengths [OF assms(1)]
  show "0 \<le> li_accumulated_s lane ! i"
    using accumulated_mono [OF assms(1), of 0 i] assms(2) lengths(5) by (cases "i = 0") auto
  show "li_accumulated_s lane ! i \<le> li_total_length lane"
  proof (cases "i = length (li_points lane) - 1")
    case False
    then have "i < length (li_points lane) - 1" "length (li_points lane) - 1 < length (li_points lane)" using assms(2) by linarith+
    from accumulated_mono [OF assms(1) this] lengths(8) show ?thesis by simp
  qed (use lengths(8) in simp)
qed

lemma segment_arc:
  assumes "lane_ok lane" and "Suc i < length (li_points lane)"
  defines "a \<equiv> li_accumulated_s lane ! i"
  shows "0 \<le> a" "a + seg_length lane i \<le> li_total_length lane" "i = 0 \<longrightarrow> a = 0"
    "i = length (li_segments lane) - 1 \<longrightarrow> a + seg_length lane i = li_total_length lane"
proof -
  note lengths = lane_ok_lengths [OF assms(1)] and seg = lane_ok_segment(5) [OF assms(1,2)]
  show "0 \<le> a" "a + seg_length lane i \<le> li_total_length lane" "i = 0 \<longrightarrow> a = 0"
    using accumulated_range [OF assms(1), of i] accumulated_range [OF assms(1,2)] assms(2) seg lengths(5) by (simp_all add: a_def)
  show "i = length (li_segments lane) - 1 \<longrightarrow> a + seg_length lane i = li_total_length lane"
  proof
    assume "i = length (li_segments lane) - 1"
    then have "Suc i = length (li_points lane) - 1" using lengths(1,3) by simp
    then show "a + seg_length lane i = li_total_length lane" using seg lengths(8) by (simp add: a_def)
  qed
qed

lemma lower_index_bounds:
  "lower_index xs s \<le> length xs" "j < lower_index xs s \<Longrightarrow> xs ! j < s"
  "lower_index xs s < length xs \<Longrightarrow> s \<le> xs ! lower_index xs s"
proof -
  show "lower_index xs s \<le> length xs" by (simp add: lower_index_def length_takeWhile_le)
  show "xs ! j < s" if "j < lower_index xs s"
    using that nth_mem [of j "takeWhile (\<lambda>x. x < s) xs"] takeWhile_nth [of j "\<lambda>x. x < s" xs]
    by (auto simp: lower_index_def dest: set_takeWhileD)
  show "s \<le> xs ! lower_index xs s" if "lower_index xs s < length xs"
    using that nth_length_takeWhile [of "\<lambda>x. x < s" xs] by (simp add: lower_index_def)
qed

text \<open>A distance between the ends of a lane lies on one of its segments.\<close>

lemma lower_index_inside:
  assumes "lane_ok lane" and "0 < s" "s \<le> li_total_length lane"
  obtains k where "lower_index (li_accumulated_s lane) s = Suc k" "Suc k < length (li_points lane)"
    "li_accumulated_s lane ! k < s" "s \<le> li_accumulated_s lane ! Suc k"
proof -
  let ?acc = "li_accumulated_s lane"
  note lengths = lane_ok_lengths [OF assms(1)]
  have "lower_index ?acc s \<noteq> 0"
  proof
    assume zero: "lower_index ?acc s = 0"
    have "s \<le> ?acc ! lower_index ?acc s" by (rule lower_index_bounds(3)) (use zero lengths(1,2) in linarith)
    with zero lengths(5) assms(2) show False by simp
  qed
  then obtain k where k: "lower_index ?acc s = Suc k" by (cases "lower_index ?acc s") auto
  have "lower_index ?acc s \<noteq> length ?acc"
  proof
    assume "lower_index ?acc s = length ?acc"
    then have "?acc ! (length (li_points lane) - 1) < s" using lengths(1,2) by (intro lower_index_bounds(2)) auto
    with lengths(8) assms(3) show False by simp
  qed
  then have "Suc k < length ?acc" using lower_index_bounds(1) [of ?acc s] k by simp
  moreover have "?acc ! k < s" by (rule lower_index_bounds(2)) (simp add: k)
  moreover have "s \<le> ?acc ! Suc k" using lower_index_bounds(3) [of ?acc s] \<open>Suc k < length ?acc\<close> k by simp
  ultimately show thesis using that k lengths(2) by simp
qed

lemma on_lane_segment:
  assumes "lane_ok lane" and "Suc i < length (li_points lane)" and "0 \<le> t" "t \<le> 1"
  shows "on_lane lane (point_at (li_points lane ! i) (li_points lane ! Suc i) t) (li_accumulated_s lane ! i + t * seg_length lane i)"
proof -
  have "li_accumulated_s lane ! i = (\<Sum>j<i. seg_length lane j)" using assms(1,2) by (simp add: lane_ok_def)
  with assms(2-4) show ?thesis unfolding on_lane_def by auto
qed

lemma smooth_point_on_segment:
  assumes "lane_ok lane" and "Suc k < length (li_points lane)" and "li_accumulated_s lane ! k \<le> s" "s \<le> li_accumulated_s lane ! Suc k"
  defines "direction \<equiv> li_unit_directions lane ! k" and "delta \<equiv> li_accumulated_s lane ! Suc k - s"
  shows "on_lane lane (Vec2d (vx (li_points lane ! Suc k) - vx direction * delta) (vy (li_points lane ! Suc k) - vy direction * delta)) s"
proof -
  let ?p = "li_points lane ! k" and ?q = "li_points lane ! Suc k" and ?l = "seg_length lane k"
  note seg = lane_ok_segment [OF assms(1,2)]
  have dir: "direction = ls_unit_direction (LineSegment2d_new ?p ?q)" using assms(1,2) seg(3) by (simp add: lane_ok_def direction_def)
  have "kMathEpsilon < ls_length (LineSegment2d_new ?p ?q)" using seg(1) by (simp only: segment_length)
  note coords = segment_coordinates(2,3) [OF this, folded dir, unfolded segment_length]
  have eq: "vx ?q = vx ?p + ?l * vx direction" "vy ?q = vy ?p + ?l * vy direction" using coords by (simp_all add: algebra_simps)
  let ?t = "1 - delta / ?l"
  have delta: "0 \<le> delta" "delta \<le> ?l" using assms(3,4) seg(5) by (simp_all add: delta_def)
  have "?t * ?l = ?l - delta" using seg(2) by (simp add: algebra_simps)
  then have "point_at ?p ?q ?t = Vec2d (vx ?q - vx direction * delta) (vy ?q - vy direction * delta)"
    using eq coords unfolding point_at_def by (simp add: algebra_simps)
  moreover have "li_accumulated_s lane ! k + ?t * ?l = s" using \<open>?t * ?l = ?l - delta\<close> seg(5) by (simp add: delta_def)
  moreover have "0 \<le> ?t" "?t \<le> 1" using delta seg(2) by (simp_all add: divide_le_eq)
  ultimately show ?thesis using on_lane_segment [OF assms(1,2), of ?t] by simp
qed

lemma GetSmoothPoint_inside:
  assumes ok: "lane_ok lane" and s: "0 < s" "s < li_total_length lane"
  shows "\<exists>q s'. LaneInfo_GetSmoothPoint s lane = Some q \<and> on_lane lane q s' \<and> \<bar>s' - s\<bar> \<le> kMathEpsilon"
proof -
  note lengths = lane_ok_lengths [OF ok]
  have short: "\<not> length (li_points lane) < 2" using lengths(1) by simp
  obtain k where k: "lower_index (li_accumulated_s lane) s = Suc k" "Suc k < length (li_points lane)"
      "li_accumulated_s lane ! k < s" "s \<le> li_accumulated_s lane ! Suc k"
    using s by (elim lower_index_inside [OF ok, of s]) auto
  let ?delta = "li_accumulated_s lane ! Suc k - s"
  show ?thesis
  proof (cases "?delta < kMathEpsilon")
    case True
    then have "LaneInfo_GetSmoothPoint s lane = Some (li_points lane ! Suc k)"
      using s k short lengths(2) by (simp add: LaneInfo_GetSmoothPoint_def Let_def)
    moreover have "on_lane lane (li_points lane ! Suc k) (li_accumulated_s lane ! Suc k)"
      using on_lane_segment [OF ok k(2), of 1] lane_ok_segment(5) [OF ok k(2)] by simp
    moreover have "\<bar>li_accumulated_s lane ! Suc k - s\<bar> \<le> kMathEpsilon" using True k(4) by linarith
    ultimately show ?thesis by blast
  next
    case False
    then have "LaneInfo_GetSmoothPoint s lane = Some (Vec2d (vx (li_points lane ! Suc k) - vx (li_unit_directions lane ! k) * ?delta)
        (vy (li_points lane ! Suc k) - vy (li_unit_directions lane ! k) * ?delta))"
      using s k short lengths(2) by (simp add: LaneInfo_GetSmoothPoint_def Let_def)
    moreover have "\<bar>s - s\<bar> \<le> kMathEpsilon" by simp
    ultimately show ?thesis using smooth_point_on_segment [OF ok k(2) less_imp_le [OF k(3)] k(4)] by blast
  qed
qed

text \<open>
  The point at a distance along a lane lies on the lane at this distance, up to the tolerance of the code, where
  a distance before the beginning or behind the end counts as the nearer end.
\<close>

theorem GetSmoothPoint_correct:
  assumes "LaneInfo_Init lane_id msg = Some (Inr lane)"
  shows "\<exists>q s'. LaneInfo_GetSmoothPoint s lane = Some q \<and> on_lane lane q s'
    \<and> \<bar>s' - max 0 (min (li_total_length lane) s)\<bar> \<le> kMathEpsilon"
proof -
  have ok: "lane_ok lane" by (rule LaneInfo_Init_ok [OF assms])
  note lengths = lane_ok_lengths [OF ok]
  have total: "0 \<le> li_total_length lane" using accumulated_range [OF ok, of "length (li_points lane) - 1"] lengths(1,8) by auto
  have short: "\<not> length (li_points lane) < 2" and one: "Suc 0 < length (li_points lane)" and ne: "li_points lane \<noteq> []"
    using lengths(1) by auto
  consider "s \<le> 0" | "0 < s" "li_total_length lane \<le> s" | "0 < s" "s < li_total_length lane" by linarith
  then show ?thesis
  proof cases
    case 1
    have "on_lane lane (hd (li_points lane)) 0"
      using on_lane_segment [OF ok one, of 0] lengths(5) ne by (simp add: hd_conv_nth)
    with 1 short total show ?thesis
      by (intro exI [of _ "hd (li_points lane)"] exI [of _ 0]) (simp add: LaneInfo_GetSmoothPoint_def)
  next
    case 2
    define i where "i = length (li_points lane) - 2"
    have i: "Suc i = length (li_points lane) - 1" "Suc i < length (li_points lane)" using lengths(1) by (simp_all add: i_def)
    have "on_lane lane (last (li_points lane)) (li_total_length lane)"
      using on_lane_segment [OF ok i(2), of 1] lane_ok_segment(5) [OF ok i(2)] i(1) lengths(8) ne by (simp add: last_conv_nth)
    with 2 short total show ?thesis
      by (intro exI [of _ "last (li_points lane)"] exI [of _ "li_total_length lane"]) (simp add: LaneInfo_GetSmoothPoint_def)
  next
    case 3
    with GetSmoothPoint_inside [OF ok 3] show ?thesis by (simp add: max_def min_def)
  qed
qed

lemma sample_lane_init: "\<exists>lane. LaneInfo_Init ''a'' (sample_lane [Some [Vec2d 0 0, Vec2d 10 0]]) = Some (Inr lane)"
  using LaneInfo_Init_cases [of "sample_lane [Some [Vec2d 0 0, Vec2d 10 0]]" "''a''"]
  by (auto simp: sample_lane_def PointsFromCurve_def RemoveDuplicates_def Vec2d_DistanceSquareTo_def)

theorem GetSmoothPoint_correct_witness:
  "\<exists>lane q s'. LaneInfo_Init ''a'' (sample_lane [Some [Vec2d 0 0, Vec2d 10 0]]) = Some (Inr lane)
    \<and> LaneInfo_GetSmoothPoint 3 lane = Some q \<and> on_lane lane q s' \<and> \<bar>s' - max 0 (min (li_total_length lane) 3)\<bar> \<le> kMathEpsilon"
  using sample_lane_init GetSmoothPoint_correct by blast

text \<open>
  C38: The heading of a lane is not defined just behind its end.  For a distance that exceeds the length of the lane by
  at most one millimetre, which the code means to accept, it reads past the end of its arrays; for every other
  distance it returns an angle.
\<close>

theorem Heading_behind_end:
  assumes "LaneInfo_Init lane_id msg = Some (Inr lane)"
  shows "LaneInfo_Heading s lane = Inl Undefined \<longleftrightarrow> li_total_length lane < s \<and> s \<le> li_total_length lane + 1 / 1000"
proof -
  have ok: "lane_ok lane" by (rule LaneInfo_Init_ok [OF assms])
  note lengths = lane_ok_lengths [OF ok]
  have total: "0 \<le> li_total_length lane" using accumulated_range [OF ok, of "length (li_points lane) - 1"] lengths(1,8) by auto
  show ?thesis
  proof (cases "li_total_length lane < s")
    case True
    have "x < s" if "x \<in> set (li_accumulated_s lane)" for x
      using that accumulated_range(2) [OF ok] lengths(2) True by (fastforce simp: in_set_conv_nth)
    then have "lower_index (li_accumulated_s lane) s = length (li_accumulated_s lane)"
      by (simp add: lower_index_def takeWhile_eq_all_conv [THEN iffD2])
    with True lengths(1,2,6,7) total show ?thesis by (auto simp: LaneInfo_Heading_def Let_def)
  next
    case False
    have "lower_index (li_accumulated_s lane) s < length (li_accumulated_s lane)" if "0 < lower_index (li_accumulated_s lane) s"
    proof -
      have "li_accumulated_s lane ! 0 < s" using that by (rule lower_index_bounds(2))
      with lengths(5) have "0 < s" by simp
      with False obtain k where "lower_index (li_accumulated_s lane) s = Suc k" "Suc k < length (li_points lane)"
        by (elim lower_index_inside [OF ok, of s]) auto
      then show ?thesis using lengths(2) by simp
    qed
    with False show ?thesis by (auto simp: LaneInfo_Heading_def Let_def)
  qed
qed

theorem Heading_behind_end_witness:
  "\<exists>lane. LaneInfo_Init ''a'' (sample_lane [Some [Vec2d 0 0, Vec2d 10 0]]) = Some (Inr lane)
    \<and> LaneInfo_Heading (li_total_length lane + 1 / 2000) lane = Inl Undefined"
proof -
  obtain lane where init: "LaneInfo_Init ''a'' (sample_lane [Some [Vec2d 0 0, Vec2d 10 0]]) = Some (Inr lane)" using sample_lane_init by blast
  from Heading_behind_end [OF init, of "li_total_length lane + 1 / 2000"] init show ?thesis by auto
qed

section \<open>The projection is nearest\<close>

lemma nearest_segment_correct:
  assumes "segments \<noteq> []"
  shows "\<exists>i. nearest_segment p segments = (i, Some (LineSegment2d_DistanceSquareTo (segments ! i) p)) \<and> i < length segments
    \<and> (\<forall>j < length segments. LineSegment2d_DistanceSquareTo (segments ! i) p \<le> LineSegment2d_DistanceSquareTo (segments ! j) p)"
  using assms
proof (induction segments rule: rev_induct)
  case (snoc seg segments)
  let ?d = "\<lambda>seg. LineSegment2d_DistanceSquareTo seg p"
  have last: "nearest_segment p (segments @ [seg]) = (case nearest_segment p segments of (i, m) \<Rightarrow>
      if (case m of None \<Rightarrow> True | Some d \<Rightarrow> ?d seg < d) then (length segments, Some (?d seg)) else (i, m))"
    by (simp add: nearest_segment_def enumerate_append_eq Let_def)
  show ?case
  proof (cases "segments = []")
    case True
    then have "nearest_segment p segments = (0, None)" by (simp add: nearest_segment_def)
    with last True show ?thesis by simp
  next
    case False
    then obtain i where i: "nearest_segment p segments = (i, Some (?d (segments ! i)))" "i < length segments"
        "\<forall>j < length segments. ?d (segments ! i) \<le> ?d (segments ! j)" using snoc.IH by blast
    show ?thesis
    proof (cases "?d seg < ?d (segments ! i)")
      case True
      then have "?d seg \<le> ?d ((segments @ [seg]) ! j)" if "j < length (segments @ [seg])" for j
        using that i(3) by (cases "j < length segments") (force simp: nth_append)+
      with True show ?thesis by (intro exI [of _ "length segments"]) (simp add: last i(1))
    next
      case False
      then have "?d ((segments @ [seg]) ! i) \<le> ?d ((segments @ [seg]) ! j)" if "j < length (segments @ [seg])" for j
        using that i(2,3) by (cases "j < length segments") (auto simp: nth_append)
      with False i(2) show ?thesis by (intro exI [of _ i]) (simp add: last i(1) nth_append)
    qed
  qed
qed simp

text \<open>The nearest point of a segment, in coordinates along the segment and across it.\<close>

lemma projection_coordinates:
  fixes p :: vec2d
  assumes "lane_ok lane" and "Suc i < length (li_points lane)"
  defines "seg \<equiv> li_segments lane ! i"
  defines "q \<equiv> point_at (li_points lane ! i) (li_points lane ! Suc i) (nearest_ratio seg p)"
  defines "foot \<equiv> max 0 (min (seg_length lane i) (ProjectOntoUnit seg p))"
  shows "LineSegment2d_DistanceSquareTo seg p = Vec2d_DistanceSquareTo p q"
    and "on_lane lane q (li_accumulated_s lane ! i + foot)"
    and "Vec2d_DistanceSquareTo p q = (ProductOntoUnit seg p)\<^sup>2 + (ProjectOntoUnit seg p - foot)\<^sup>2"
proof -
  note seg = lane_ok_segment [OF assms(1,2)]
  have seg_def: "seg = LineSegment2d_new (li_points lane ! i) (li_points lane ! Suc i)" by (simp add: assms(3) seg(3))
  show "LineSegment2d_DistanceSquareTo seg p = Vec2d_DistanceSquareTo p q"
    unfolding q_def seg_def by (rule segment_distance_attained)
  have len: "ls_length seg = seg_length lane i" by (simp add: seg_def segment_length)
  have foot: "nearest_ratio seg p * seg_length lane i = foot"
    using seg(1,2) by (auto simp: nearest_ratio_def foot_def ProjectOntoUnit_def Let_def len mult.commute)
  show "on_lane lane q (li_accumulated_s lane ! i + foot)"
    using on_lane_segment [OF assms(1,2) nearest_ratio_bounds [of seg p]] unfolding q_def foot .
  have "kMathEpsilon < ls_length (LineSegment2d_new (li_points lane ! i) (li_points lane ! Suc i))" using seg(1) len by (simp only: seg_def)
  from distance_to_point_at [OF this, of p "nearest_ratio seg p", folded seg_def q_def, unfolded len foot]
  show "Vec2d_DistanceSquareTo p q = (ProductOntoUnit seg p)\<^sup>2 + (ProjectOntoUnit seg p - foot)\<^sup>2"
    by (simp add: ProductOntoUnit_def ProjectOntoUnit_def seg_def power2_commute mult.commute)
qed

lemma lane_nearest_point:
  assumes ok: "lane_ok lane" and i: "Suc i < length (li_points lane)"
    and least: "\<forall>j < length (li_segments lane). LineSegment2d_DistanceSquareTo (li_segments lane ! i) p \<le> LineSegment2d_DistanceSquareTo (li_segments lane ! j) p"
    and "on_lane lane q' s'"
  shows "LineSegment2d_DistanceSquareTo (li_segments lane ! i) p \<le> Vec2d_DistanceSquareTo p q'"
proof -
  from assms(4) obtain j t where j: "Suc j < length (li_points lane)" "0 \<le> t" "t \<le> 1"
      "q' = point_at (li_points lane ! j) (li_points lane ! Suc j) t" by (auto simp: on_lane_def)
  note seg = lane_ok_segment [OF ok j(1)]
  have "j < length (li_segments lane)" using j(1) lane_ok_lengths(3) [OF ok] by simp
  with least have "LineSegment2d_DistanceSquareTo (li_segments lane ! i) p \<le> LineSegment2d_DistanceSquareTo (li_segments lane ! j) p" by blast
  also have "\<dots> \<le> Vec2d_DistanceSquareTo p q'"
    unfolding j(4) seg(3) by (rule segment_distance_minimal [OF _ j(2,3)]) (use seg(1) in \<open>simp only: segment_length\<close>)
  finally show ?thesis .
qed

text \<open>The numbers that the projection returns; the first and the last segment are treated apart.\<close>

lemma projection_numbers:
  fixes a len total d proj prod side :: real
  assumes "0 \<le> a" "0 < len" "a + len \<le> total" "first \<longrightarrow> a = 0" "final \<longrightarrow> a + len = total"
    and "\<bar>prod\<bar> \<le> d" "0 \<le> proj \<and> proj \<le> len \<longrightarrow> \<bar>prod\<bar> = d" "\<bar>side\<bar> = d"
    and s: "s = (if first then min proj len else if final then a + max 0 proj else a + max 0 (min proj len))"
    and l: "l = (if first then (if proj < 0 then prod else side) else if final then (if 0 < proj then prod else side) else side)"
  shows "max 0 (min total s) = a + max 0 (min len proj)" and "\<bar>l\<bar> \<le> d" and "0 \<le> s \<Longrightarrow> s \<le> total \<Longrightarrow> \<bar>l\<bar> = d"
proof -
  show "max 0 (min total s) = a + max 0 (min len proj)" using assms(1-5) by (auto simp: s max_def min_def)
  show "\<bar>l\<bar> \<le> d" using assms(6,8) by (simp add: l)
  show "\<bar>l\<bar> = d" if "0 \<le> s" "s \<le> total"
    using that assms(1-5,7,8) by (cases first; cases final) (auto simp: s l max_def min_def split: if_splits)
qed

text \<open>
  C15: The projection of a point to a lane gives the arc length of a nearest point of the lane, beyond the ends of the lane
  that of the nearer end, and a lateral offset whose size is at most the distance to this point, and equal to
  it when the projection falls between the ends.
\<close>

theorem GetProjection_correct:
  assumes "LaneInfo_Init lane_id msg = Some (Inr lane)"
  shows "\<exists>s l q. LaneInfo_GetProjection p lane = Some (s, l) \<and> on_lane lane q (max 0 (min (li_total_length lane) s))
    \<and> (\<forall>q' s'. on_lane lane q' s' \<longrightarrow> Vec2d_DistanceTo p q \<le> Vec2d_DistanceTo p q')
    \<and> \<bar>l\<bar> \<le> Vec2d_DistanceTo p q \<and> (0 \<le> s \<and> s \<le> li_total_length lane \<longrightarrow> \<bar>l\<bar> = Vec2d_DistanceTo p q)"
proof -
  have ok: "lane_ok lane" by (rule LaneInfo_Init_ok [OF assms])
  note lengths = lane_ok_lengths [OF ok]
  have "li_segments lane \<noteq> []" using lengths(1,3) by auto
  from nearest_segment_correct [OF this, of p] obtain i
    where near: "nearest_segment p (li_segments lane) = (i, Some (LineSegment2d_DistanceSquareTo (li_segments lane ! i) p))"
      and i: "i < length (li_segments lane)"
      and least: "\<forall>j < length (li_segments lane). LineSegment2d_DistanceSquareTo (li_segments lane ! i) p \<le> LineSegment2d_DistanceSquareTo (li_segments lane ! j) p"
    by blast
  have Suc: "Suc i < length (li_points lane)" using i lengths(3) by simp
  let ?seg = "li_segments lane ! i"
  let ?q = "point_at (li_points lane ! i) (li_points lane ! Suc i) (nearest_ratio ?seg p)"
  let ?proj = "ProjectOntoUnit ?seg p" and ?prod = "ProductOntoUnit ?seg p" and ?l = "seg_length lane i" and ?a = "li_accumulated_s lane ! i"
  let ?side = "(if 0 < ?prod then 1 else - 1) * Vec2d_DistanceTo p ?q"
  note coords = projection_coordinates [OF ok Suc, of p]
  note seg = lane_ok_segment [OF ok Suc]
  have dist: "sqrt (LineSegment2d_DistanceSquareTo ?seg p) = Vec2d_DistanceTo p ?q" by (simp only: coords(1) DistanceTo_sqrt)
  have least': "Vec2d_DistanceTo p ?q \<le> Vec2d_DistanceTo p q'" if "on_lane lane q' s'" for q' s'
    using lane_nearest_point [OF ok Suc least that] by (simp only: coords(1) DistanceTo_sqrt real_sqrt_le_iff)
  have prod: "\<bar>?prod\<bar> \<le> Vec2d_DistanceTo p ?q" "0 \<le> ?proj \<and> ?proj \<le> ?l \<longrightarrow> \<bar>?prod\<bar> = Vec2d_DistanceTo p ?q"
    unfolding DistanceTo_sqrt coords(3) by (simp_all add: real_le_rsqrt max_def min_def)
  have side: "\<bar>?side\<bar> = Vec2d_DistanceTo p ?q" by (simp add: DistanceTo_sqrt)
  let ?s = "if i = 0 then min ?proj ?l else if i = length (li_segments lane) - 1 then ?a + max 0 ?proj else ?a + max 0 (min ?proj ?l)"
  let ?lat = "if i = 0 then (if ?proj < 0 then ?prod else ?side)
    else if i = length (li_segments lane) - 1 then (if 0 < ?proj then ?prod else ?side) else ?side"
  have result: "LaneInfo_GetProjection p lane = Some (?s, ?lat)"
    unfolding LaneInfo_GetProjection_def near Let_def prod.case option.case dist seg(4)
    by (cases "i = 0"; cases "i = length (li_segments lane) - 1") (simp_all only: if_True if_False simp_thms)
  note numbers = projection_numbers [OF segment_arc(1) [OF ok Suc] seg(2) segment_arc(2-4) [OF ok Suc] prod side refl refl]
  show ?thesis
  proof (intro exI conjI allI impI)
    show "LaneInfo_GetProjection p lane = Some (?s, ?lat)" by (rule result)
    show "on_lane lane ?q (max 0 (min (li_total_length lane) ?s))" unfolding numbers(1) by (rule coords(2))
    show "Vec2d_DistanceTo p ?q \<le> Vec2d_DistanceTo p q'" if "on_lane lane q' s'" for q' s' using that by (rule least')
    show "\<bar>?lat\<bar> \<le> Vec2d_DistanceTo p ?q" by (rule numbers(2))
    show "\<bar>?lat\<bar> = Vec2d_DistanceTo p ?q" if "0 \<le> ?s \<and> ?s \<le> li_total_length lane"
      using that by (intro numbers(3)) simp_all
  qed
qed

theorem GetProjection_correct_witness:
  "\<exists>lane s l q. LaneInfo_Init ''a'' (sample_lane [Some [Vec2d 0 0, Vec2d 10 0]]) = Some (Inr lane)
    \<and> LaneInfo_GetProjection (Vec2d 3 4) lane = Some (s, l) \<and> on_lane lane q (max 0 (min (li_total_length lane) s))
    \<and> (\<forall>q' s'. on_lane lane q' s' \<longrightarrow> Vec2d_DistanceTo (Vec2d 3 4) q \<le> Vec2d_DistanceTo (Vec2d 3 4) q')
    \<and> \<bar>l\<bar> \<le> Vec2d_DistanceTo (Vec2d 3 4) q"
proof -
  obtain lane where init: "LaneInfo_Init ''a'' (sample_lane [Some [Vec2d 0 0, Vec2d 10 0]]) = Some (Inr lane)" using sample_lane_init by blast
  from GetProjection_correct [OF init, of "Vec2d 3 4"] init show ?thesis by blast
qed

section \<open>Behind the end of a lane\<close>

lemma horizontal_segment:
  assumes "kMathEpsilon < b - a"
  shows "LineSegment2d_new (Vec2d a 0) (Vec2d b 0)
    = \<lparr>ls_start = Vec2d a 0, ls_end = Vec2d b 0, ls_unit_direction = Vec2d 1 0, ls_length = b - a\<rparr>"
proof -
  have "0 < b - a" using assms by (rule less_trans [rotated]) simp
  with assms show ?thesis by (simp add: LineSegment2d_new_def Let_def)
qed

lemma sample_lane_fields:
  assumes "LaneInfo_Init lane_id (sample_lane curve) = Some (Inr lane)"
  shows "lane_ok lane" "li_points lane = PointsFromCurve curve" "LaneInfo_GetWidth s lane = Inr (2, 2)"
  using LaneInfo_Init_cases [of "sample_lane curve" lane_id] assms
  by (auto simp: sample_lane_def LaneInfo_GetWidth_def GetWidthFromSample_def split: if_splits)


end
