(* ===== verification/Curves.thy ===== *)
theory Curves
  imports Complex_Main Prelude
begin

text \<open>
  The polynomials from which the planner builds trajectories
  (\<open>modules/planning/math/curve1d/cubic_polynomial_curve1d.cc\<close>, \<open>quartic_polynomial_curve1d.cc\<close>,
  \<open>quintic_polynomial_curve1d.cc\<close>).  A \<open>double\<close> is a real number; rounding is not modelled.  The array of
  coefficients is a list with the lowest coefficient first.  A failed \<open>CHECK\<close> exits; the \<open>DCHECK\<close> of the
  cubic curve is compiled out, as in a release build.

  The theory shows that each order of \<open>Evaluate\<close> is the derivative of the one before, that every way of
  computing the coefficients meets the conditions at both ends, and that integrating undoes deriving.
\<close>

section \<open>The curves\<close>

record poly_curve =
  pc_coef :: "real list"
  pc_param :: real
  pc_start_condition :: "real list"
  pc_end_condition :: "real list"

definition cubic_coefficients :: "real \<Rightarrow> real \<Rightarrow> real \<Rightarrow> real \<Rightarrow> real \<Rightarrow> real list" where
  "cubic_coefficients x0 dx0 ddx0 x1 param =
     (let p2 = param * param;
          p3 = param * p2;
          c2 = 1 / 2 * ddx0
      in [x0, dx0, c2, (x1 - x0 - dx0 * param - c2 * p2) / p3])"

definition CubicPolynomialCurve1d_new :: "real \<Rightarrow> real \<Rightarrow> real \<Rightarrow> real \<Rightarrow> real \<Rightarrow> poly_curve" where
  "CubicPolynomialCurve1d_new x0 dx0 ddx0 x1 param =
     \<lparr>pc_coef = cubic_coefficients x0 dx0 ddx0 x1 param, pc_param = param,
      pc_start_condition = [x0, dx0, ddx0], pc_end_condition = [x1]\<rparr>"

definition Cubic_Evaluate :: "nat \<Rightarrow> real \<Rightarrow> poly_curve \<Rightarrow> real" where
  "Cubic_Evaluate order p c =
     (let coef = (!) (pc_coef c)
      in if order = 0 then ((coef 3 * p + coef 2) * p + coef 1) * p + coef 0
         else if order = 1 then (3 * coef 3 * p + 2 * coef 2) * p + coef 1
         else if order = 2 then 6 * coef 3 * p + 2 * coef 2
         else if order = 3 then 6 * coef 3
         else 0)"

definition quartic_coefficients :: "real \<Rightarrow> real \<Rightarrow> real \<Rightarrow> real \<Rightarrow> real \<Rightarrow> real \<Rightarrow> real list" where
  "quartic_coefficients x0 dx0 ddx0 dx1 ddx1 p =
     (let b0 = dx1 - ddx0 * p - dx0;
          b1 = ddx1 - ddx0;
          p2 = p * p;
          p3 = p2 * p
      in [x0, dx0, 1 / 2 * ddx0, (3 * b0 - b1 * p) / (3 * p2), (- 2 * b0 + b1 * p) / (4 * p3)])"

definition QuarticPolynomialCurve1d_new :: "real \<Rightarrow> real \<Rightarrow> real \<Rightarrow> real \<Rightarrow> real \<Rightarrow> real \<Rightarrow> poly_curve outcome" where
  "QuarticPolynomialCurve1d_new x0 dx0 ddx0 dx1 ddx1 param =
     (if 0 < param
      then Inr \<lparr>pc_coef = quartic_coefficients x0 dx0 ddx0 dx1 ddx1 param, pc_param = param,
                pc_start_condition = [x0, dx0, ddx0], pc_end_condition = [dx1, ddx1]\<rparr>
      else Inl Exit)"

definition Quartic_Evaluate :: "nat \<Rightarrow> real \<Rightarrow> poly_curve \<Rightarrow> real" where
  "Quartic_Evaluate order p c =
     (let coef = (!) (pc_coef c)
      in if order = 0 then (((coef 4 * p + coef 3) * p + coef 2) * p + coef 1) * p + coef 0
         else if order = 1 then ((4 * coef 4 * p + 3 * coef 3) * p + 2 * coef 2) * p + coef 1
         else if order = 2 then (12 * coef 4 * p + 6 * coef 3) * p + 2 * coef 2
         else if order = 3 then 24 * coef 4 * p + 6 * coef 3
         else if order = 4 then 24 * coef 4
         else 0)"

definition FitWithEndPointFirstOrder ::
    "real \<Rightarrow> real \<Rightarrow> real \<Rightarrow> real \<Rightarrow> real \<Rightarrow> real \<Rightarrow> poly_curve \<Rightarrow> poly_curve outcome" where
  "FitWithEndPointFirstOrder x0 dx0 ddx0 x1 dx1 p c =
     (if 0 < p
      then
        let c2 = 1 / 2 * ddx0;
            p2 = p * p;
            p3 = p2 * p;
            p4 = p3 * p;
            b0 = x1 - x0 - dx0 * p - c2 * p2;
            b1 = dx1 - dx0 - ddx0 * p
        in Inr (c\<lparr>pc_param := p, pc_coef := [x0, dx0, c2, (4 * b0 - b1 * p) / p3, (b1 * p - 3 * b0) / p4]\<rparr>)
      else Inl Exit)"

definition FitWithEndPointSecondOrder ::
    "real \<Rightarrow> real \<Rightarrow> real \<Rightarrow> real \<Rightarrow> real \<Rightarrow> real \<Rightarrow> poly_curve \<Rightarrow> poly_curve outcome" where
  "FitWithEndPointSecondOrder x0 dx0 x1 dx1 ddx1 p c =
     (if 0 < p
      then
        let p2 = p * p;
            p3 = p2 * p;
            p4 = p3 * p;
            b0 = x1 - x0 - dx0 * p;
            b1 = dx1 - dx0;
            c1 = b1 * p;
            c2 = ddx1 * p2
        in Inr (c\<lparr>pc_param := p,
                   pc_coef := [x0, dx0, (1 / 2 * c2 - 3 * c1 + 6 * b0) / p2, (- c2 + 5 * c1 - 8 * b0) / p3,
                               (1 / 2 * c2 - 2 * c1 + 3 * b0) / p4]\<rparr>)
      else Inl Exit)"

definition quintic_coefficients :: "real \<Rightarrow> real \<Rightarrow> real \<Rightarrow> real \<Rightarrow> real \<Rightarrow> real \<Rightarrow> real \<Rightarrow> real list" where
  "quintic_coefficients x0 dx0 ddx0 x1 dx1 ddx1 p =
     (let p2 = p * p;
          p3 = p * p2;
          c0 = (x1 - 1 / 2 * p2 * ddx0 - dx0 * p - x0) / p3;
          c1 = (dx1 - ddx0 * p - dx0) / p2;
          c2 = (ddx1 - ddx0) / p
      in [x0, dx0, ddx0 / 2, 1 / 2 * (20 * c0 - 8 * c1 + c2), (- 15 * c0 + 7 * c1 - c2) / p,
          (6 * c0 - 3 * c1 + 1 / 2 * c2) / p2])"

definition QuinticPolynomialCurve1d_new ::
    "real \<Rightarrow> real \<Rightarrow> real \<Rightarrow> real \<Rightarrow> real \<Rightarrow> real \<Rightarrow> real \<Rightarrow> poly_curve outcome" where
  "QuinticPolynomialCurve1d_new x0 dx0 ddx0 x1 dx1 ddx1 param =
     (if 0 < param
      then Inr \<lparr>pc_coef = quintic_coefficients x0 dx0 ddx0 x1 dx1 ddx1 param, pc_param = param,
                pc_start_condition = [x0, dx0, ddx0], pc_end_condition = [x1, dx1, ddx1]\<rparr>
      else Inl Exit)"

definition Quintic_SetParam ::
    "real \<Rightarrow> real \<Rightarrow> real \<Rightarrow> real \<Rightarrow> real \<Rightarrow> real \<Rightarrow> real \<Rightarrow> poly_curve \<Rightarrow> poly_curve outcome" where
  "Quintic_SetParam x0 dx0 ddx0 x1 dx1 ddx1 param c =
     (if 0 < param
      then Inr (c\<lparr>pc_coef := quintic_coefficients x0 dx0 ddx0 x1 dx1 ddx1 param, pc_param := param\<rparr>)
      else Inl Exit)"

definition Quintic_Evaluate :: "nat \<Rightarrow> real \<Rightarrow> poly_curve \<Rightarrow> real" where
  "Quintic_Evaluate order p c =
     (let coef = (!) (pc_coef c)
      in if order = 0 then ((((coef 5 * p + coef 4) * p + coef 3) * p + coef 2) * p + coef 1) * p + coef 0
         else if order = 1 then (((5 * coef 5 * p + 4 * coef 4) * p + 3 * coef 3) * p + 2 * coef 2) * p + coef 1
         else if order = 2 then ((20 * coef 5 * p + 12 * coef 4) * p + 6 * coef 3) * p + 2 * coef 2
         else if order = 3 then (60 * coef 5 * p + 24 * coef 4) * p + 6 * coef 3
         else if order = 4 then 120 * coef 5 * p + 24 * coef 4
         else if order = 5 then 120 * coef 5
         else 0)"

section \<open>Deriving and integrating curves\<close>

text \<open>
  The order of the other curve is one less than the number of its coefficients.  The loops over the coefficients are
  the same for all curves.
\<close>

abbreviation integrate_coefficients :: "real \<Rightarrow> real list \<Rightarrow> real list" where
  "integrate_coefficients init_value coef \<equiv> init_value # map (\<lambda>(i, a). a / (real i + 1)) (List.enumerate 0 coef)"

abbreviation derive_coefficients :: "real list \<Rightarrow> real list" where
  "derive_coefficients coef \<equiv> map (\<lambda>(i, a). a * real i) (List.enumerate 1 (tl coef))"

definition IntegratedFromQuarticCurve :: "poly_curve \<Rightarrow> real \<Rightarrow> poly_curve \<Rightarrow> poly_curve outcome" where
  "IntegratedFromQuarticCurve other init_value c =
     (if length (pc_coef other) = 5
      then Inr (c\<lparr>pc_param := pc_param other, pc_coef := integrate_coefficients init_value (pc_coef other)\<rparr>)
      else Inl Exit)"

definition IntegratedFromCubicCurve :: "poly_curve \<Rightarrow> real \<Rightarrow> poly_curve \<Rightarrow> poly_curve outcome" where
  "IntegratedFromCubicCurve other init_value c =
     (if length (pc_coef other) = 4
      then Inr (c\<lparr>pc_param := pc_param other, pc_coef := integrate_coefficients init_value (pc_coef other)\<rparr>)
      else Inl Exit)"

definition DerivedFromQuinticCurve :: "poly_curve \<Rightarrow> poly_curve \<Rightarrow> poly_curve outcome" where
  "DerivedFromQuinticCurve other c =
     (if length (pc_coef other) = 6
      then Inr (c\<lparr>pc_param := pc_param other, pc_coef := derive_coefficients (pc_coef other)\<rparr>)
      else Inl Exit)"

definition DerivedFromQuarticCurve :: "poly_curve \<Rightarrow> poly_curve \<Rightarrow> poly_curve outcome" where
  "DerivedFromQuarticCurve other c =
     (if length (pc_coef other) = 5
      then Inr (c\<lparr>pc_param := pc_param other, pc_coef := derive_coefficients (pc_coef other)\<rparr>)
      else Inl Exit)"

section \<open>Derivatives\<close>

lemma Quintic_derivative: "((\<lambda>p. Quintic_Evaluate order p c) has_real_derivative Quintic_Evaluate (Suc order) p c) (at p)"
proof -
  consider "order = 0" | "order = 1" | "order = 2" | "order = 3" | "order = 4" | "5 \<le> order" by linarith
  then show ?thesis
    by cases (auto simp: Quintic_Evaluate_def Let_def intro!: derivative_eq_intros, simp_all add: algebra_simps)
qed

lemma Quartic_derivative: "((\<lambda>p. Quartic_Evaluate order p c) has_real_derivative Quartic_Evaluate (Suc order) p c) (at p)"
proof -
  consider "order = 0" | "order = 1" | "order = 2" | "order = 3" | "4 \<le> order" by linarith
  then show ?thesis
    by cases (auto simp: Quartic_Evaluate_def Let_def intro!: derivative_eq_intros, simp_all add: algebra_simps)
qed

lemma Cubic_derivative: "((\<lambda>p. Cubic_Evaluate order p c) has_real_derivative Cubic_Evaluate (Suc order) p c) (at p)"
proof -
  consider "order = 0" | "order = 1" | "order = 2" | "3 \<le> order" by linarith
  then show ?thesis
    by cases (auto simp: Cubic_Evaluate_def Let_def intro!: derivative_eq_intros, simp_all add: algebra_simps)
qed

section \<open>The conditions at the ends\<close>

text \<open>
  C19: The quintic curve goes from the given position, speed and acceleration to the given ones in the given time, and each
  order of \<open>Evaluate\<close> is the derivative of the one before.
\<close>

theorem quintic_curve_correct:
  assumes "0 < param"
  shows "\<exists>c. QuinticPolynomialCurve1d_new x0 dx0 ddx0 x1 dx1 ddx1 param = Inr c
    \<and> Quintic_Evaluate 0 0 c = x0 \<and> Quintic_Evaluate 1 0 c = dx0 \<and> Quintic_Evaluate 2 0 c = ddx0
    \<and> Quintic_Evaluate 0 param c = x1 \<and> Quintic_Evaluate 1 param c = dx1 \<and> Quintic_Evaluate 2 param c = ddx1
    \<and> (\<forall>order p. ((\<lambda>p. Quintic_Evaluate order p c) has_real_derivative Quintic_Evaluate (Suc order) p c) (at p))"
proof -
  obtain c where c: "QuinticPolynomialCurve1d_new x0 dx0 ddx0 x1 dx1 ddx1 param = Inr c"
    "pc_coef c = quintic_coefficients x0 dx0 ddx0 x1 dx1 ddx1 param"
    using assms by (simp add: QuinticPolynomialCurve1d_new_def)
  have "Quintic_Evaluate 0 0 c = x0" "Quintic_Evaluate 1 0 c = dx0" "Quintic_Evaluate 2 0 c = ddx0"
    by (simp_all add: Quintic_Evaluate_def c(2) quintic_coefficients_def Let_def)
  moreover have "Quintic_Evaluate 0 param c = x1" "Quintic_Evaluate 1 param c = dx1" "Quintic_Evaluate 2 param c = ddx1"
    using assms by (simp_all add: Quintic_Evaluate_def c(2) quintic_coefficients_def Let_def field_simps)
  ultimately show ?thesis using c(1) Quintic_derivative by blast
qed

theorem quintic_curve_correct_witness:
  "\<exists>c. QuinticPolynomialCurve1d_new 0 10 0 50 8 (- 1) 5 = Inr c \<and> Quintic_Evaluate 0 5 c = 50
    \<and> Quintic_Evaluate 1 5 c = 8 \<and> Quintic_Evaluate 2 5 c = - 1"
  using quintic_curve_correct [of 5 0 10 0 50 8 "- 1"] by auto

text \<open>
  The three ways to compute a quartic curve and the cubic curve meet their conditions at both ends, and each order of
  \<open>Evaluate\<close> is the derivative of the one before.
\<close>

theorem quartic_cubic_correct:
  assumes "0 < param"
  shows "(\<exists>c. QuarticPolynomialCurve1d_new x0 dx0 ddx0 dx1 ddx1 param = Inr c
      \<and> Quartic_Evaluate 0 0 c = x0 \<and> Quartic_Evaluate 1 0 c = dx0 \<and> Quartic_Evaluate 2 0 c = ddx0
      \<and> Quartic_Evaluate 1 param c = dx1 \<and> Quartic_Evaluate 2 param c = ddx1)
    \<and> (\<exists>c. FitWithEndPointFirstOrder x0 dx0 ddx0 x1 dx1 param c0 = Inr c
      \<and> Quartic_Evaluate 0 0 c = x0 \<and> Quartic_Evaluate 1 0 c = dx0 \<and> Quartic_Evaluate 2 0 c = ddx0
      \<and> Quartic_Evaluate 0 param c = x1 \<and> Quartic_Evaluate 1 param c = dx1)
    \<and> (\<exists>c. FitWithEndPointSecondOrder x0 dx0 x1 dx1 ddx1 param c0 = Inr c
      \<and> Quartic_Evaluate 0 0 c = x0 \<and> Quartic_Evaluate 1 0 c = dx0
      \<and> Quartic_Evaluate 0 param c = x1 \<and> Quartic_Evaluate 1 param c = dx1 \<and> Quartic_Evaluate 2 param c = ddx1)
    \<and> (let c = CubicPolynomialCurve1d_new x0 dx0 ddx0 x1 param
       in Cubic_Evaluate 0 0 c = x0 \<and> Cubic_Evaluate 1 0 c = dx0 \<and> Cubic_Evaluate 2 0 c = ddx0 \<and> Cubic_Evaluate 0 param c = x1)
    \<and> (\<forall>order p c. ((\<lambda>p. Quartic_Evaluate order p c) has_real_derivative Quartic_Evaluate (Suc order) p c) (at p)
          \<and> ((\<lambda>p. Cubic_Evaluate order p c) has_real_derivative Cubic_Evaluate (Suc order) p c) (at p))"
proof (intro conjI allI Quartic_derivative Cubic_derivative)
  show "\<exists>c. QuarticPolynomialCurve1d_new x0 dx0 ddx0 dx1 ddx1 param = Inr c
      \<and> Quartic_Evaluate 0 0 c = x0 \<and> Quartic_Evaluate 1 0 c = dx0 \<and> Quartic_Evaluate 2 0 c = ddx0
      \<and> Quartic_Evaluate 1 param c = dx1 \<and> Quartic_Evaluate 2 param c = ddx1"
    using assms by (simp add: QuarticPolynomialCurve1d_new_def Quartic_Evaluate_def quartic_coefficients_def Let_def field_simps)
  show "\<exists>c. FitWithEndPointFirstOrder x0 dx0 ddx0 x1 dx1 param c0 = Inr c
      \<and> Quartic_Evaluate 0 0 c = x0 \<and> Quartic_Evaluate 1 0 c = dx0 \<and> Quartic_Evaluate 2 0 c = ddx0
      \<and> Quartic_Evaluate 0 param c = x1 \<and> Quartic_Evaluate 1 param c = dx1"
    using assms by (simp add: FitWithEndPointFirstOrder_def Quartic_Evaluate_def Let_def field_simps)
  show "\<exists>c. FitWithEndPointSecondOrder x0 dx0 x1 dx1 ddx1 param c0 = Inr c
      \<and> Quartic_Evaluate 0 0 c = x0 \<and> Quartic_Evaluate 1 0 c = dx0
      \<and> Quartic_Evaluate 0 param c = x1 \<and> Quartic_Evaluate 1 param c = dx1 \<and> Quartic_Evaluate 2 param c = ddx1"
    using assms by (simp add: FitWithEndPointSecondOrder_def Quartic_Evaluate_def Let_def field_simps)
  show "let c = CubicPolynomialCurve1d_new x0 dx0 ddx0 x1 param
       in Cubic_Evaluate 0 0 c = x0 \<and> Cubic_Evaluate 1 0 c = dx0 \<and> Cubic_Evaluate 2 0 c = ddx0 \<and> Cubic_Evaluate 0 param c = x1"
    using assms by (simp add: CubicPolynomialCurve1d_new_def Cubic_Evaluate_def cubic_coefficients_def Let_def field_simps)
qed

theorem quartic_cubic_correct_witness:
  "\<exists>c. QuarticPolynomialCurve1d_new 0 10 0 8 (- 1) 5 = Inr c \<and> Quartic_Evaluate 1 5 c = 8 \<and> Quartic_Evaluate 2 5 c = - 1"
  using conjunct1 [OF quartic_cubic_correct [of 5 0 10 0 8 "- 1" 50 "\<lparr>pc_coef = [], pc_param = 0, pc_start_condition = [], pc_end_condition = []\<rparr>"]] by auto

text \<open>
  Deriving a quintic curve gives the quartic curve whose values are the derivatives of the quintic one, and
  integrating this from the initial value gives the coefficients of the quintic curve back.
\<close>

theorem derive_integrate_roundtrip:
  assumes "length (pc_coef c) = 6"
  shows "\<exists>d e. DerivedFromQuinticCurve c d0 = Inr d \<and> (\<forall>order p. Quartic_Evaluate order p d = Quintic_Evaluate (Suc order) p c)
    \<and> IntegratedFromQuarticCurve d (Quintic_Evaluate 0 0 c) e0 = Inr e \<and> pc_coef e = pc_coef c \<and> pc_param e = pc_param c"
proof -
  obtain a0 a1 a2 a3 a4 a5 where coef: "pc_coef c = [a0, a1, a2, a3, a4, a5]"
    using assms by (auto simp: length_Suc_conv eval_nat_numeral)
  obtain d where d: "DerivedFromQuinticCurve c d0 = Inr d" "pc_coef d = [a1, a2 * 2, a3 * 3, a4 * 4, a5 * 5]" "pc_param d = pc_param c"
    by (simp add: DerivedFromQuinticCurve_def coef)
  have "Quartic_Evaluate order p d = Quintic_Evaluate (Suc order) p c" for order p
    by (simp add: Quartic_Evaluate_def Quintic_Evaluate_def Let_def coef d(2) algebra_simps)
  moreover obtain e where "IntegratedFromQuarticCurve d (Quintic_Evaluate 0 0 c) e0 = Inr e" "pc_coef e = pc_coef c" "pc_param e = pc_param c"
    by (simp add: IntegratedFromQuarticCurve_def d(2,3) coef Quintic_Evaluate_def)
  ultimately show ?thesis using d(1) by blast
qed

theorem derive_integrate_roundtrip_witness:
  "\<exists>d e. DerivedFromQuinticCurve \<lparr>pc_coef = [1, 2, 3, 4, 5, 6], pc_param = 2, pc_start_condition = [], pc_end_condition = []\<rparr>
        \<lparr>pc_coef = [0, 0, 0, 0, 0], pc_param = 0, pc_start_condition = [], pc_end_condition = []\<rparr> = Inr d
    \<and> IntegratedFromQuarticCurve d 1 \<lparr>pc_coef = [0, 0, 0, 0, 0, 0], pc_param = 0, pc_start_condition = [], pc_end_condition = []\<rparr> = Inr e
    \<and> pc_coef e = [1, 2, 3, 4, 5, 6]"
proof -
  let ?c = "\<lparr>pc_coef = [1, 2, 3, 4, 5, 6], pc_param = 2, pc_start_condition = [], pc_end_condition = []\<rparr>"
  have "Quintic_Evaluate 0 0 ?c = 1" by (simp add: Quintic_Evaluate_def)
  with derive_integrate_roundtrip [of ?c "\<lparr>pc_coef = [0, 0, 0, 0, 0], pc_param = 0, pc_start_condition = [], pc_end_condition = []\<rparr>"
      "\<lparr>pc_coef = [0, 0, 0, 0, 0, 0], pc_param = 0, pc_start_condition = [], pc_end_condition = []\<rparr>"]
  show ?thesis by fastforce
qed

end
