(* ===== verification/LruCache.thy ===== *)
theory LruCache
  imports Prelude "HOL-Library.AList"
begin

text \<open>
  The cache of \<open>modules/common/util/lru_cache.h\<close>: a hash table whose nodes form a doubly linked list, the node used
  last at its head.  A pointer is the dummy head, the dummy tail or the key of a node; the fields \<open>prev\<close> and \<open>next\<close> are functions
  of the node they belong to.  A node of the table holds its own copy of the key and the value.  Pointers to output
  arguments are not null.  An eviction that finds no node of the table before the dummy tail has no defined
  behaviour in the model.

  The theory shows that the pointers implement a list of entries that is ordered by the last use and keeps
  to its capacity.  The specification shows what the code does with \<open>Update\<close>: it changes nothing.
\<close>

section \<open>The cache\<close>

datatype 'k node_ref = Head | Tail | Elem 'k

record ('k, 'v) lru_cache =
  lc_capacity :: u64
  lc_size :: u64
  lc_map :: "'k \<rightharpoonup> 'k \<times> 'v"
  lc_prev :: "'k node_ref \<Rightarrow> 'k node_ref option"
  lc_next :: "'k node_ref \<Rightarrow> 'k node_ref option"

definition LRUCache_Init :: "('k, 'v) lru_cache \<Rightarrow> ('k, 'v) lru_cache" where
  "LRUCache_Init c =
     c\<lparr>lc_prev := (lc_prev c)(Head := None, Tail := Some Head),
       lc_next := (lc_next c)(Head := Some Tail, Tail := None), lc_size := 0\<rparr>"

definition LRUCache_new :: "u64 \<Rightarrow> ('k, 'v) lru_cache" where
  "LRUCache_new capacity =
     LRUCache_Init \<lparr>lc_capacity = capacity, lc_size = 0, lc_map = Map.empty, lc_prev = (\<lambda>_. None), lc_next = (\<lambda>_. None)\<rparr>"

definition LRUCache_Full :: "('k, 'v) lru_cache \<Rightarrow> bool" where
  "LRUCache_Full c \<longleftrightarrow> 0 < lc_size c \<and> lc_capacity c \<le> lc_size c"

definition LRUCache_Contains :: "'k \<Rightarrow> ('k, 'v) lru_cache \<Rightarrow> bool" where
  "LRUCache_Contains key c \<longleftrightarrow> lc_map c key \<noteq> None"

definition LRUCache_First :: "('k, 'v) lru_cache \<Rightarrow> 'k node_ref option" where
  "LRUCache_First c = (if lc_size c \<noteq> 0 then lc_next c Head else None)"

definition LRUCache_Clear :: "('k, 'v) lru_cache \<Rightarrow> ('k, 'v) lru_cache" where
  "LRUCache_Clear c = LRUCache_Init (c\<lparr>lc_map := Map.empty\<rparr>)"

definition LRUCache_Detach :: "'k node_ref \<Rightarrow> ('k, 'v) lru_cache \<Rightarrow> ('k, 'v) lru_cache" where
  "LRUCache_Detach node c =
     (let c = (case lc_prev c node of None \<Rightarrow> c | Some p \<Rightarrow> c\<lparr>lc_next := (lc_next c)(p := lc_next c node)\<rparr>);
          c = (case lc_next c node of None \<Rightarrow> c | Some n \<Rightarrow> c\<lparr>lc_prev := (lc_prev c)(n := lc_prev c node)\<rparr>)
      in c\<lparr>lc_prev := (lc_prev c)(node := None), lc_next := (lc_next c)(node := None), lc_size := lc_size c - 1\<rparr>)"

definition LRUCache_Attach :: "'k node_ref \<Rightarrow> ('k, 'v) lru_cache \<Rightarrow> ('k, 'v) lru_cache" where
  "LRUCache_Attach node c =
     (let c = c\<lparr>lc_prev := (lc_prev c)(node := Some Head), lc_next := (lc_next c)(node := lc_next c Head, Head := Some node)\<rparr>;
          c = (case lc_next c node of None \<Rightarrow> c | Some n \<Rightarrow> c\<lparr>lc_prev := (lc_prev c)(n := Some node)\<rparr>)
      in c\<lparr>lc_size := lc_size c + 1\<rparr>)"

definition LRUCache_GetObsolete :: "('k, 'v) lru_cache \<Rightarrow> ('k option \<times> ('k, 'v) lru_cache) outcome" where
  "LRUCache_GetObsolete c =
     (if LRUCache_Full c
      then (case lc_prev c Tail of
              Some (Elem node) \<Rightarrow>
                let c = LRUCache_Detach (Elem node) c
                in (case lc_map c node of
                      Some (key, _) \<Rightarrow> Inr (Some key, c\<lparr>lc_map := (lc_map c)(key := None)\<rparr>)
                    | None \<Rightarrow> Inl Undefined)
            | _ \<Rightarrow> Inl Undefined)
      else Inr (None, c))"

text \<open>A node that is new in the table has no neighbours.\<close>

definition new_node :: "'k \<Rightarrow> 'k \<times> 'v \<Rightarrow> ('k, 'v) lru_cache \<Rightarrow> ('k, 'v) lru_cache" where
  "new_node key node c =
     c\<lparr>lc_map := (lc_map c)(key \<mapsto> node), lc_prev := (lc_prev c)(Elem key := None), lc_next := (lc_next c)(Elem key := None)\<rparr>"

definition LRUCache_update ::
    "'k \<Rightarrow> 'v \<Rightarrow> bool \<Rightarrow> bool \<Rightarrow> ('k, 'v) lru_cache \<Rightarrow> ((bool \<times> 'k option) \<times> ('k, 'v) lru_cache) outcome" where
  "LRUCache_update key val add_only silent_update c =
     (if LRUCache_Contains key c
      then
        if \<not> add_only
        then
          let c = c\<lparr>lc_map := (lc_map c)(key := map_option (\<lambda>(node_key, _). (node_key, val)) (lc_map c key))\<rparr>
          in if \<not> silent_update
             then Inr ((True, None), LRUCache_Attach (Elem key) (LRUCache_Detach (Elem key) c))
             else Inr ((False, None), c)
        else Inr ((True, None), c)
      else
        bind_outcome (if LRUCache_Full c then LRUCache_GetObsolete c else Inr (None, c))
          (\<lambda>(obs, c). Inr ((True, obs), LRUCache_Attach (Elem key) (new_node key (key, val) c))))"

abbreviation LRUCache_PutAndGetObsolete where
  "LRUCache_PutAndGetObsolete key val c \<equiv> LRUCache_update key val False False c"

abbreviation LRUCache_AddAndGetObsolete where
  "LRUCache_AddAndGetObsolete key val c \<equiv> LRUCache_update key val True False c"

definition LRUCache_Put where
  "LRUCache_Put key val c = bind_outcome (LRUCache_update key val False False c) (\<lambda>((ok, _), c). Inr (ok, c))"

definition LRUCache_Add where
  "LRUCache_Add key val c = bind_outcome (LRUCache_update key val True False c) (\<lambda>((ok, _), c). Inr (ok, c))"

definition LRUCache_Update where
  "LRUCache_Update key val c =
     (if \<not> LRUCache_Contains key c then Inr (False, c)
      else bind_outcome (LRUCache_update key val True False c) (\<lambda>((ok, _), c). Inr (ok, c)))"

definition LRUCache_UpdateSilently where
  "LRUCache_UpdateSilently key val c =
     (if \<not> LRUCache_Contains key c then Inr (False, c)
      else bind_outcome (LRUCache_update key val True True c) (\<lambda>((ok, _), c). Inr (ok, c)))"

definition LRUCache_Get :: "'k \<Rightarrow> bool \<Rightarrow> ('k, 'v) lru_cache \<Rightarrow> 'v option \<times> ('k, 'v) lru_cache" where
  "LRUCache_Get key silent c =
     (if LRUCache_Contains key c
      then (map_option snd (lc_map c key), if \<not> silent then LRUCache_Attach (Elem key) (LRUCache_Detach (Elem key) c) else c)
      else (None, c))"

text \<open>A copy of the value; nothing is copied for a key that is not there.\<close>

definition LRUCache_GetCopy :: "'k \<Rightarrow> bool \<Rightarrow> ('k, 'v) lru_cache \<Rightarrow> 'v option \<times> ('k, 'v) lru_cache" where
  "LRUCache_GetCopy key silent c =
     (if LRUCache_Contains key c
      then (let c = (if \<not> silent then LRUCache_Attach (Elem key) (LRUCache_Detach (Elem key) c) else c)
            in (map_option snd (lc_map c key), c))
      else (None, c))"

definition LRUCache_Prioritize :: "'k \<Rightarrow> ('k, 'v) lru_cache \<Rightarrow> bool \<times> ('k, 'v) lru_cache" where
  "LRUCache_Prioritize key c =
     (if LRUCache_Contains key c then (True, LRUCache_Attach (Elem key) (LRUCache_Detach (Elem key) c)) else (False, c))"

text \<open>The cache is copied into another table.\<close>

definition LRUCache_GetCache :: "('k, 'v) lru_cache \<Rightarrow> ('k \<rightharpoonup> 'v) \<Rightarrow> ('k \<rightharpoonup> 'v)" where
  "LRUCache_GetCache c cache = cache ++ (\<lambda>key. map_option snd (lc_map c key))"

text \<open>
  The index operator returns the value under a key.  For a key that is not in the table it first evicts and then lets the
  table make a node, which has the default key and the default value.
\<close>

definition LRUCache_index :: "'k \<times> 'v \<Rightarrow> 'k \<Rightarrow> ('k, 'v) lru_cache \<Rightarrow> ('v \<times> ('k, 'v) lru_cache) outcome" where
  "LRUCache_index default_node key c =
     bind_outcome (if \<not> LRUCache_Contains key c then LRUCache_GetObsolete c else Inr (None, c))
       (\<lambda>(_, c). case lc_map c key of
                   Some (_, val) \<Rightarrow> Inr (val, c)
                 | None \<Rightarrow> Inr (snd default_node, new_node key default_node c))"

section \<open>The linked list\<close>

definition linked :: "('k, 'v) lru_cache \<Rightarrow> 'k node_ref list \<Rightarrow> bool" where
  "linked c refs = successively (\<lambda>a b. lc_next c a = Some b \<and> lc_prev c b = Some a) refs"

lemma linked_simps [simp]:
  "linked c [a]" "linked c (a # b # refs) \<longleftrightarrow> lc_next c a = Some b \<and> lc_prev c b = Some a \<and> linked c (b # refs)"
  by (simp_all add: linked_def)

lemma linked_split: "linked c (us @ a # refs) \<longleftrightarrow> linked c (us @ [a]) \<and> linked c (a # refs)"
  by (induction us rule: induct_list012) auto

lemma linked_cong:
  assumes "linked c refs"
    and "\<And>x. x \<in> set (butlast refs) \<Longrightarrow> lc_next c' x = lc_next c x"
    and "\<And>x. x \<in> set (tl refs) \<Longrightarrow> lc_prev c' x = lc_prev c x"
  shows "linked c' refs"
  using assms by (induction refs rule: induct_list012) (auto simp: linked_def)

lemma Detach_linked:
  assumes "linked c (us @ a # e # b # vs)" and "distinct (us @ a # e # b # vs)"
  shows "linked (LRUCache_Detach e c) (us @ a # b # vs)"
proof -
  have links: "lc_next c a = Some e" "lc_prev c e = Some a" "lc_next c e = Some b" "lc_prev c b = Some e"
    and parts: "linked c (us @ [a])" "linked c (b # vs)"
    using assms(1) linked_split [of c us a "e # b # vs"] by simp_all
  let ?c = "LRUCache_Detach e c"
  have ne: "a \<noteq> e" "e \<noteq> b" "a \<noteq> b" using assms(2) by auto
  have fields: "lc_next ?c = (lc_next c)(a := Some b, e := None)" "lc_prev ?c = (lc_prev c)(b := Some a, e := None)"
    using links ne by (simp_all add: LRUCache_Detach_def Let_def)
  have "set (tl (us @ [a])) \<subseteq> insert a (set us)" by (cases us) auto
  then have "linked ?c (us @ [a])"
    by (intro linked_cong [OF parts(1)]) (use assms(2) in \<open>auto simp: fields butlast_append\<close>)
  moreover have "linked ?c (b # vs)" by (rule linked_cong [OF parts(2)]) (use assms(2) in \<open>auto simp: fields dest: in_set_butlastD split: if_splits\<close>)
  moreover have "lc_next ?c a = Some b" "lc_prev ?c b = Some a" using ne by (simp_all add: fields)
  ultimately show ?thesis using linked_split [of ?c us a "b # vs"] by simp
qed

lemma Attach_linked:
  assumes "linked c (Head # b # vs)" and "distinct (Head # e # b # vs)"
  shows "linked (LRUCache_Attach e c) (Head # e # b # vs)"
proof -
  let ?c = "LRUCache_Attach e c"
  have fields: "lc_next ?c = (lc_next c)(e := Some b, Head := Some e)" "lc_prev ?c = (lc_prev c)(e := Some Head, b := Some e)"
    using assms by (auto simp: LRUCache_Attach_def Let_def)
  have "linked ?c (b # vs)"
    by (rule linked_cong [of c]) (use assms in \<open>auto simp: fields dest: in_set_butlastD split: if_splits\<close>)
  with assms(2) show ?thesis by (auto simp: fields)
qed

section \<open>The list of entries\<close>

text \<open>The cache represents a list of entries, the one used last first.\<close>

abbreviation refs_of :: "'k list \<Rightarrow> 'k node_ref list" where
  "refs_of ks \<equiv> Head # map Elem ks @ [Tail]"

abbreviation table_of :: "('k \<times> 'v) list \<Rightarrow> ('k \<rightharpoonup> 'k \<times> 'v)" where
  "table_of xs \<equiv> (\<lambda>k. map_option (Pair k) (map_of xs k))"

definition lru_rel :: "u64 \<Rightarrow> ('k, 'v) lru_cache \<Rightarrow> ('k \<times> 'v) list \<Rightarrow> bool" where
  "lru_rel capacity c xs \<longleftrightarrow>
     lc_capacity c = capacity \<and> distinct (map fst xs) \<and> lc_map c = table_of xs \<and> lc_size c = of_nat (length xs)
     \<and> length xs \<le> max 1 (unat capacity) \<and> linked c (refs_of (map fst xs))"

lemma distinct_refs: "distinct ks \<Longrightarrow> distinct (refs_of ks)"
  by (auto simp: distinct_map inj_on_def)

lemma Detach_key:
  assumes "linked c (refs_of (ks1 @ k # ks2))" and "distinct (ks1 @ k # ks2)"
  shows "linked (LRUCache_Detach (Elem k) c) (refs_of (ks1 @ ks2))"
proof -
  obtain us a where ua: "Head # map Elem ks1 = us @ [a]" by (metis append_butlast_last_id list.distinct(1))
  obtain b vs where bv: "map Elem ks2 @ [Tail] = b # vs" by (cases "map Elem ks2 @ [Tail]") auto
  have refs: "refs_of (ks1 @ k # ks2) = us @ a # Elem k # b # vs" "refs_of (ks1 @ ks2) = us @ a # b # vs"
    using ua bv by (metis append.assoc append_Cons append_Nil map_append list.simps(9))+
  show ?thesis
    using Detach_linked [of c us a "Elem k" b vs] assms(1) distinct_refs [OF assms(2)] unfolding refs by blast
qed

lemma Attach_key:
  assumes "linked c (refs_of ks)" and "distinct (k # ks)"
  shows "linked (LRUCache_Attach (Elem k) c) (refs_of (k # ks))"
proof -
  obtain b vs where bv: "map Elem ks @ [Tail] = b # vs" by (cases "map Elem ks @ [Tail]") auto
  have "distinct (Head # Elem k # b # vs)" using distinct_refs [OF assms(2)] bv by simp
  then show ?thesis using Attach_linked [of c b vs "Elem k"] assms(1) bv by simp
qed

lemma list_fields [simp]:
  "lc_capacity (LRUCache_Detach e c) = lc_capacity c" "lc_map (LRUCache_Detach e c) = lc_map c"
  "lc_size (LRUCache_Detach e c) = lc_size c - 1"
  "lc_capacity (LRUCache_Attach e c) = lc_capacity c" "lc_map (LRUCache_Attach e c) = lc_map c"
  "lc_size (LRUCache_Attach e c) = lc_size c + 1"
  by (simp_all add: LRUCache_Detach_def LRUCache_Attach_def Let_def split: option.split)

lemma linked_map [simp]: "linked (c\<lparr>lc_map := m\<rparr>) refs = linked c refs"
  by (simp add: linked_def)

lemma lru_rel_length: "lru_rel capacity c xs \<Longrightarrow> length xs < 2 ^ 64"
  using unsigned_less [of capacity, where ?'a = nat] by (auto simp: lru_rel_def)

lemma lru_rel_simps:
  assumes "lru_rel capacity c xs"
  shows "LRUCache_Contains k c \<longleftrightarrow> map_of xs k \<noteq> None" "lc_map c k = map_option (Pair k) (map_of xs k)"
    "LRUCache_Full c \<longleftrightarrow> xs \<noteq> [] \<and> unat capacity \<le> length xs" "lc_size c = of_nat (length xs)"
    "LRUCache_First c = (if xs = [] then None else Some (Elem (fst (hd xs))))"
proof -
  have "unat (lc_size c) = length xs"
    using assms lru_rel_length [OF assms] by (simp add: lru_rel_def unsigned_of_nat take_bit_nat_eq_self)
  then show "LRUCache_Full c \<longleftrightarrow> xs \<noteq> [] \<and> unat capacity \<le> length xs" and
      "LRUCache_First c = (if xs = [] then None else Some (Elem (fst (hd xs))))"
    using assms by (cases xs; auto simp: LRUCache_Full_def LRUCache_First_def lru_rel_def word_le_nat_alt word_less_nat_alt)+
qed (use assms in \<open>auto simp: LRUCache_Contains_def lru_rel_def\<close>)

lemma entry_split:
  assumes "map_of xs k = Some v" and "distinct (map fst xs)"
  obtains xs1 xs2 where "xs = xs1 @ (k, v) # xs2" "AList.delete k xs = xs1 @ xs2" "k \<notin> fst ` set (xs1 @ xs2)"
proof -
  from assms(1) obtain xs1 xs2 where xs: "xs = xs1 @ (k, v) # xs2" by (metis map_of_SomeD split_list)
  with assms(2) have new: "k \<notin> fst ` set (xs1 @ xs2)" by auto
  have "filter (\<lambda>(k', _). k \<noteq> k') ys = ys" if "k \<notin> fst ` set ys" for ys :: "('b \<times> 'a) list"
    using that by (induction ys) auto
  then have "AList.delete k xs = xs1 @ xs2" using new by (simp add: xs AList.delete_eq image_Un)
  from xs this new show thesis by (rule that)
qed

lemma lru_rel_touch:
  assumes "lru_rel capacity c xs" and "map_of xs k = Some v"
  shows "lru_rel capacity (LRUCache_Attach (Elem k) (LRUCache_Detach (Elem k) c)) ((k, v) # AList.delete k xs)"
proof -
  have distinct: "distinct (map fst xs)" using assms(1) by (simp add: lru_rel_def)
  obtain xs1 xs2 where xs: "xs = xs1 @ (k, v) # xs2" and del: "AList.delete k xs = xs1 @ xs2"
    and new: "k \<notin> fst ` set (xs1 @ xs2)" using entry_split [OF assms(2) distinct] .
  let ?c = "LRUCache_Detach (Elem k) c"
  have "linked ?c (refs_of (map fst xs1 @ map fst xs2))"
    using Detach_key [of c "map fst xs1" k "map fst xs2"] assms(1) distinct by (simp add: lru_rel_def xs)
  then have "linked (LRUCache_Attach (Elem k) ?c) (refs_of (k # map fst xs1 @ map fst xs2))"
    by (rule Attach_key) (use distinct xs in auto)
  moreover have "map_of xs1 k = None" using new by (simp add: map_of_eq_None_iff image_Un)
  then have "map_of xs = map_of ((k, v) # xs1 @ xs2)" by (simp add: xs fun_eq_iff map_add_def split: option.split)
  ultimately show ?thesis
    using assms(1) distinct unfolding del by (auto simp: lru_rel_def xs)
qed

lemma lru_rel_add:
  assumes "lru_rel capacity c xs" and "map_of xs k = None" and "length xs < max 1 (unat capacity)"
  shows "lru_rel capacity (LRUCache_Attach (Elem k) (new_node k (k, v) c)) ((k, v) # xs)"
proof -
  have new: "k \<notin> set (map fst xs)" and distinct: "distinct (map fst xs)" and links: "linked c (refs_of (map fst xs))"
    using assms(1,2) by (simp_all add: lru_rel_def map_of_eq_None_iff)
  have "Elem k \<notin> set (refs_of (map fst xs))" using new by auto
  then have "linked (new_node k (k, v) c) (refs_of (map fst xs))"
    by (intro linked_cong [OF links]) (auto simp: new_node_def butlast_append)
  from Attach_key [OF this, of k] new distinct
  have "linked (LRUCache_Attach (Elem k) (new_node k (k, v) c)) (refs_of (map fst ((k, v) # xs)))" by simp
  moreover have "(table_of xs)(k \<mapsto> (k, v)) = table_of ((k, v) # xs)" by (simp add: fun_eq_iff)
  ultimately show ?thesis
    using assms(1,3) new by (simp add: lru_rel_def new_node_def)
qed

lemma lru_rel_obsolete:
  assumes "lru_rel capacity c xs" and "xs \<noteq> []" and "unat capacity \<le> length xs"
  shows "\<exists>c'. LRUCache_GetObsolete c = Inr (Some (fst (last xs)), c') \<and> lru_rel capacity c' (butlast xs)"
proof -
  obtain ys k v where xs: "xs = ys @ [(k, v)]" using assms(2) by (metis rev_exhaust surj_pair)
  let ?c = "LRUCache_Detach (Elem k) c"
  have rel: "linked c (refs_of (map fst ys @ [k]))" "distinct (map fst ys @ [k])" using assms(1) by (auto simp: lru_rel_def xs)
  then have "linked ?c (refs_of (map fst ys))" using Detach_key [of c "map fst ys" k "[]"] by simp
  moreover have "lc_prev c Tail = Some (Elem k)"
    using rel(1) linked_split [of c "Head # map (Elem \<circ> fst) ys" "Elem k" "[Tail]"] by simp
  moreover have "lc_map c = table_of xs" using assms(1) by (simp add: lru_rel_def)
  moreover have "map_of ys k = None" using rel(2) by (simp add: map_of_eq_None_iff)
  then have "(table_of xs)(k := None) = table_of ys" "table_of xs k = Some (k, v)"
    by (auto simp: xs fun_eq_iff map_add_def split: option.split)
  ultimately show ?thesis
    using assms lru_rel_simps(3) [OF assms(1)] by (auto simp: LRUCache_GetObsolete_def lru_rel_def xs Let_def)
qed

lemma lru_rel_update:
  assumes "lru_rel capacity c xs" and "map_of xs k = Some w"
  shows "lru_rel capacity (c\<lparr>lc_map := (lc_map c)(k := map_option (\<lambda>(key, _). (key, v)) (lc_map c k))\<rparr>) (AList.update k v xs)"
proof -
  have "k \<in> fst ` set xs" using map_of_SomeD [OF assms(2)] by force
  then have "map fst (AList.update k v xs) = map fst xs" by (induction xs) auto
  moreover from this have "length (AList.update k v xs) = length xs" by (metis length_map)
  ultimately show ?thesis using assms by (auto simp: lru_rel_def update_conv' fun_eq_iff)
qed

section \<open>Sequences of operations\<close>

datatype ('k, 'v) lru_op =
    Put 'k 'v | Add 'k 'v | PutAndGetObsolete 'k 'v | AddAndGetObsolete 'k 'v | Update 'k 'v | UpdateSilently 'k 'v
  | Get 'k | GetSilently 'k | GetCopy 'k | GetCopySilently 'k | Prioritize 'k | Contains 'k | Size | First | GetCache | Clear

datatype ('k, 'v) lru_out =
    Flag bool | Obsolete "bool \<times> 'k option" | Value "'v option" | Count u64 | Node "'k node_ref option"
  | Table "'k \<rightharpoonup> 'v" | Done

definition lru_try :: "('a \<Rightarrow> 'o) \<Rightarrow> ('a \<times> 's) outcome \<Rightarrow> 's \<Rightarrow> 'o outcome \<times> 's" where
  "lru_try out r c = (case r of Inl e \<Rightarrow> (Inl e, c) | Inr (x, c) \<Rightarrow> (Inr (out x), c))"

lemma lru_try_Inr [simp]: "lru_try out (Inr x) c = (Inr (out (fst x)), snd x)"
  by (simp add: lru_try_def case_prod_beta)

fun lru_step :: "('k, 'v) lru_op \<Rightarrow> ('k, 'v) lru_cache \<Rightarrow> ('k, 'v) lru_out outcome \<times> ('k, 'v) lru_cache" where
  "lru_step (Put k v) c = lru_try Flag (LRUCache_Put k v c) c"
| "lru_step (Add k v) c = lru_try Flag (LRUCache_Add k v c) c"
| "lru_step (PutAndGetObsolete k v) c = lru_try Obsolete (LRUCache_PutAndGetObsolete k v c) c"
| "lru_step (AddAndGetObsolete k v) c = lru_try Obsolete (LRUCache_AddAndGetObsolete k v c) c"
| "lru_step (Update k v) c = lru_try Flag (LRUCache_Update k v c) c"
| "lru_step (UpdateSilently k v) c = lru_try Flag (LRUCache_UpdateSilently k v c) c"
| "lru_step (Get k) c = lru_try Value (Inr (LRUCache_Get k False c)) c"
| "lru_step (GetSilently k) c = lru_try Value (Inr (LRUCache_Get k True c)) c"
| "lru_step (GetCopy k) c = lru_try Value (Inr (LRUCache_GetCopy k False c)) c"
| "lru_step (GetCopySilently k) c = lru_try Value (Inr (LRUCache_GetCopy k True c)) c"
| "lru_step (Prioritize k) c = lru_try Flag (Inr (LRUCache_Prioritize k c)) c"
| "lru_step (Contains k) c = (Inr (Flag (LRUCache_Contains k c)), c)"
| "lru_step Size c = (Inr (Count (lc_size c)), c)"
| "lru_step First c = (Inr (Node (LRUCache_First c)), c)"
| "lru_step GetCache c = (Inr (Table (LRUCache_GetCache c Map.empty)), c)"
| "lru_step Clear c = (Inr Done, LRUCache_Clear c)"

text \<open>
  The specification.  A new entry goes to the front of the list, and the list is cut to the capacity; a capacity of zero
  counts as one.  An entry that is used moves to the front.
\<close>

definition spec_touch :: "'k \<Rightarrow> ('k \<times> 'v) list \<Rightarrow> ('k \<times> 'v) list" where
  "spec_touch k xs = (case map_of xs k of None \<Rightarrow> xs | Some v \<Rightarrow> (k, v) # AList.delete k xs)"

definition spec_new :: "nat \<Rightarrow> 'k \<Rightarrow> 'v \<Rightarrow> ('k \<times> 'v) list \<Rightarrow> ('k \<times> 'v) list" where
  "spec_new n k v xs = take (max 1 n) ((k, v) # xs)"

definition spec_obsolete :: "nat \<Rightarrow> ('k \<times> 'v) list \<Rightarrow> 'k option" where
  "spec_obsolete n xs = (if length xs < max 1 n then None else Some (fst (last xs)))"

definition spec_put :: "nat \<Rightarrow> 'k \<Rightarrow> 'v \<Rightarrow> ('k \<times> 'v) list \<Rightarrow> 'k option \<times> ('k \<times> 'v) list" where
  "spec_put n k v xs =
     (if map_of xs k \<noteq> None then (None, (k, v) # AList.delete k xs) else (spec_obsolete n xs, spec_new n k v xs))"

definition spec_add :: "nat \<Rightarrow> 'k \<Rightarrow> 'v \<Rightarrow> ('k \<times> 'v) list \<Rightarrow> 'k option \<times> ('k \<times> 'v) list" where
  "spec_add n k v xs = (if map_of xs k \<noteq> None then (None, xs) else (spec_obsolete n xs, spec_new n k v xs))"

fun lru_spec :: "nat \<Rightarrow> ('k, 'v) lru_op \<Rightarrow> ('k \<times> 'v) list \<Rightarrow> ('k, 'v) lru_out outcome \<times> ('k \<times> 'v) list" where
  "lru_spec n (Put k v) xs = (Inr (Flag True), snd (spec_put n k v xs))"
| "lru_spec n (Add k v) xs = (Inr (Flag True), snd (spec_add n k v xs))"
| "lru_spec n (PutAndGetObsolete k v) xs = (Inr (Obsolete (True, fst (spec_put n k v xs))), snd (spec_put n k v xs))"
| "lru_spec n (AddAndGetObsolete k v) xs = (Inr (Obsolete (True, fst (spec_add n k v xs))), snd (spec_add n k v xs))"
| "lru_spec n (Update k v) xs = (Inr (Flag (map_of xs k \<noteq> None)), xs)"
| "lru_spec n (UpdateSilently k v) xs = (Inr (Flag (map_of xs k \<noteq> None)), xs)"
| "lru_spec n (Get k) xs = (Inr (Value (map_of xs k)), spec_touch k xs)"
| "lru_spec n (GetSilently k) xs = (Inr (Value (map_of xs k)), xs)"
| "lru_spec n (GetCopy k) xs = (Inr (Value (map_of xs k)), spec_touch k xs)"
| "lru_spec n (GetCopySilently k) xs = (Inr (Value (map_of xs k)), xs)"
| "lru_spec n (Prioritize k) xs = (Inr (Flag (map_of xs k \<noteq> None)), spec_touch k xs)"
| "lru_spec n (Contains k) xs = (Inr (Flag (map_of xs k \<noteq> None)), xs)"
| "lru_spec n Size xs = (Inr (Count (of_nat (length xs))), xs)"
| "lru_spec n First xs = (Inr (Node (if xs = [] then None else Some (Elem (fst (hd xs))))), xs)"
| "lru_spec n GetCache xs = (Inr (Table (map_of xs)), xs)"
| "lru_spec n Clear xs = (Inr Done, [])"

lemma lru_rel_empty: "lc_capacity c = capacity \<Longrightarrow> lc_map c = Map.empty \<Longrightarrow> lru_rel capacity (LRUCache_Init c) []"
  by (simp add: lru_rel_def LRUCache_Init_def)

text \<open>A key that is not in the cache is inserted; the cache evicts only when it is full.\<close>

lemma update_new:
  assumes "lru_rel capacity c xs" and "map_of xs k = None"
  shows "\<exists>c'. LRUCache_update k v add_only silent c = Inr ((True, spec_obsolete (unat capacity) xs), c')
    \<and> lru_rel capacity c' (spec_new (unat capacity) k v xs)"
proof (cases "LRUCache_Full c")
  case True
  then have full: "xs \<noteq> []" "unat capacity \<le> length xs" by (simp_all add: lru_rel_simps(3) [OF assms(1)])
  then have length: "length xs = max 1 (unat capacity)" using assms(1) by (cases xs) (auto simp: lru_rel_def)
  obtain c' where c': "LRUCache_GetObsolete c = Inr (Some (fst (last xs)), c')" "lru_rel capacity c' (butlast xs)"
    using lru_rel_obsolete [OF assms(1) full] by blast
  have "map_of (butlast xs) k = None"
    using assms(2) by (auto simp: map_of_eq_None_iff dest: in_set_butlastD)
  with c'(2) have "lru_rel capacity (LRUCache_Attach (Elem k) (new_node k (k, v) c')) ((k, v) # butlast xs)"
    using full length by (intro lru_rel_add) auto
  moreover have "spec_new (unat capacity) k v xs = (k, v) # butlast xs"
    using length by (simp add: spec_new_def take_Cons' butlast_conv_take)
  ultimately show ?thesis
    using True c'(1) assms(2) length by (simp add: LRUCache_update_def lru_rel_simps(1) [OF assms(1)] spec_obsolete_def)
next
  case False
  then have "length xs < max 1 (unat capacity)" using assms(1) by (auto simp: lru_rel_simps(3) [OF assms(1)])
  with assms False lru_rel_add [OF assms this, of v] show ?thesis
    by (simp add: LRUCache_update_def lru_rel_simps(1) [OF assms(1)] spec_obsolete_def spec_new_def take_Cons')
qed

lemma update_present:
  assumes "lru_rel capacity c xs" and "map_of xs k = Some w"
  shows "LRUCache_update k v True silent c = Inr ((True, None), c)"
    and "\<exists>c'. LRUCache_update k v False False c = Inr ((True, None), c') \<and> lru_rel capacity c' ((k, v) # AList.delete k xs)"
proof -
  show "LRUCache_update k v True silent c = Inr ((True, None), c)"
    using assms by (simp add: LRUCache_update_def lru_rel_simps(1) [OF assms(1)])
  have "map_of (AList.update k v xs) k = Some v" by (simp add: update_conv')
  note lru_rel_touch [OF lru_rel_update [OF assms, of v] this]
  moreover have "AList.delete k (AList.update k v xs) = AList.delete k xs" by (induction xs) (auto simp: AList.delete_eq)
  ultimately show "\<exists>c'. LRUCache_update k v False False c = Inr ((True, None), c') \<and> lru_rel capacity c' ((k, v) # AList.delete k xs)"
    using assms by (simp add: LRUCache_update_def lru_rel_simps(1) [OF assms(1)] Let_def)
qed

lemma update_put:
  assumes "lru_rel capacity c xs"
  shows "\<exists>c'. LRUCache_update k v False False c = Inr ((True, fst (spec_put (unat capacity) k v xs)), c')
    \<and> lru_rel capacity c' (snd (spec_put (unat capacity) k v xs))"
  using update_new [OF assms, of k v] update_present(2) [OF assms, of k _ v] by (cases "map_of xs k") (simp_all add: spec_put_def)

lemma update_add:
  assumes "lru_rel capacity c xs"
  shows "\<exists>c'. LRUCache_update k v True False c = Inr ((True, fst (spec_add (unat capacity) k v xs)), c')
    \<and> lru_rel capacity c' (snd (spec_add (unat capacity) k v xs))"
  using update_new [OF assms, of k v] update_present(1) [OF assms, of k _ v] assms
  by (cases "map_of xs k") (simp_all add: spec_add_def)

lemma lru_step_refines:
  assumes "lru_rel capacity c xs"
  shows "fst (lru_step op c) = fst (lru_spec (unat capacity) op xs)
    \<and> lru_rel capacity (snd (lru_step op c)) (snd (lru_spec (unat capacity) op xs))"
proof -
  note rel = assms lru_rel_simps [OF assms]
  note put = update_put [OF assms]
  note add = update_add [OF assms]
  show ?thesis
  proof (cases op)
    case (Put k v) then show ?thesis using put [of k v] by (auto simp: LRUCache_Put_def)
  next
    case (Add k v) then show ?thesis using add [of k v] by (auto simp: LRUCache_Add_def)
  next
    case (PutAndGetObsolete k v) then show ?thesis using put [of k v] by auto
  next
    case (AddAndGetObsolete k v) then show ?thesis using add [of k v] by auto
  next
    case (Update k v) then show ?thesis using update_present(1) [OF assms, of k] by (auto simp: LRUCache_Update_def rel)
  next
    case (UpdateSilently k v) then show ?thesis using update_present(1) [OF assms, of k] by (auto simp: LRUCache_UpdateSilently_def rel)
  next
    case (Get k) then show ?thesis by (cases "map_of xs k") (auto simp: LRUCache_Get_def rel spec_touch_def lru_rel_touch)
  next
    case (GetSilently k) then show ?thesis by (auto simp: LRUCache_Get_def rel)
  next
    case (GetCopy k) then show ?thesis
      by (cases "map_of xs k") (auto simp: LRUCache_GetCopy_def rel spec_touch_def lru_rel_touch)
  next
    case (GetCopySilently k) then show ?thesis by (auto simp: LRUCache_GetCopy_def rel)
  next
    case (Prioritize k) then show ?thesis by (cases "map_of xs k") (auto simp: LRUCache_Prioritize_def rel spec_touch_def lru_rel_touch)
  next
    case Clear then show ?thesis
      using assms lru_rel_empty [of "c\<lparr>lc_map := Map.empty\<rparr>" capacity] by (simp add: LRUCache_Clear_def lru_rel_def)
  qed (auto simp: rel LRUCache_GetCache_def fun_eq_iff option.map_comp comp_def option.map_ident)
qed


section \<open>The index operator\<close>

fun index_all :: "'k \<times> 'v \<Rightarrow> 'k list \<Rightarrow> ('k, 'v) lru_cache \<Rightarrow> ('k, 'v) lru_cache outcome" where
  "index_all default_node [] c = Inr c"
| "index_all default_node (k # ks) c = bind_outcome (LRUCache_index default_node k c) (\<lambda>(_, c). index_all default_node ks c)"

lemma index_all_uncounted:
  assumes "lc_size c = 0"
  shows "\<exists>c'. index_all default_node ks c = Inr c' \<and> lc_size c' = 0 \<and> dom (lc_map c') = dom (lc_map c) \<union> set ks"
  using assms
proof (induction ks arbitrary: c)
  case (Cons k ks)
  define d where "d = (if lc_map c k = None then new_node k default_node c else c)"
  have "\<exists>v. LRUCache_index default_node k c = Inr (v, d)"
    using Cons.prems by (auto simp: d_def LRUCache_index_def LRUCache_Contains_def LRUCache_GetObsolete_def LRUCache_Full_def)
  moreover have "lc_size d = 0" "dom (lc_map d) = insert k (dom (lc_map c))"
    using Cons.prems by (auto simp: d_def new_node_def)
  ultimately show ?case using Cons.IH [of d] by auto
qed simp

text \<open>
  The index operator does not respect the capacity: after it was applied to any keys of a new cache, the table holds
  all of them, whatever the capacity, and the cache still reports the size zero.
\<close>

theorem LRUCache_index_unbounded:
  "\<exists>c. index_all default_node ks (LRUCache_new capacity) = Inr c \<and> lc_size c = 0 \<and> dom (lc_map c) = set ks"
  using index_all_uncounted [of "LRUCache_new capacity" default_node ks] by (simp add: LRUCache_new_def LRUCache_Init_def)

end
