(* ===== verification/Spec2Isabelle.thy ===== *)
theory Spec2Isabelle
  imports BoundedQueue RWLock ReentrantLock AtomicHashMap DataBuffers CyberTime TimingWheel Roles TopoGraph
    GlobalData Discovery Topology Scheduler SchedulerPolicy ShmDelivery Hybrid LaneGeometry Curves LruCache
begin

text \<open>
  Verification of the Apollo standalone code base: the middleware Cyber (\<open>cyber/\<close> under
  \<^verbatim>\<open>src/src/apollo\<close>), and parts of the map, the mathematics and the utilities of the planning modules that run on it
  (\<open>modules/\<close>).  File names below are relative to that directory.

  \<^bold>\<open>The program.\<close>  A node of Cyber is part of a process and has writers and readers of named
  channels.  Processes find each other through the \<^emph>\<open>topology\<close>: each announces its nodes, writers,
  readers and services, and each keeps tables and a graph of all of them.  When a writer and a reader meet,
  the \<^emph>\<open>transport\<close> connects them within the process, through shared memory on the same host, or over
  the network.  A message that arrives is given to listeners, which store it in \<^emph>\<open>data
  buffers\<close> and notify the \<^emph>\<open>scheduler\<close>; the scheduler resumes the coroutine that waits for the
  message.  \<^emph>\<open>Timers\<close> run callbacks after a number of milliseconds.  All of these use the lock-free
  containers and locks of \<open>cyber/base\<close>.  The planning modules read a \<^emph>\<open>map\<close> of lanes, find the lanes near a
  point with a search tree, describe the state of the vehicle in coordinates along a reference line, and
  build trajectories from polynomial \<^emph>\<open>curves\<close>.

  \<^bold>\<open>How the model is written.\<close>  A class is a record, a derived class extends it, and a virtual
  operation is an argument of the base-class operations that call it.  Machine integers are words
  of their width.  A hash table is an association list (\<open>m[k]\<close> inserting the default where C++ does).
  An object that is shared by pointer lives in a store and pointers are keys.  An operation that
  throws, exits, or has no defined behaviour gives a \<open>failure\<close>.  Code that runs without a common
  lock is a program of atomic steps, and the theorems are about every interleaving of them; memory is
  sequentially consistent.  Code outside the repository (Fast-RTPS, protobuf, the operating system,
  the hash function of the standard library, the clock) is an argument.  A \<open>double\<close> is a real number, so
  that rounding, infinities and not-a-number are outside the model.

  \<^bold>\<open>The theories.\<close>

  \<^item> \<open>Prelude\<close>, \<open>StdString\<close>: words, lists, outcomes, and the string functions of the standard library.

  \<^item> \<open>BoundedQueue\<close> (\<open>cyber/base/bounded_queue.h\<close>): the ring buffer is a first-in-first-out queue in every
    interleaving of fewer than \<open>2 ^ 64 - 1\<close> atomic steps (the counters do not wrap), and an undisturbed call computes the function that the locale
    \<open>bounded_fifo\<close> promises to clients.

  \<^item> \<open>RWLock\<close>, \<open>ReentrantLock\<close> (\<open>atomic_rw_lock.h\<close>, \<open>reentrant_rw_lock.h\<close>): mutual exclusion of the first;
    nesting in one thread and a deadlock between two writers for the second.

  \<^item> \<open>AtomicHashMap\<close> (\<open>atomic_hash_map.h\<close>): undisturbed calls implement a map from keys to the last value.
    The contract is the locale \<open>keyed_map\<close>, which \<open>GlobalData\<close> builds on.

  \<^item> \<open>DataBuffers\<close> (\<open>cyber/data\<close>): the visitor reads messages in order, fusion gives the newest
    messages, and the dispatcher reaches every registered buffer.

  \<^item> \<open>CyberTime\<close> (\<open>cyber/time\<close>, \<open>cyber/common/time_conversion.h\<close>): the rate loop does not drift, and the
    conversion between UNIX and GPS time is invertible before 2038 and fails after it.

  \<^item> \<open>TimingWheel\<close> (\<open>cyber/timer\<close>): when a task fires, with other threads adding and cancelling tasks,
    including the durations for which it fires early; the re-arming of periodic timers.

  \<^item> \<open>GlobalData\<close> (\<open>cyber/common/global_data.cc\<close>): names get unique and stable ids for every hash function.

  \<^item> \<open>Roles\<close>, \<open>TopoGraph\<close>, \<open>Discovery\<close>, \<open>Topology\<close> (\<open>cyber/service_discovery\<close>): the containers fulfil the
    locale \<open>warehouse\<close>, the graph reports the directions of the data flow, the tables of the managers
    hold what was announced and not withdrawn, and a removed participant loses exactly its own roles.

  \<^item> \<open>Croutine\<close>, \<open>Scheduler\<close>, \<open>SchedulerPolicy\<close> (\<open>cyber/croutine\<close>, \<open>cyber/scheduler\<close>): the wake-up of a waiting
    routine is not lost between routine and writer (one of a sleeping processor can be), no routine runs on two processors, \<open>NextRoutine\<close> picks the right one, and the
    queues of the classic policy hold exactly the registered routines.

  \<^item> \<open>Shm\<close>, \<open>Messages\<close>, \<open>Dispatching\<close>, \<open>ShmTransport\<close>, \<open>ShmDelivery\<close> (\<open>cyber/transport\<close>): segments of shared
    memory, the byte layout of what is sent, the listeners of a channel, notifiers, sending and
    receiving; composed in \<open>ShmDelivery\<close>, a message whose transmission succeeds reaches the
    listeners unchanged.

  \<^item> \<open>Hybrid\<close> (\<open>cyber/transport/transmitter\<close>, \<open>receiver\<close>, \<open>common\<close>): choosing the way of sending; a reader
    that was introduced to a writer gets each message exactly once.

  \<^item> \<open>Geometry\<close>, \<open>KdTree\<close> (\<open>modules/common/math\<close>): distances to segments and boxes, and the search tree over objects
    with boxes.  The tree relies on its objects through the locale \<open>boxed_objects\<close>: it finds a nearest object and all
    objects within a distance, and its construction ends unless the parameters are the default ones.

  \<^item> \<open>LaneSearch\<close>, \<open>LaneGeometry\<close> (\<open>modules/map/hdmap\<close>): loading the lanes of a map, which gives a well-formed map, the
    nearest lane and the lanes within a distance, on the interpretation of \<open>boxed_objects\<close> for segments of lanes; widths,
    headings, the point at a distance, and the projection of a point to a lane.

  \<^item> \<open>Frenet\<close> (\<open>math_utils.cc\<close>, \<open>cartesian_frenet_conversion.cc\<close>): angles are normalized, and converting a state to
    Cartesian coordinates and back gives it back.

  \<^item> \<open>Curves\<close> (\<open>modules/planning/math/curve1d\<close>): the cubic, quartic and quintic curves meet their conditions at both ends, and
    \<open>Evaluate\<close> gives their derivatives.

  \<^item> \<open>LruCache\<close> (\<open>modules/common/util/lru_cache.h\<close>): the hash table with its doubly linked list implements a list of
    entries ordered by their last use.

  Several theorems state defects: what the code does on a concrete input where it does not do what
  it means to.  The general theorems have the hypotheses that exclude these inputs.

  \<^bold>\<open>Loops.\<close>  Loops that walk a list are structural recursion; the breadth-first search of \<open>TopoGraph\<close>, the
  splitting of strings, the bisection in \<open>LaneGeometry\<close> and the waiting loop of \<open>ConditionNotifier::Listen\<close> end by a measure.  A loop that can spin for ever is a partial
  function or a program of steps, so that not returning is visible in the model, and that it ends is
  proved where it does: for the probing of ids in \<open>GlobalData\<close>, the search for a writable block in
  \<open>Shm\<close>, and the construction of the search trees of the map in \<open>LaneSearch\<close>.

  \<^bold>\<open>Not modelled.\<close>
  \<^item> Numerical algorithms: the filters, solvers and optimisation of \<open>modules/common/math\<close> and
    \<open>modules/planning\<close>.  What they promise holds only up to rounding, which the real numbers of the model leave out.
  \<^item> The objects of the map other than lanes, and its parsers.
  \<^item> System calls and foreign libraries: sockets and polling (\<open>cyber/io\<close>), files (\<open>cyber/record\<close>,
    \<open>cyber/common/file.cc\<close>), loading of libraries (\<open>cyber/class_loader\<close>), switching of stacks, threads, RTPS.
  \<^item> Classes that connect modelled parts: nodes, readers, writers, components, services and tasks.
  \<^item> Discrete code that could be modelled in the same way and is not yet: \<open>cyber/blocker\<close>, the other
    queues and pools of \<open>cyber/base\<close>, the buffers of \<open>cyber/logger\<close>, the other containers of
    \<open>modules/common/util\<close> and those of \<open>modules/planning/common\<close>.
  \<^item> Weak memory: the memory orders of atomic operations are not distinguished.
\<close>

end
